(* ===== verification/Prelude.thy ===== *)
theory Prelude
  imports Complex_Main
    "HOL-Library.List_Lexorder" "HOL-Library.Char_ord" "HOL-Library.AList"
    "HOL-Library.Sublist" "HOL-Library.Multiset"
begin

text \<open>
  What every component of the development shares.

  \<^item> Go strings are byte strings (\<open>string\<close>, a list of characters below 256), ordered bytewise
    as Go orders them (the lexicographic order of \<open>HOL-Library.List_Lexorder\<close> over
    \<open>HOL-Library.Char_ord\<close>), so that \<open>sort\<close> is \<^verbatim>\<open>sort.Strings\<close>. The functions of
    \<^verbatim>\<open>strings\<close>, \<^verbatim>\<open>strconv\<close> and \<^verbatim>\<open>fmt\<close> the sources call are defined here for
    ASCII text.
  \<^item> Go maps are association lists with distinct keys. The order of the list stands for the order
    in which one run of the program happens to range over the map, so a theorem about every such
    list is a theorem about every iteration order. \<open>map_of\<close>, \<open>AList.update\<close> and
    \<open>AList.delete\<close> are \<^verbatim>\<open>m[k]\<close>, \<^verbatim>\<open>m[k] = v\<close> and \<^verbatim>\<open>delete(m, k)\<close>.
  \<^item> An \<^verbatim>\<open>error\<close> is its message; a function returning \<^verbatim>\<open>(T, error)\<close> has the result type
    \<open>string + 't\<close>, with \<open>Inl\<close> for the error.
\<close>

section \<open>Collections of rewrite rules\<close>

named_theorems go_map \<open>lookup, update and key-set facts about association-list maps\<close>
named_theorems go_str \<open>facts about the string functions\<close>

section \<open>Types\<close>

type_synonym ('k, 'v) gomap = "('k \<times> 'v) list"
type_synonym 'a result = "string + 'a"

abbreviation m_set :: "'k \<Rightarrow> 'v \<Rightarrow> ('k, 'v) gomap \<Rightarrow> ('k, 'v) gomap" where
  "m_set \<equiv> AList.update"

abbreviation m_del :: "'k \<Rightarrow> ('k, 'v) gomap \<Rightarrow> ('k, 'v) gomap" where
  "m_del \<equiv> AList.delete"

abbreviation m_keys :: "('k, 'v) gomap \<Rightarrow> 'k list" where
  "m_keys m \<equiv> map fst m"

section \<open>Strings\<close>

abbreviation has_prefix :: "string \<Rightarrow> string \<Rightarrow> bool" where
  "has_prefix s p \<equiv> prefix p s"

abbreviation has_suffix :: "string \<Rightarrow> string \<Rightarrow> bool" where
  "has_suffix s p \<equiv> suffix p s"

definition trim_prefix :: "string \<Rightarrow> string \<Rightarrow> string" where
  "trim_prefix s p = (if has_prefix s p then drop (length p) s else s)"

definition cut_suffix :: "string \<Rightarrow> string \<Rightarrow> string option" where
  "cut_suffix s p = (if has_suffix s p then Some (take (length s - length p) s) else None)"

fun str_index :: "string \<Rightarrow> char \<Rightarrow> nat option" where
  "str_index [] c = None"
| "str_index (x # xs) c = (if x = c then Some 0 else map_option Suc (str_index xs c))"

fun split_on :: "char \<Rightarrow> string \<Rightarrow> string list" where
  "split_on c [] = [[]]"
| "split_on c (x # xs) =
     (if x = c then [] # split_on c xs
      else (case split_on c xs of [] \<Rightarrow> [[x]] | p # ps \<Rightarrow> (x # p) # ps))"

fun join_with :: "string \<Rightarrow> string list \<Rightarrow> string" where
  "join_with sep [] = []"
| "join_with sep [s] = s"
| "join_with sep (s # ss) = s @ sep @ join_with sep ss"

definition is_space :: "char \<Rightarrow> bool" where
  "is_space c \<longleftrightarrow> c \<in> {CHR '' '', CHR 0x09, CHR 0x0A, CHR 0x0B, CHR 0x0C, CHR 0x0D}"

definition trim_space :: "string \<Rightarrow> string" where
  "trim_space s = rev (dropWhile is_space (rev (dropWhile is_space s)))"

definition to_lower_char :: "char \<Rightarrow> char" where
  "to_lower_char c =
     (let n = of_char c :: nat in if 65 \<le> n \<and> n \<le> 90 then char_of (n + 32) else c)"

definition to_lower :: "string \<Rightarrow> string" where
  "to_lower s = map to_lower_char s"

definition equal_fold :: "string \<Rightarrow> string \<Rightarrow> bool" where
  "equal_fold s t \<longleftrightarrow> to_lower s = to_lower t"

fun nat_dec :: "nat \<Rightarrow> string" where
  "nat_dec n =
     (if n < 10 then [char_of (48 + n)] else nat_dec (n div 10) @ [char_of (48 + n mod 10)])"

declare nat_dec.simps [simp del]

definition int_dec :: "int \<Rightarrow> string" where
  "int_dec i = (if i < 0 then CHR ''-'' # nat_dec (nat (- i)) else nat_dec (nat i))"

definition hex_digit :: "nat \<Rightarrow> char" where
  "hex_digit n = (if n < 10 then char_of (48 + n) else char_of (87 + n))"

definition quote_char :: "char \<Rightarrow> string" where
  "quote_char c =
     (let n = of_char c :: nat; bs = CHR 0x5C in
      if n = 34 \<or> n = 92 then [bs, c]
      else if 32 \<le> n \<and> n < 127 then [c]
      else if n = 7 then [bs, CHR ''a''] else if n = 8 then [bs, CHR ''b'']
      else if n = 12 then [bs, CHR ''f''] else if n = 10 then [bs, CHR ''n'']
      else if n = 13 then [bs, CHR ''r''] else if n = 9 then [bs, CHR ''t'']
      else if n = 11 then [bs, CHR ''v'']
      else [bs, CHR ''x'', hex_digit (n div 16), hex_digit (n mod 16)])"

text \<open>\<^verbatim>\<open>%q\<close>: a double-quoted string with Go escapes.\<close>

definition quote_q :: "string \<Rightarrow> string" where
  "quote_q s = [CHR 0x22] @ concat (map quote_char s) @ [CHR 0x22]"

section \<open>64-bit integers\<close>

text \<open>The value an \<^verbatim>\<open>int64\<close> holds after an operation whose exact result is \<open>x\<close>.\<close>

definition wrap64 :: "int \<Rightarrow> int" where
  "wrap64 x = (x + 2 ^ 63) mod 2 ^ 64 - 2 ^ 63"

section \<open>Shared lemmas\<close>

lemma map_option_sum_Inr:
  "map_option (map_sum id f) x = Some (Inr y) \<Longrightarrow> \<exists>z. x = Some (Inr z) \<and> f z = y"
  by (cases x; cases "the x") auto

lemma map_of_m_set [go_map]:
  "map_of (m_set k v m) = (map_of m)(k \<mapsto> v)"
  by (rule update_conv')

lemma map_of_m_del [go_map]:
  "map_of (m_del k m) = (map_of m)(k := None)"
  by (rule delete_conv')

lemma m_keys_m_set [go_map]: "set (m_keys (m_set k v m)) = insert k (set (m_keys m))"
  by (simp add: dom_update)

lemma set_m_set: "set (m_set k v m) \<subseteq> insert (k, v) (set m)"
  by (induction m) auto

lemma m_keys_image [go_map]: "fst ` set (m_set k v m) = insert k (fst ` set m)"
  by (simp add: dom_update)

lemma distinct_m_set [go_map, simp]: "distinct (m_keys m) \<Longrightarrow> distinct (m_keys (m_set k v m))"
  by (rule distinct_update)

lemma distinct_m_del [go_map, simp]: "distinct (m_keys m) \<Longrightarrow> distinct (m_keys (m_del k m))"
  by (rule distinct_delete)

lemma map_of_None_keys [go_map]: "map_of m k = None \<longleftrightarrow> k \<notin> set (m_keys m)"
  by (simp add: map_of_eq_None_iff)

lemma wrap64_range: "- (2 ^ 63) \<le> wrap64 x \<and> wrap64 x < 2 ^ 63"
proof -
  have "0 \<le> (x + 2 ^ 63) mod 2 ^ 64" and "(x + 2 ^ 63) mod 2 ^ 64 < 2 ^ 64"
    by simp_all
  then show ?thesis by (simp add: wrap64_def)
qed

lemma wrap64_id: "- (2 ^ 63) \<le> x \<Longrightarrow> x < 2 ^ 63 \<Longrightarrow> wrap64 x = x"
  by (simp add: wrap64_def mod_pos_pos_trivial)

lemma equal_fold_refl [simp]: "equal_fold s s"
  by (simp add: equal_fold_def)

lemma split_on_nonempty [simp]: "split_on c s \<noteq> []"
  by (induction s) (auto split: list.splits)

lemma nat_dec_nonempty [simp]: "nat_dec n \<noteq> []"
  by (subst nat_dec.simps) simp

lemma in_set_take_nth: "x \<in> set (take i xs) \<Longrightarrow> \<exists>j < i. j < length xs \<and> xs ! j = x"
  by (auto simp: in_set_conv_nth)

lemma wf_minimal: "wf r \<Longrightarrow> Q \<noteq> {} \<Longrightarrow> \<exists>n \<in> Q. \<forall>m. (m, n) \<in> r \<longrightarrow> m \<notin> Q"
  unfolding wf_eq_minimal by blast

lemma map_of_sorted_keys:
  "mset xs = mset ys \<Longrightarrow> sort xs = sort (ys :: 'a :: linorder list)"
  by (metis properties_for_sort mset_sort sorted_sort)

lemma distinct_map_nth_eq:
  "distinct (map f xs) \<Longrightarrow> i < length xs \<Longrightarrow> j < length xs \<Longrightarrow> f (xs ! i) = f (xs ! j) \<longleftrightarrow> i = j"
  using nth_eq_iff_index_eq [of "map f xs" i j] by simp

text \<open>Positions in a concatenation: the block an element lies in.\<close>

lemma concat_block:
  assumes "p < length (concat xss)"
  shows "\<exists>i < length xss. concat xss ! p \<in> set (xss ! i) \<and>
    length (concat (take i xss)) \<le> p \<and> p < length (concat (take (Suc i) xss))"
  using assms
proof (induction xss arbitrary: p)
  case (Cons xs xss)
  show ?case
  proof (cases "p < length xs")
    case True
    then show ?thesis by (intro exI [of _ 0]) (simp add: nth_append)
  next
    case False
    then have "p - length xs < length (concat xss)" using Cons.prems by simp
    from Cons.IH [OF this] obtain i where "i < length xss"
      "concat xss ! (p - length xs) \<in> set (xss ! i)" "length (concat (take i xss)) \<le> p - length xs"
      "p - length xs < length (concat (take (Suc i) xss))" by blast
    with False show ?thesis by (intro exI [of _ "Suc i"]) (simp add: nth_append, linarith)
  qed
qed simp

lemma concat_block_less:
  assumes "p < length (concat (take (Suc i) xss))" "length (concat (take j xss)) \<le> q" "i < j"
  shows "p < q"
proof -
  have "take j xss = take (Suc i) xss @ take (j - Suc i) (drop (Suc i) xss)"
    using assms(3) by (metis Suc_leI le_add_diff_inverse take_add)
  then have "length (concat (take (Suc i) xss)) \<le> length (concat (take j xss))" by simp
  with assms(1,2) show ?thesis by simp
qed

lemma distinct_concat_block_less:
  assumes "distinct (concat xss)" "i < j" "j < length xss"
  shows "set (xss ! i) \<inter> set (xss ! j) = {}"
proof -
  have "concat xss = concat (take j xss) @ concat (drop j xss)"
    by (metis append_take_drop_id concat_append)
  then have "set (concat (take j xss)) \<inter> set (concat (drop j xss)) = {}"
    using assms(1) by (metis distinct_append)
  moreover have "xss ! i \<in> set (take j xss)" "xss ! j \<in> set (drop j xss)"
    using assms(2,3) by (metis length_take min.absorb4 nth_mem nth_take order_less_imp_le)
      (metis assms(3) Cons_nth_drop_Suc list.set_intros(1))
  ultimately show ?thesis by fastforce
qed

lemma distinct_concat_block_unique:
  assumes "distinct (concat xss)" "i < length xss" "j < length xss"
    "x \<in> set (xss ! i)" "x \<in> set (xss ! j)"
  shows "i = j"
  using assms distinct_concat_block_less [OF assms(1), of i j]
    distinct_concat_block_less [OF assms(1), of j i]
  by (metis disjoint_iff linorder_neqE_nat)

end
