(* ===== verification/GoValue.thy ===== *)
theory GoValue
  imports Prelude
begin

text \<open>
  Values of the dynamic type \<^verbatim>\<open>any\<close> as the YAML decoder hands them to the state engine, and
  the coercions of \<^verbatim>\<open>src/pkg/state/attributes.go\<close> on them.

  A \<^verbatim>\<open>float64\<close> is carried as its exact value (\<open>None\<close> for infinities and NaN) together with
  the text \<^verbatim>\<open>fmt\<close> prints for it under \<^verbatim>\<open>%v\<close>, so that the shortest-decimal algorithm of
  \<^verbatim>\<open>strconv\<close> need not be repeated. \<open>GOther\<close> is any value of another dynamic type, with the
  name of that type (\<^verbatim>\<open>%T\<close>) and its \<^verbatim>\<open>%v\<close> text: the sources only ever reach such a value through a \<^verbatim>\<open>default\<close> branch or
  by printing it.
\<close>

datatype gval =
    GNil
  | GBool bool
  | GInt int
  | GInt64 int
  | GFloat "rat option" string
  | GStr string
  | GList "gval list"
  | GMap "(string \<times> gval) list"
  | GOther string string

type_synonym config = "(string, gval) gomap"

text \<open>\<^verbatim>\<open>fmt.Sprintf("%v", x)\<close>; maps are printed with their keys sorted.\<close>

fun sprint_v :: "gval \<Rightarrow> string" where
  "sprint_v GNil = ''<nil>''"
| "sprint_v (GBool b) = (if b then ''true'' else ''false'')"
| "sprint_v (GInt i) = int_dec i"
| "sprint_v (GInt64 i) = int_dec i"
| "sprint_v (GFloat v s) = s"
| "sprint_v (GStr s) = s"
| "sprint_v (GList xs) = ''['' @ join_with '' '' (map sprint_v xs) @ '']''"
| "sprint_v (GMap kvs) =
     ''map['' @ join_with '' ''
        (map (\<lambda>(k, s). k @ '':'' @ s) (sort_key fst (map (\<lambda>(k, v). (k, sprint_v v)) kvs))) @ '']''"
| "sprint_v (GOther t s) = s"

text \<open>\<^verbatim>\<open>fmt.Sprintf("%T", x)\<close>: the name of the dynamic type.\<close>

fun go_type :: "gval \<Rightarrow> string" where
  "go_type GNil = ''<nil>''"
| "go_type (GBool b) = ''bool''"
| "go_type (GInt i) = ''int''"
| "go_type (GInt64 i) = ''int64''"
| "go_type (GFloat v s) = ''float64''"
| "go_type (GStr s) = ''string''"
| "go_type (GList xs) = ''[]interface {}''"
| "go_type (GMap m) = ''map[string]interface {}''"
| "go_type (GOther t s) = t"

text \<open>\<^verbatim>\<open>config[key]\<close>: reading a missing key of a \<^verbatim>\<open>map[string]any\<close> yields \<^verbatim>\<open>nil\<close>.\<close>

definition get_any :: "config \<Rightarrow> string \<Rightarrow> gval" where
  "get_any cfg k = (case map_of cfg k of None \<Rightarrow> GNil | Some v \<Rightarrow> v)"

text \<open>
  \<^verbatim>\<open>int(t)\<close> of a \<^verbatim>\<open>float64\<close>: truncation towards zero; a value outside the range of
  \<^verbatim>\<open>int\<close> converts to the smallest \<^verbatim>\<open>int\<close>, as on amd64.
\<close>

definition float_int :: "rat option \<Rightarrow> int" where
  "float_int f =
     (case f of None \<Rightarrow> - (2 ^ 63)
      | Some q \<Rightarrow>
          (let t = (if 0 \<le> q then \<lfloor>q\<rfloor> else \<lceil>q\<rceil>)
           in if - (2 ^ 63) \<le> t \<and> t < 2 ^ 63 then t else - (2 ^ 63)))"

definition toInt :: "gval \<Rightarrow> int" where
  "toInt v = (case v of GInt t \<Rightarrow> t | GInt64 t \<Rightarrow> t | GFloat f s \<Rightarrow> float_int f | _ \<Rightarrow> 0)"

definition truthy :: "gval \<Rightarrow> bool" where
  "truthy v =
     (case v of
        GBool b \<Rightarrow> b
      | GStr t \<Rightarrow> t \<in> {''true'', ''True'', ''yes'', ''Yes'', ''1'', ''on'', ''On''}
      | GInt t \<Rightarrow> t \<noteq> 0
      | GFloat f s \<Rightarrow> f \<noteq> Some 0
      | _ \<Rightarrow> False)"

definition toStringList :: "gval \<Rightarrow> string list" where
  "toStringList v =
     (case v of
        GNil \<Rightarrow> []
      | GStr t \<Rightarrow> [t]
      | GList t \<Rightarrow> map (\<lambda>item. case item of GStr s \<Rightarrow> s | _ \<Rightarrow> sprint_v item) t
      | _ \<Rightarrow> [])"

definition ParseNameList :: "gval \<Rightarrow> string list" where
  "ParseNameList v = toStringList v"

lemma get_any_m_set [go_map]:
  "get_any (m_set k v cfg) k' = (if k' = k then v else get_any cfg k')"
  by (simp add: get_any_def map_of_m_set)

lemma get_any_m_del [go_map]:
  "get_any (m_del k cfg) k' = (if k' = k then GNil else get_any cfg k')"
  by (simp add: get_any_def map_of_m_del)

end
