(* ===== verification/StateCore.thy ===== *)
theory StateCore
  imports GoValue
begin

text \<open>
  The data of the state engine: \<^verbatim>\<open>src/pkg/state/state.go\<close> (requisites, the \<^verbatim>\<open>State\<close>
  interface, results), \<^verbatim>\<open>src/pkg/state/attributes.go\<close> (the generic attributes and the wrapper
  that adds them to a module's state) and \<^verbatim>\<open>src/pkg/state/reserved.go\<close> (the reserved keys).

  The machine a state acts on is a type variable \<open>'w\<close>: a module's \<^verbatim>\<open>Check\<close>, \<^verbatim>\<open>Apply\<close> and
  \<^verbatim>\<open>Revert\<close> are functions that read and change it, and may fail. The optional Go interfaces
  (\<^verbatim>\<open>Ordered\<close>, \<^verbatim>\<open>Retryable\<close>, \<^verbatim>\<open>FailHarder\<close>, \<^verbatim>\<open>Prereqer\<close>) are \<open>option\<close> fields, \<open>None\<close>
  when the state does not implement them.
\<close>

section \<open>Reserved keys (reserved.go)\<close>

definition attributeKeys :: "string list" where
  "attributeKeys = [''onlyif'', ''unless'', ''order'', ''retry'', ''failhard'', ''prereq'']"

definition requisiteKeys :: "string list" where
  "requisiteKeys = [''require'', ''watch'', ''onchanges'', ''onfail'']"

definition compilerKeys :: "string list" where
  "compilerKeys = [''names'', ''listen'', ''listen_in'', ''require_in'', ''watch_in'',
     ''onchanges_in'', ''onfail_in'', ''prereq_in'']"

definition ReservedKeySet :: "string set" where
  "ReservedKeySet = (\<Union>keys \<in> set [attributeKeys, requisiteKeys, compilerKeys]. set keys)"

text \<open>\<^verbatim>\<open>ReservedKeys\<close> collects the set in some order and sorts it.\<close>

definition ReservedKeys :: "string list" where
  "ReservedKeys = sort (remdups (attributeKeys @ requisiteKeys @ compilerKeys))"

section \<open>Requisites (state.go)\<close>

record Requisites =
  Require :: "string list"
  Watch :: "string list"
  OnChanges :: "string list"
  OnFail :: "string list"

fun all_deps_loop :: "string set \<Rightarrow> string list \<Rightarrow> string list \<Rightarrow> string list" where
  "all_deps_loop seen deps [] = deps"
| "all_deps_loop seen deps (d # ds) =
     (if d \<in> seen then all_deps_loop seen deps ds
      else all_deps_loop (insert d seen) (deps @ [d]) ds)"

definition AllDeps :: "Requisites \<Rightarrow> string list" where
  "AllDeps r = all_deps_loop {} [] (concat [Require r, Watch r, OnChanges r, OnFail r])"

definition saltShorthandMap :: "(string, string) gomap" where
  "saltShorthandMap =
     [(''pkg'', ''pkg.installed''), (''file'', ''file.managed''),
      (''service'', ''service.running''), (''cmd'', ''cmd.run''),
      (''user'', ''user.present''), (''group'', ''group.present'')]"

definition salt_full :: "string \<Rightarrow> string" where
  "salt_full m = (case map_of saltShorthandMap m of None \<Rightarrow> m | Some full \<Rightarrow> full)"

definition req_entry :: "gval \<Rightarrow> string list" where
  "req_entry item =
     (case item of
        GStr entry \<Rightarrow> [entry]
      | GMap entry \<Rightarrow> map (\<lambda>(m, ident). salt_full m @ '':'' @ sprint_v ident) entry
      | _ \<Rightarrow> [])"

definition ParseReqEntries :: "gval \<Rightarrow> string list" where
  "ParseReqEntries v =
     (case v of
        GNil \<Rightarrow> []
      | GList t \<Rightarrow> concat (map req_entry t)
      | t \<Rightarrow> concat (map req_entry [t]))"

definition parseReqList :: "config \<Rightarrow> string \<Rightarrow> string list" where
  "parseReqList cfg key = ParseReqEntries (get_any cfg key)"

definition ParseRequisites :: "config \<Rightarrow> Requisites" where
  "ParseRequisites cfg =
     \<lparr>Require = parseReqList cfg (requisiteKeys ! 0), Watch = parseReqList cfg (requisiteKeys ! 1),
      OnChanges = parseReqList cfg (requisiteKeys ! 2), OnFail = parseReqList cfg (requisiteKeys ! 3)\<rparr>"

section \<open>States and results (state.go)\<close>

record CheckResult =
  cr_NeedsChange :: bool
  cr_Diff :: string

record ApplyResult =
  ar_Changed :: bool
  ar_Diff :: string
  ar_Details :: "(string, string) gomap"

record 'w State =
  st_Name :: string
  st_Reqs :: Requisites
  st_Check :: "'w \<Rightarrow> CheckResult result \<times> 'w"
  st_Apply :: "'w \<Rightarrow> ApplyResult result \<times> 'w"
  st_Revert :: "'w \<Rightarrow> ApplyResult result \<times> 'w"
  st_Order :: "int option"
  st_RetrySpec :: "(int \<times> int) option"
  st_FailHard :: "bool option"
  st_PrereqTargets :: "string list option"

text \<open>The duration field of a \<^verbatim>\<open>StateResult\<close> is not modelled: nothing in the engine reads it.\<close>

record StateResult =
  sr_Name :: string
  sr_Changed :: bool
  sr_Diff :: string
  sr_Details :: "(string, string) gomap"
  sr_Error :: string
  sr_Skipped :: bool
  sr_SkipReason :: string

definition empty_result :: "string \<Rightarrow> StateResult" where
  "empty_result n =
     \<lparr>sr_Name = n, sr_Changed = False, sr_Diff = '''', sr_Details = [], sr_Error = '''',
      sr_Skipped = False, sr_SkipReason = ''''\<rparr>"

definition skipped_result :: "string \<Rightarrow> string \<Rightarrow> StateResult" where
  "skipped_result n reason = (empty_result n)\<lparr>sr_Skipped := True, sr_SkipReason := reason\<rparr>"

section \<open>Generic attributes (attributes.go)\<close>

record StateAttributes =
  a_Onlyif :: "string list"
  a_Unless :: "string list"
  a_Order :: int
  a_hasOrder :: bool
  a_RetryAttempts :: int
  a_RetryInterval :: int
  a_FailHard :: bool
  a_Prereq :: "string list"

definition IsZero :: "StateAttributes \<Rightarrow> bool" where
  "IsZero a \<longleftrightarrow> a_Onlyif a = [] \<and> a_Unless a = [] \<and> \<not> a_hasOrder a \<and>
     a_RetryAttempts a = 0 \<and> \<not> a_FailHard a \<and> a_Prereq a = []"

definition second :: int where
  "second = 1000000000"

definition parseRetry :: "gval \<Rightarrow> int \<times> int" where
  "parseRetry v =
     (let (attempts, interval) =
        (case v of
           GInt t \<Rightarrow> (t, 10 * second)
         | GInt64 t \<Rightarrow> (t, 10 * second)
         | GFloat f s \<Rightarrow> (float_int f, 10 * second)
         | GMap t \<Rightarrow>
             (case map_of t ''attempts'' of None \<Rightarrow> 0 | Some a \<Rightarrow> toInt a,
              case map_of t ''interval'' of None \<Rightarrow> 10 * second
                | Some iv \<Rightarrow> wrap64 (toInt iv * second))
         | _ \<Rightarrow> (0, 10 * second))
      in (if attempts < 0 then 0 else attempts, interval))"

definition parse_order :: "gval \<Rightarrow> int \<times> bool" where
  "parse_order v =
     (case v of
        GInt t \<Rightarrow> (t, True)
      | GInt64 t \<Rightarrow> (t, True)
      | GFloat f s \<Rightarrow> (float_int f, True)
      | GStr t \<Rightarrow>
          (if t = ''first'' then (- 1000000, True)
           else if t = ''last'' then (1000000, True) else (0, False))
      | _ \<Rightarrow> (0, False))"

definition ParseStateAttributes :: "config \<Rightarrow> StateAttributes" where
  "ParseStateAttributes cfg =
     (let (ord, hasord) =
            (case map_of cfg ''order'' of None \<Rightarrow> (0, False) | Some v \<Rightarrow> parse_order v);
          (att, iv) = (case map_of cfg ''retry'' of None \<Rightarrow> (0, 0) | Some v \<Rightarrow> parseRetry v)
      in \<lparr>a_Onlyif = toStringList (get_any cfg ''onlyif''),
          a_Unless = toStringList (get_any cfg ''unless''),
          a_Order = ord, a_hasOrder = hasord, a_RetryAttempts = att, a_RetryInterval = iv,
          a_FailHard = (case map_of cfg ''failhard'' of None \<Rightarrow> False | Some v \<Rightarrow> truthy v),
          a_Prereq = ParseReqEntries (get_any cfg ''prereq'')\<rparr>)"

text \<open>
  A guard runner takes a command and the machine and returns an exit code or an error
  (\<^verbatim>\<open>GuardRunner\<close>). The two loops of \<^verbatim>\<open>guardsAllow\<close> stop at the first command that decides.
\<close>

type_synonym 'w guard_runner = "string \<Rightarrow> 'w \<Rightarrow> int result \<times> 'w"

fun onlyif_loop :: "'w guard_runner \<Rightarrow> string list \<Rightarrow> 'w \<Rightarrow> bool result \<times> 'w" where
  "onlyif_loop run [] w = (Inr True, w)"
| "onlyif_loop run (c # cs) w =
     (case run c w of
        (Inl e, w') \<Rightarrow> (Inl (''onlyif '' @ quote_q c @ '': '' @ e), w')
      | (Inr code, w') \<Rightarrow> if code \<noteq> 0 then (Inr False, w') else onlyif_loop run cs w')"

fun unless_loop :: "'w guard_runner \<Rightarrow> string list \<Rightarrow> 'w \<Rightarrow> bool result \<times> 'w" where
  "unless_loop run [] w = (Inr True, w)"
| "unless_loop run (c # cs) w =
     (case run c w of
        (Inl e, w') \<Rightarrow> (Inl (''unless '' @ quote_q c @ '': '' @ e), w')
      | (Inr code, w') \<Rightarrow> if code = 0 then (Inr False, w') else unless_loop run cs w')"

definition guardsAllow ::
  "StateAttributes \<Rightarrow> 'w guard_runner option \<Rightarrow> 'w \<Rightarrow> bool result \<times> 'w" where
  "guardsAllow a guards w =
     (case guards of
        None \<Rightarrow> (Inr True, w)
      | Some run \<Rightarrow>
          if a_Onlyif a = [] \<and> a_Unless a = [] then (Inr True, w)
          else (case onlyif_loop run (a_Onlyif a) w of
                  (Inl e, w') \<Rightarrow> (Inl e, w')
                | (Inr False, w') \<Rightarrow> (Inr False, w')
                | (Inr True, w') \<Rightarrow> unless_loop run (a_Unless a) w'))"

definition guard_skip_diff :: string where
  "guard_skip_diff = ''skipped: guard condition not met''"

definition wrapped_Check ::
  "StateAttributes \<Rightarrow> 'w guard_runner option \<Rightarrow> 'w State \<Rightarrow> 'w \<Rightarrow> CheckResult result \<times> 'w" where
  "wrapped_Check a guards s w =
     (case guardsAllow a guards w of
        (Inl e, w') \<Rightarrow> (Inl e, w')
      | (Inr False, w') \<Rightarrow> (Inr \<lparr>cr_NeedsChange = False, cr_Diff = guard_skip_diff\<rparr>, w')
      | (Inr True, w') \<Rightarrow> st_Check s w')"

definition wrapped_Apply ::
  "StateAttributes \<Rightarrow> 'w guard_runner option \<Rightarrow> 'w State \<Rightarrow> 'w \<Rightarrow> ApplyResult result \<times> 'w" where
  "wrapped_Apply a guards s w =
     (case guardsAllow a guards w of
        (Inl e, w') \<Rightarrow> (Inl e, w')
      | (Inr False, w') \<Rightarrow>
          (Inr \<lparr>ar_Changed = False, ar_Diff = guard_skip_diff, ar_Details = []\<rparr>, w')
      | (Inr True, w') \<Rightarrow> st_Apply s w')"

definition WrapAttributes ::
  "'w State \<Rightarrow> StateAttributes \<Rightarrow> 'w guard_runner option \<Rightarrow> 'w State" where
  "WrapAttributes inner a guards =
     (if IsZero a then inner
      else inner\<lparr>st_Check := wrapped_Check a guards inner,
                 st_Apply := wrapped_Apply a guards inner,
                 st_Order := Some (a_Order a),
                 st_RetrySpec := Some (a_RetryAttempts a, a_RetryInterval a),
                 st_FailHard := Some (a_FailHard a),
                 st_PrereqTargets := Some (a_Prereq a)\<rparr>)"

end
