(* ===== verification/Dag.thy ===== *)
theory Dag
  imports StateCore
begin

text \<open>
  The dependency graph of \<^verbatim>\<open>src/pkg/state/dag.go\<close>: construction with its validation, and the
  levelled topological sort (Kahn's algorithm).

  Every loop of the source that ranges over a Go map takes the order of that one iteration from an
  oracle \<open>ro\<close>: \<open>ro i\<close> permutes the key list of the \<open>i\<close>-th such loop. The theorems hold for every
  oracle that only permutes (\<open>permutes ro\<close>).

  \<open>kahn_spec\<close> is the abstract specification: level by level, all nodes not yet placed whose
  dependencies are placed. \<open>resolve_loop\<close> refines it, and the properties of the sort are proved on
  the specification.
\<close>

type_synonym range_oracle = "nat \<Rightarrow> string list \<Rightarrow> string list"

definition permutes :: "range_oracle \<Rightarrow> bool" where
  "permutes ro \<longleftrightarrow> (\<forall>i xs. mset (ro i xs) = mset xs)"

record 'w DAG =
  d_nodes :: "(string, 'w State) gomap"
  d_edges :: "(string, string list) gomap"

section \<open>NewDAG\<close>

fun newdag_add :: "'w State list \<Rightarrow> 'w DAG \<Rightarrow> 'w DAG result" where
  "newdag_add [] d = Inr d"
| "newdag_add (s # ss) d =
     (case map_of (d_nodes d) (st_Name s) of
        Some _ \<Rightarrow> Inl (''dag: duplicate state '' @ quote_q (st_Name s))
      | None \<Rightarrow> newdag_add ss
          \<lparr>d_nodes = m_set (st_Name s) s (d_nodes d),
           d_edges = m_set (st_Name s) (AllDeps (st_Reqs s)) (d_edges d)\<rparr>)"

text \<open>The first dependency, in iteration order, that names no state.\<close>

fun first_unknown :: "'w DAG \<Rightarrow> string list \<Rightarrow> (string \<times> string) option" where
  "first_unknown d [] = None"
| "first_unknown d (name # names) =
     (case find (\<lambda>dep. map_of (d_nodes d) dep = None)
             (case map_of (d_edges d) name of None \<Rightarrow> [] | Some deps \<Rightarrow> deps) of
        Some dep \<Rightarrow> Some (name, dep)
      | None \<Rightarrow> first_unknown d names)"

definition NewDAG :: "range_oracle \<Rightarrow> 'w State list \<Rightarrow> 'w DAG result" where
  "NewDAG ro states =
     (case newdag_add states \<lparr>d_nodes = [], d_edges = []\<rparr> of
        Inl e \<Rightarrow> Inl e
      | Inr d \<Rightarrow>
          (case first_unknown d (ro 0 (m_keys (d_edges d))) of
             Some (name, dep) \<Rightarrow>
               Inl (''dag: state '' @ quote_q name @ '' requires unknown state '' @ quote_q dep)
           | None \<Rightarrow> Inr d))"

section \<open>Resolve\<close>

definition deg_get :: "(string, int) gomap \<Rightarrow> string \<Rightarrow> int" where
  "deg_get m k = (case map_of m k of None \<Rightarrow> 0 | Some v \<Rightarrow> v)"

definition dpt_get :: "(string, string list) gomap \<Rightarrow> string \<Rightarrow> string list" where
  "dpt_get m k = (case map_of m k of None \<Rightarrow> [] | Some v \<Rightarrow> v)"

fun init_degrees :: "string list \<Rightarrow> (string, int) gomap \<Rightarrow> (string, int) gomap" where
  "init_degrees [] deg = deg"
| "init_degrees (name # names) deg = init_degrees names (m_set name 0 deg)"

fun add_dependents ::
  "string \<Rightarrow> string list \<Rightarrow> (string, string list) gomap \<Rightarrow> (string, string list) gomap" where
  "add_dependents name [] dpt = dpt"
| "add_dependents name (dep # deps) dpt =
     add_dependents name deps (m_set dep (dpt_get dpt dep @ [name]) dpt)"

fun scan_edges ::
  "(string, string list) gomap \<Rightarrow> string list \<Rightarrow> (string, int) gomap \<Rightarrow> (string, string list) gomap
    \<Rightarrow> (string, int) gomap \<times> (string, string list) gomap" where
  "scan_edges edges [] deg dpt = (deg, dpt)"
| "scan_edges edges (name # names) deg dpt =
     (let deps = dpt_get edges name
      in scan_edges edges names (m_set name (int (length deps)) deg) (add_dependents name deps dpt))"

text \<open>The inner loops: decrement the in-degree of each dependent, collect those that reach 0.\<close>

fun relax ::
  "string list \<Rightarrow> (string, int) gomap \<Rightarrow> string list \<Rightarrow> (string, int) gomap \<times> string list" where
  "relax [] deg nxt = (deg, nxt)"
| "relax (dep # deps) deg nxt =
     (let k = deg_get deg dep - 1
      in relax deps (m_set dep k deg) (if k = 0 then nxt @ [dep] else nxt))"

definition positives :: "(string, int) gomap \<Rightarrow> nat" where
  "positives deg = length (filter (\<lambda>(k, v). 0 < v) deg)"

lemma positives_m_set:
  "v \<le> 0 \<Longrightarrow> positives (m_set k v deg) + (if 0 < deg_get deg k then 1 else 0) = positives deg"
  by (induction deg) (auto simp: positives_def deg_get_def split: option.splits if_splits)

lemma positives_m_set_le:
  "positives (m_set k (deg_get deg k - 1) deg) \<le> positives deg"
  by (induction deg) (auto simp: positives_def deg_get_def split: option.splits if_splits)

lemma relax_positives:
  "relax ds deg nxt = (deg', nxt') \<Longrightarrow>
     length nxt \<le> length nxt' \<and> positives deg' + length nxt' \<le> positives deg + length nxt"
proof (induction ds arbitrary: deg nxt)
  case Nil
  then show ?case by simp
next
  case (Cons d ds)
  let ?k = "deg_get deg d - 1"
  from Cons.prems have step:
    "relax ds (m_set d ?k deg) (if ?k = 0 then nxt @ [d] else nxt) = (deg', nxt')"
    by (simp add: Let_def)
  show ?case
    using Cons.IH [OF step] positives_m_set_le [of d deg] positives_m_set [of 0 d deg]
    by (auto split: if_splits)
qed

function resolve_loop ::
  "(string, string list) gomap \<Rightarrow> (string, int) gomap \<Rightarrow> string list \<Rightarrow> string list list
    \<Rightarrow> nat \<Rightarrow> string list list \<times> nat" where
  "resolve_loop dpt deg queue levels processed =
     (if queue = [] then (levels, processed)
      else let (deg', nxt) = relax (concat (map (dpt_get dpt) queue)) deg []
           in resolve_loop dpt deg' (sort nxt) (levels @ [queue]) (processed + length queue))"
  by pat_completeness auto
termination
proof (relation "measure (\<lambda>(dpt, deg, queue, levels, processed).
    2 * positives deg + (if queue = [] then 0 else 1))", goal_cases)
  case 1
  show ?case by simp
next
  case (2 dpt deg queue levels processed x deg' nxt)
  then have "relax (concat (map (dpt_get dpt) queue)) deg [] = (deg', nxt)"
    by simp
  from relax_positives [OF this] have "positives deg' + length nxt \<le> positives deg"
    by simp
  moreover have "sort nxt = [] \<longleftrightarrow> nxt = []"
    by (metis length_0_conv length_sort)
  ultimately show ?case
    using 2(1) by (cases nxt) auto
qed

declare resolve_loop.simps [simp del]

definition resolve_names :: "range_oracle \<Rightarrow> 'w DAG \<Rightarrow> string list list \<times> nat" where
  "resolve_names ro d =
     (let deg0 = init_degrees (ro 1 (m_keys (d_nodes d))) [];
          (deg, dpt) = scan_edges (d_edges d) (ro 2 (m_keys (d_edges d))) deg0 [];
          queue = sort (filter (\<lambda>name. deg_get deg name = 0) (ro 3 (m_keys deg)))
      in resolve_loop dpt deg queue [] 0)"

definition node_of :: "'w DAG \<Rightarrow> string \<Rightarrow> 'w State" where
  "node_of d name = the (map_of (d_nodes d) name)"

definition Resolve :: "range_oracle \<Rightarrow> 'w DAG \<Rightarrow> 'w State list list result" where
  "Resolve ro d =
     (let (levels, processed) = resolve_names ro d
      in if processed \<noteq> length (d_nodes d)
         then Inl (''dag: cycle detected, resolved '' @ nat_dec processed @ '' of '' @
                   nat_dec (length (d_nodes d)) @ '' states'')
         else Inr (map (map (node_of d)) levels))"

definition Order :: "range_oracle \<Rightarrow> 'w DAG \<Rightarrow> 'w State list result" where
  "Order ro d = (case Resolve ro d of Inl e \<Rightarrow> Inl e | Inr levels \<Rightarrow> Inr (concat levels))"

definition Get :: "'w DAG \<Rightarrow> string \<Rightarrow> 'w State option" where
  "Get d name = map_of (d_nodes d) name"

definition Len :: "'w DAG \<Rightarrow> nat" where
  "Len d = length (d_nodes d)"

section \<open>What NewDAG accepts\<close>

lemma m_set_fresh: "map_of m k = None \<Longrightarrow> m_set k v m = m @ [(k, v)]"
  by (induction m) (auto split: if_splits)

definition dag_of :: "'w State list \<Rightarrow> 'w DAG" where
  "dag_of states = \<lparr>d_nodes = map (\<lambda>s. (st_Name s, s)) states,
                    d_edges = map (\<lambda>s. (st_Name s, AllDeps (st_Reqs s))) states\<rparr>"

lemma newdag_add_eq:
  "m_keys (d_edges d) = m_keys (d_nodes d) \<Longrightarrow> distinct (map st_Name ss) \<Longrightarrow>
   set (map st_Name ss) \<inter> set (m_keys (d_nodes d)) = {} \<Longrightarrow>
   newdag_add ss d =
     Inr \<lparr>d_nodes = d_nodes d @ d_nodes (dag_of ss), d_edges = d_edges d @ d_edges (dag_of ss)\<rparr>"
proof (induction ss arbitrary: d)
  case Nil
  then show ?case by (simp add: dag_of_def)
next
  case (Cons s ss)
  have new: "map_of (d_nodes d) (st_Name s) = None" "map_of (d_edges d) (st_Name s) = None"
    using Cons.prems by (auto simp: map_of_None_keys)
  let ?d = "\<lparr>d_nodes = m_set (st_Name s) s (d_nodes d),
       d_edges = m_set (st_Name s) (AllDeps (st_Reqs s)) (d_edges d)\<rparr>"
  have "newdag_add ss ?d =
     Inr \<lparr>d_nodes = d_nodes ?d @ d_nodes (dag_of ss), d_edges = d_edges ?d @ d_edges (dag_of ss)\<rparr>"
    using Cons.prems new by (intro Cons.IH) (auto simp: m_set_fresh)
  with new show ?case by (simp add: m_set_fresh dag_of_def)
qed

lemma newdag_add_dup:
  "newdag_add ss d = Inr d' \<Longrightarrow> m_keys (d_edges d) = m_keys (d_nodes d) \<Longrightarrow>
     distinct (map st_Name ss) \<and> set (map st_Name ss) \<inter> set (m_keys (d_nodes d)) = {}"
proof (induction ss arbitrary: d)
  case Nil
  then show ?case by simp
next
  case (Cons s ss)
  have new: "map_of (d_nodes d) (st_Name s) = None"
    using Cons.prems by (auto split: option.splits)
  then have newe: "map_of (d_edges d) (st_Name s) = None"
    using Cons.prems(2) by (metis map_of_None_keys)
  from Cons.prems(1) new have step: "newdag_add ss
      \<lparr>d_nodes = m_set (st_Name s) s (d_nodes d),
       d_edges = m_set (st_Name s) (AllDeps (st_Reqs s)) (d_edges d)\<rparr> = Inr d'"
    by simp
  from Cons.IH [OF step] new newe Cons.prems(2) show ?case
    by (auto simp: m_set_fresh map_of_None_keys)
qed

lemma newdag_add_Inr:
  "newdag_add ss \<lparr>d_nodes = [], d_edges = []\<rparr> = Inr d \<longleftrightarrow> distinct (map st_Name ss) \<and> d = dag_of ss"
  using newdag_add_eq [of "\<lparr>d_nodes = [], d_edges = []\<rparr>" ss]
    newdag_add_dup [of ss "\<lparr>d_nodes = [], d_edges = []\<rparr>" d]
  by (auto simp: dag_of_def)

lemma first_unknown_None:
  "first_unknown d names = None \<longleftrightarrow>
     (\<forall>name \<in> set names. set (dpt_get (d_edges d) name) \<subseteq> set (m_keys (d_nodes d)))"
proof (induction names)
  case Nil
  then show ?case by simp
next
  case (Cons name names)
  have "find (\<lambda>dep. map_of (d_nodes d) dep = None) (dpt_get (d_edges d) name) = None
      \<longleftrightarrow> set (dpt_get (d_edges d) name) \<subseteq> set (m_keys (d_nodes d))"
    by (auto simp: find_None_iff map_of_None_keys)
  then show ?case
    using Cons.IH by (auto simp: dpt_get_def split: option.splits)
qed

lemma permutes_set: "permutes ro \<Longrightarrow> set (ro i xs) = set xs"
  by (metis permutes_def set_mset_mset)

lemma permutes_distinct: "permutes ro \<Longrightarrow> distinct (ro i xs) = distinct xs"
  by (metis permutes_def mset_eq_imp_distinct_iff)

lemma dag_of_keys [simp]:
  "m_keys (d_nodes (dag_of ss)) = map st_Name ss" "m_keys (d_edges (dag_of ss)) = map st_Name ss"
  by (simp_all add: dag_of_def)

definition wf_dag :: "'w DAG \<Rightarrow> bool" where
  "wf_dag d \<longleftrightarrow> distinct (m_keys (d_nodes d)) \<and> m_keys (d_edges d) = m_keys (d_nodes d) \<and>
     (\<forall>n. distinct (dpt_get (d_edges d) n) \<and>
          set (dpt_get (d_edges d) n) \<subseteq> set (m_keys (d_nodes d)))"

lemma all_deps_loop_props:
  "set deps = seen \<Longrightarrow> distinct deps \<Longrightarrow>
     distinct (all_deps_loop seen deps ds) \<and> set (all_deps_loop seen deps ds) = seen \<union> set ds"
  by (induction seen deps ds rule: all_deps_loop.induct) auto

lemma distinct_AllDeps [simp]: "distinct (AllDeps r)"
  using all_deps_loop_props [of "[]" "{}"] by (simp add: AllDeps_def)

lemma set_AllDeps:
  "set (AllDeps r) = set (Require r) \<union> set (Watch r) \<union> set (OnChanges r) \<union> set (OnFail r)"
  using all_deps_loop_props [of "[]" "{}"] by (auto simp: AllDeps_def)

lemma dag_of_deps:
  "distinct (map st_Name ss) \<Longrightarrow> s \<in> set ss \<Longrightarrow>
     dpt_get (d_edges (dag_of ss)) (st_Name s) = AllDeps (st_Reqs s)"
proof -
  assume a: "distinct (map st_Name ss)" "s \<in> set ss"
  then have "(st_Name s, AllDeps (st_Reqs s)) \<in> set (d_edges (dag_of ss))"
    by (auto simp: dag_of_def)
  moreover have "distinct (m_keys (d_edges (dag_of ss)))" using a by simp
  ultimately show ?thesis by (simp add: dpt_get_def)
qed

lemma dag_of_node:
  "distinct (map st_Name ss) \<Longrightarrow> s \<in> set ss \<Longrightarrow> node_of (dag_of ss) (st_Name s) = s"
  by (simp add: node_of_def dag_of_def map_of_map_keys image_iff map_of_eq_Some_iff o_def)

lemma NewDAG_Inr:
  assumes "permutes ro"
  shows "NewDAG ro ss = Inr d \<longleftrightarrow>
    d = dag_of ss \<and> distinct (map st_Name ss) \<and>
    (\<forall>s \<in> set ss. set (AllDeps (st_Reqs s)) \<subseteq> set (map st_Name ss))"
proof (cases "distinct (map st_Name ss)")
  case False
  then have "\<not> (\<exists>d. newdag_add ss \<lparr>d_nodes = [], d_edges = []\<rparr> = Inr d)"
    by (simp add: newdag_add_Inr)
  with False show ?thesis by (auto simp: NewDAG_def split: sum.splits)
next
  case True
  then have "newdag_add ss \<lparr>d_nodes = [], d_edges = []\<rparr> = Inr (dag_of ss)"
    by (simp add: newdag_add_Inr)
  moreover have "first_unknown (dag_of ss) (ro 0 (m_keys (d_edges (dag_of ss)))) = None \<longleftrightarrow>
      (\<forall>s \<in> set ss. set (AllDeps (st_Reqs s)) \<subseteq> set (map st_Name ss))"
    using True by (auto simp: first_unknown_None permutes_set [OF assms] dag_of_deps)
  ultimately show ?thesis
    using True by (auto simp: NewDAG_def split: option.splits)
qed

lemma NewDAG_wf: "permutes ro \<Longrightarrow> NewDAG ro ss = Inr d \<Longrightarrow> wf_dag d"
proof -
  assume a: "permutes ro" "NewDAG ro ss = Inr d"
  then have d: "d = dag_of ss" and dist: "distinct (map st_Name ss)"
    and sub: "\<forall>s \<in> set ss. set (AllDeps (st_Reqs s)) \<subseteq> set (map st_Name ss)"
    by (simp_all add: NewDAG_Inr)
  have "distinct (dpt_get (d_edges d) n) \<and> set (dpt_get (d_edges d) n) \<subseteq> set (map st_Name ss)" for n
  proof (cases "n \<in> set (map st_Name ss)")
    case True
    then obtain s where "s \<in> set ss" "n = st_Name s" by auto
    with dist sub d show ?thesis by (auto simp: dag_of_deps)
  next
    case False
    then have "map_of (d_edges d) n = None" using d by (simp add: map_of_None_keys)
    then show ?thesis by (simp add: dpt_get_def)
  qed
  with d dist show ?thesis by (simp add: wf_dag_def)
qed

section \<open>The abstract level specification\<close>

text \<open>Nodes outside \<open>P\<close> all of whose dependencies are inside \<open>P\<close>.\<close>

definition ready :: "string set \<Rightarrow> (string \<Rightarrow> string set) \<Rightarrow> string set \<Rightarrow> string set" where
  "ready N deps P = {n \<in> N. n \<notin> P \<and> deps n \<subseteq> P}"

function kahn_spec :: "string set \<Rightarrow> (string \<Rightarrow> string set) \<Rightarrow> string set \<Rightarrow> string list list" where
  "kahn_spec N deps P =
     (if finite N \<and> ready N deps P \<noteq> {}
      then sorted_list_of_set (ready N deps P) # kahn_spec N deps (P \<union> ready N deps P)
      else [])"
  by pat_completeness auto
termination
proof (relation "measure (\<lambda>(N, deps, P). card (N - P))", goal_cases)
  case 1
  show ?case by simp
next
  case (2 N deps P)
  then have "N - (P \<union> ready N deps P) \<subset> N - P"
    by (auto simp: ready_def)
  with 2 show ?case by (auto intro: psubset_card_mono)
qed

declare kahn_spec.simps [simp del]

section \<open>Resolve refines the specification\<close>

lemma deg_get_m_set: "deg_get (m_set k v deg) n = (if n = k then v else deg_get deg n)"
  by (simp add: deg_get_def map_of_m_set)

lemma dpt_get_m_set: "dpt_get (m_set k v dpt) n = (if n = k then v else dpt_get dpt n)"
  by (simp add: dpt_get_def map_of_m_set)

lemma relax_degrees: "deg_get (fst (relax ds deg nxt)) n = deg_get deg n - int (count_list ds n)"
  by (induction ds arbitrary: deg nxt) (auto simp: Let_def deg_get_m_set)

lemma relax_next:
  "\<exists>new. snd (relax ds deg nxt) = nxt @ new \<and> distinct new \<and>
     set new = {n. 0 < deg_get deg n \<and> deg_get deg n \<le> int (count_list ds n)}"
proof (induction ds arbitrary: deg nxt)
  case Nil
  then show ?case by auto
next
  case (Cons d ds)
  let ?k = "deg_get deg d - 1"
  let ?deg = "m_set d ?k deg"
  let ?nxt = "if ?k = 0 then nxt @ [d] else nxt"
  from Cons.IH [of ?deg ?nxt] obtain new where new: "snd (relax ds ?deg ?nxt) = ?nxt @ new"
    "distinct new" "set new = {n. 0 < deg_get ?deg n \<and> deg_get ?deg n \<le> int (count_list ds n)}"
    by blast
  let ?new = "if ?k = 0 then d # new else new"
  have "snd (relax (d # ds) deg nxt) = nxt @ ?new"
    using new(1) by (simp add: Let_def)
  moreover have "distinct ?new"
    using new(2,3) by (auto simp: deg_get_m_set)
  moreover have "set ?new = {n. 0 < deg_get deg n \<and> deg_get deg n \<le> int (count_list (d # ds) n)}"
  proof (rule set_eqI)
    fix n
    have "n \<in> set new \<longleftrightarrow> 0 < deg_get ?deg n \<and> deg_get ?deg n \<le> int (count_list ds n)"
      using new(3) by blast
    then show "n \<in> set ?new \<longleftrightarrow>
        n \<in> {n. 0 < deg_get deg n \<and> deg_get deg n \<le> int (count_list (d # ds) n)}"
      by (cases "n = d"; cases "?k = 0") (simp_all add: deg_get_m_set, linarith)
  qed
  ultimately show ?case by blast
qed

lemma count_list_concat: "count_list (concat xss) n = sum_list (map (\<lambda>xs. count_list xs n) xss)"
  by (induction xss) simp_all

lemma sum_list_indicator:
  "distinct xs \<Longrightarrow> sum_list (map (\<lambda>q. if q \<in> A then 1 else 0) xs) = card (A \<inter> set xs)"
proof (induction xs)
  case Nil
  then show ?case by simp
next
  case (Cons x xs)
  show ?case
  proof (cases "x \<in> A")
    case True
    then have "A \<inter> set (x # xs) = insert x (A \<inter> set xs)" by auto
    with Cons True show ?thesis by simp
  next
    case False
    then have "A \<inter> set (x # xs) = A \<inter> set xs" by auto
    with Cons False show ?thesis by simp
  qed
qed

lemma sort_eq_sorted_list_of_set: "distinct xs \<Longrightarrow> sort xs = sorted_list_of_set (set xs)"
  by (simp add: sorted_list_of_set_sort_remdups distinct_remdups_id)

lemma count_dependents:
  assumes dpt: "\<And>q n. count_list (dpt_get dpt q) n = (if n \<in> N \<and> q \<in> deps n then 1 else 0)"
    and "distinct queue"
  shows "count_list (concat (map (dpt_get dpt) queue)) n =
    (if n \<in> N then card (deps n \<inter> set queue) else 0)"
proof (cases "n \<in> N")
  case True
  have "count_list (concat (map (dpt_get dpt) queue)) n =
      sum_list (map (\<lambda>q. count_list (dpt_get dpt q) n) queue)"
    by (simp add: count_list_concat o_def)
  also have "\<dots> = sum_list (map (\<lambda>q. if q \<in> deps n then 1 else 0) queue)"
    using True by (simp add: dpt)
  finally show ?thesis
    using sum_list_indicator [OF assms(2)] True by simp
next
  case False
  then show ?thesis by (simp add: count_list_concat o_def dpt)
qed

lemma relax_ready:
  assumes deg: "\<And>n. n \<in> N \<Longrightarrow> deg_get deg n = int (card (deps n - P))"
    and dpt: "\<And>q n. count_list (dpt_get dpt q) n = (if n \<in> N \<and> q \<in> deps n then 1 else 0)"
    and fin: "\<And>n. finite (deps n)"
    and closed: "\<And>n. n \<in> P \<Longrightarrow> deps n \<subseteq> P"
    and queue: "distinct queue" "set queue = ready N deps P"
    and r: "relax (concat (map (dpt_get dpt) queue)) deg [] = (deg', nxt)"
  shows "n \<in> N \<Longrightarrow> deg_get deg' n = int (card (deps n - (P \<union> ready N deps P)))"
    and "distinct nxt" and "set nxt = ready N deps (P \<union> ready N deps P)"
proof -
  let ?ds = "concat (map (dpt_get dpt) queue)" and ?R = "ready N deps P"
  have cnt: "count_list ?ds n = (if n \<in> N then card (deps n \<inter> ?R) else 0)" for n
    using count_dependents [OF dpt queue(1)] queue(2) by simp
  have R: "?R \<inter> P = {}" by (auto simp: ready_def)
  have split: "card (deps n - P) = card (deps n - (P \<union> ?R)) + card (deps n \<inter> ?R)" for n
  proof -
    have "deps n - P = (deps n - (P \<union> ?R)) \<union> (deps n \<inter> ?R)" using R by auto
    moreover have "(deps n - (P \<union> ?R)) \<inter> (deps n \<inter> ?R) = {}" by auto
    ultimately show ?thesis using fin [of n] by (metis card_Un_disjoint finite_Diff finite_Int)
  qed
  from relax_degrees [of ?ds deg "[]"] r cnt split
  show "n \<in> N \<Longrightarrow> deg_get deg' n = int (card (deps n - (P \<union> ?R)))" for n
    by (simp add: deg)
  from relax_next [of ?ds deg "[]"] r
  have nxt: "distinct nxt" "set nxt = {n. 0 < deg_get deg n \<and> deg_get deg n \<le> int (count_list ?ds n)}"
    by auto
  show "distinct nxt" by (rule nxt(1))
  have "n \<in> set nxt \<longleftrightarrow> n \<in> ready N deps (P \<union> ?R)" for n
  proof (cases "n \<in> N")
    case True
    then have "n \<in> set nxt \<longleftrightarrow> 0 < card (deps n - P) \<and> card (deps n - (P \<union> ?R)) = 0"
      using nxt(2) cnt [of n] split [of n] deg [of n] by auto
    also have "\<dots> \<longleftrightarrow> \<not> deps n \<subseteq> P \<and> deps n \<subseteq> P \<union> ?R"
      using fin [of n] by (auto simp: card_gt_0_iff)
    also have "\<dots> \<longleftrightarrow> n \<in> ready N deps (P \<union> ?R)"
      using True closed [of n] by (auto simp: ready_def)
    finally show ?thesis .
  next
    case False
    then show ?thesis using nxt(2) cnt [of n] by (auto simp: ready_def)
  qed
  then show "set nxt = ready N deps (P \<union> ?R)" by blast
qed

lemma resolve_loop_refines:
  assumes "finite N"
    and dpt: "\<And>q n. count_list (dpt_get dpt q) n = (if n \<in> N \<and> q \<in> deps n then 1 else 0)"
    and fin: "\<And>n. finite (deps n)"
    and "\<And>n. n \<in> N \<Longrightarrow> deg_get deg n = int (card (deps n - P))"
    and "\<And>n. n \<in> P \<Longrightarrow> deps n \<subseteq> P"
    and "queue = sorted_list_of_set (ready N deps P)"
  shows "resolve_loop dpt deg queue levels processed =
    (levels @ kahn_spec N deps P, processed + length (concat (kahn_spec N deps P)))"
  using assms(4-6)
proof (induction "card (N - P)" arbitrary: P deg queue levels processed rule: less_induct)
  case less
  let ?R = "ready N deps P"
  have finR: "finite ?R" using assms(1) by (simp add: ready_def)
  show ?case
  proof (cases "?R = {}")
    case True
    then have "queue = []" using less.prems(3) by simp
    with True show ?thesis
      by (simp add: resolve_loop.simps [of dpt deg "[]" levels processed] kahn_spec.simps [of N deps P])
  next
    case False
    then have ne: "queue \<noteq> []" using less.prems(3) finR by simp
    obtain deg' nxt where r: "relax (concat (map (dpt_get dpt) queue)) deg [] = (deg', nxt)"
      by (cases "relax (concat (map (dpt_get dpt) queue)) deg []")
    have q: "distinct queue" "set queue = ?R" "length queue = card ?R"
      using less.prems(3) finR by simp_all
    note rr = relax_ready [OF less.prems(1) dpt fin less.prems(2) q(1,2) r]
    have closed: "\<And>n. n \<in> P \<union> ?R \<Longrightarrow> deps n \<subseteq> P \<union> ?R"
      using less.prems(2) by (auto simp: ready_def)
    have "N - (P \<union> ?R) \<subset> N - P" using False by (auto simp: ready_def)
    then have "card (N - (P \<union> ?R)) < card (N - P)"
      using assms(1) by (intro psubset_card_mono) simp_all
    then have "resolve_loop dpt deg' (sort nxt) (levels @ [queue]) (processed + length queue) =
        ((levels @ [queue]) @ kahn_spec N deps (P \<union> ?R),
         (processed + length queue) + length (concat (kahn_spec N deps (P \<union> ?R))))"
      using rr closed by (intro less.hyps) (simp_all add: sort_eq_sorted_list_of_set)
    moreover have "kahn_spec N deps P = queue # kahn_spec N deps (P \<union> ?R)"
      using False assms(1) less.prems(3) by (subst kahn_spec.simps) simp
    moreover have "resolve_loop dpt deg queue levels processed =
        resolve_loop dpt deg' (sort nxt) (levels @ [queue]) (processed + length queue)"
      using ne r by (subst resolve_loop.simps) simp
    ultimately show ?thesis by simp
  qed
qed

lemma init_degrees_get: "deg_get deg n = 0 \<Longrightarrow> deg_get (init_degrees names deg) n = 0"
  by (induction names arbitrary: deg) (auto simp: deg_get_m_set)

lemma init_degrees_keys:
  "set (m_keys (init_degrees names deg)) = set names \<union> set (m_keys deg)"
  by (induction names arbitrary: deg) (simp_all add: m_keys_image)

lemma init_degrees_distinct: "distinct (m_keys deg) \<Longrightarrow> distinct (m_keys (init_degrees names deg))"
  by (induction names arbitrary: deg) auto

lemma add_dependents_count:
  "count_list (dpt_get (add_dependents name deps dpt) q) n =
     count_list (dpt_get dpt q) n + (if n = name then count_list deps q else 0)"
  by (induction deps arbitrary: dpt) (auto simp: dpt_get_m_set)

lemma scan_edges_keys:
  "scan_edges edges names deg dpt = (deg', dpt') \<Longrightarrow>
     set (m_keys deg') = set names \<union> set (m_keys deg) \<and>
     (distinct (m_keys deg) \<longrightarrow> distinct (m_keys deg'))"
proof (induction names arbitrary: deg dpt)
  case Nil
  then show ?case by simp
next
  case (Cons name names)
  from Cons.prems have step: "scan_edges edges names
      (m_set name (int (length (dpt_get edges name))) deg)
      (add_dependents name (dpt_get edges name) dpt) = (deg', dpt')"
    by (simp add: Let_def)
  from Cons.IH [OF step] show ?case by (simp add: m_keys_image)
qed

lemma scan_edges_get:
  "scan_edges edges names deg dpt = (deg', dpt') \<Longrightarrow> distinct names \<Longrightarrow>
     deg_get deg' n = (if n \<in> set names then int (length (dpt_get edges n)) else deg_get deg n) \<and>
     count_list (dpt_get dpt' q) n =
       count_list (dpt_get dpt q) n + (if n \<in> set names then count_list (dpt_get edges n) q else 0)"
proof (induction names arbitrary: deg dpt)
  case Nil
  then show ?case by simp
next
  case (Cons name names)
  from Cons.prems(1) have step: "scan_edges edges names
      (m_set name (int (length (dpt_get edges name))) deg)
      (add_dependents name (dpt_get edges name) dpt) = (deg', dpt')"
    by (simp add: Let_def)
  from Cons.IH [OF step] Cons.prems(2) show ?case
    by (auto simp: deg_get_m_set add_dependents_count)
qed

definition dag_names :: "'w DAG \<Rightarrow> string set" where
  "dag_names d = set (m_keys (d_nodes d))"

definition dag_deps :: "'w DAG \<Rightarrow> string \<Rightarrow> string set" where
  "dag_deps d n = set (dpt_get (d_edges d) n)"

lemma count_list_distinct: "distinct xs \<Longrightarrow> count_list xs x = (if x \<in> set xs then 1 else 0)"
  by (induction xs) auto

lemma resolve_names_spec:
  assumes wf: "wf_dag d" and ro: "permutes ro"
  defines "L \<equiv> kahn_spec (dag_names d) (dag_deps d) {}"
  shows "resolve_names ro d = (L, length (concat L))"
proof -
  let ?N = "dag_names d" and ?D = "dag_deps d"
  let ?deg0 = "init_degrees (ro 1 (m_keys (d_nodes d))) []"
  obtain deg dpt where sc:
    "scan_edges (d_edges d) (ro 2 (m_keys (d_edges d))) ?deg0 [] = (deg, dpt)"
    by (cases "scan_edges (d_edges d) (ro 2 (m_keys (d_edges d))) ?deg0 []")
  have dist: "distinct (ro 2 (m_keys (d_edges d)))" and keys: "set (ro 2 (m_keys (d_edges d))) = ?N"
    using wf by (simp_all add: wf_dag_def permutes_distinct [OF ro] permutes_set [OF ro] dag_names_def)
  note get = scan_edges_get [OF sc dist, unfolded keys]
  have deg: "deg_get deg n = int (card (?D n))" if "n \<in> ?N" for n
    using get that wf by (simp add: dag_deps_def distinct_card wf_dag_def)
  have dpt: "count_list (dpt_get dpt q) n = (if n \<in> ?N \<and> q \<in> ?D n then 1 else 0)" for q n
    using get [of n q] wf by (simp add: dag_deps_def wf_dag_def count_list_distinct dpt_get_def [of "[]"])
  have dk: "distinct (m_keys deg)" "set (m_keys deg) = ?N"
    using scan_edges_keys [OF sc] init_degrees_distinct [of "[]"] keys
      init_degrees_keys [of "ro 1 (m_keys (d_nodes d))" "[]"]
    by (simp_all add: permutes_set [OF ro] dag_names_def)
  let ?q = "filter (\<lambda>name. deg_get deg name = 0) (ro 3 (m_keys deg))"
  have "set ?q = ready ?N ?D {}"
    using deg dk(2) by (auto simp: permutes_set [OF ro] ready_def dag_deps_def)
  moreover have "distinct ?q" using dk(1) by (simp add: permutes_distinct [OF ro])
  ultimately have q: "sort ?q = sorted_list_of_set (ready ?N ?D {})"
    by (simp add: sort_eq_sorted_list_of_set)
  have "resolve_loop dpt deg (sort ?q) [] 0 = ([] @ L, 0 + length (concat L))"
    unfolding L_def using deg dpt q
    by (intro resolve_loop_refines) (simp_all add: dag_names_def dag_deps_def)
  with sc show ?thesis by (simp add: resolve_names_def)
qed

section \<open>Properties of the specification\<close>

lemma ready_fresh: "ready N deps P \<inter> P = {}" "ready N deps P \<subseteq> N"
  by (auto simp: ready_def)

lemma kahn_spec_sound:
  assumes "finite N"
  shows "set (concat (kahn_spec N deps P)) \<subseteq> N - P \<and> distinct (concat (kahn_spec N deps P)) \<and>
    ready N deps (P \<union> set (concat (kahn_spec N deps P))) = {}"
  using assms
proof (induction N deps P rule: kahn_spec.induct)
  case (1 N deps P)
  let ?R = "ready N deps P"
  have fin: "finite ?R" using "1.prems" by (simp add: ready_def)
  show ?case
  proof (cases "?R = {}")
    case True
    then show ?thesis by (simp add: kahn_spec.simps [of N deps P])
  next
    case False
    let ?rest = "kahn_spec N deps (P \<union> ?R)"
    have step: "kahn_spec N deps P = sorted_list_of_set ?R # ?rest"
      using False "1.prems" by (subst kahn_spec.simps) simp
    have "set (concat ?rest) \<subseteq> N - (P \<union> ?R)" "distinct (concat ?rest)"
      "ready N deps (P \<union> ?R \<union> set (concat ?rest)) = {}"
      using "1.IH" "1.prems" False by blast+
    with ready_fresh [of N deps P] fin show ?thesis
      unfolding step by (auto simp: Un_assoc)
  qed
qed

lemma kahn_spec_nth:
  assumes "finite N" "i < length (kahn_spec N deps P)"
  shows "kahn_spec N deps P ! i =
    sorted_list_of_set (ready N deps (P \<union> set (concat (take i (kahn_spec N deps P)))))"
  using assms
proof (induction N deps P arbitrary: i rule: kahn_spec.induct)
  case (1 N deps P)
  let ?R = "ready N deps P"
  have fin: "finite ?R" using "1.prems" by (simp add: ready_def)
  have ne: "?R \<noteq> {}"
    using "1.prems" by (subst (asm) kahn_spec.simps) (auto split: if_splits)
  then have step: "kahn_spec N deps P = sorted_list_of_set ?R # kahn_spec N deps (P \<union> ?R)"
    using "1.prems" by (subst kahn_spec.simps) simp
  show ?case
  proof (cases i)
    case 0
    then show ?thesis by (simp add: step)
  next
    case (Suc j)
    have "kahn_spec N deps (P \<union> ?R) ! j =
        sorted_list_of_set (ready N deps (P \<union> ?R \<union> set (concat (take j (kahn_spec N deps (P \<union> ?R))))))"
      using "1.IH" "1.prems" ne Suc step by simp
    with Suc fin show ?thesis by (simp add: step Un_assoc)
  qed
qed

lemma kahn_spec_deps_before:
  assumes "finite N" "i < length (kahn_spec N deps {})" "n \<in> set (kahn_spec N deps {} ! i)"
  shows "deps n \<subseteq> set (concat (take i (kahn_spec N deps {})))"
proof -
  have "finite (ready N deps P)" for P using assms(1) by (simp add: ready_def)
  then have "n \<in> ready N deps (set (concat (take i (kahn_spec N deps {}))))"
    using kahn_spec_nth [OF assms(1,2)] assms(3) by simp
  then show ?thesis by (simp only: ready_def mem_Collect_eq)
qed

lemma kahn_spec_dep_in_previous:
  assumes "finite N" "Suc i < length (kahn_spec N deps {})" "n \<in> set (kahn_spec N deps {} ! Suc i)"
  shows "\<exists>m \<in> deps n. m \<in> set (kahn_spec N deps {} ! i)"
proof (rule ccontr)
  let ?L = "kahn_spec N deps {}"
  assume none: "\<not> ?thesis"
  define A where "A = set (concat (take i ?L))"
  define B where "B = set (?L ! i)"
  have fin: "finite (ready N deps P)" for P using assms(1) by (simp add: ready_def)
  have "set (concat (take (Suc i) ?L)) = A \<union> B"
    using assms(2) by (simp add: A_def B_def take_Suc_conv_app_nth)
  then have n: "n \<in> ready N deps (A \<union> B)"
    using kahn_spec_nth [OF assms(1,2)] assms(3) fin by simp
  moreover have "deps n \<inter> B = {}" using none by (auto simp: B_def)
  ultimately have "n \<in> ready N deps A" by (auto simp: ready_def)
  then have "n \<in> B"
    using kahn_spec_nth [of N i deps "{}"] assms(1,2) fin by (simp add: A_def B_def)
  with n show False by (auto simp: ready_def)
qed

lemma kahn_spec_complete:
  assumes fin: "finite N" and deps: "\<And>n. n \<in> N \<Longrightarrow> deps n \<subseteq> N"
  shows "set (concat (kahn_spec N deps {})) = N \<longleftrightarrow> acyclic {(m, n). n \<in> N \<and> m \<in> deps n}"
    (is "set (concat ?L) = N \<longleftrightarrow> acyclic ?r")
proof
  assume all: "set (concat ?L) = N"
  define rank where "rank n = (LEAST i. i < length ?L \<and> n \<in> set (?L ! i))" for n
  have placed: "rank n < length ?L \<and> n \<in> set (?L ! rank n)" if mem: "n \<in> N" for n
  proof -
    obtain xs where "xs \<in> set ?L" "n \<in> set xs" using mem all by auto
    then have "\<exists>i. i < length ?L \<and> n \<in> set (?L ! i)" by (metis in_set_conv_nth)
    then show ?thesis unfolding rank_def by (rule LeastI_ex)
  qed
  have "?r \<subseteq> measure rank"
  proof safe
    fix m n assume "n \<in> N" "m \<in> deps n"
    then have "m \<in> set (concat (take (rank n) ?L))"
      using kahn_spec_deps_before [OF fin] placed by blast
    then obtain xs where xs: "xs \<in> set (take (rank n) ?L)" "m \<in> set xs" by auto
    from in_set_take_nth [OF xs(1)] xs(2)
    obtain j where "j < rank n" "j < length ?L" "m \<in> set (?L ! j)" by metis
    then have "rank m \<le> j" unfolding rank_def by (auto intro: Least_le)
    with \<open>j < rank n\<close> show "(m, n) \<in> measure rank" by simp
  qed
  then have "wf ?r" by (rule wf_subset [OF wf_measure])
  then show "acyclic ?r" by (rule wf_acyclic)
next
  assume "acyclic ?r"
  moreover have "finite ?r"
  proof (rule finite_subset)
    show "?r \<subseteq> N \<times> N" using deps by auto
  qed (simp add: fin)
  ultimately have wf: "wf ?r" by (simp add: finite_acyclic_wf)
  note sound = kahn_spec_sound [OF fin, of deps "{}"]
  have "N \<subseteq> set (concat ?L)"
  proof (rule ccontr)
    assume "\<not> ?thesis"
    then have "N - set (concat ?L) \<noteq> {}" by (simp only: Diff_eq_empty_iff not_False_eq_True)
    from wf_minimal [OF wf this] obtain n where n: "n \<in> N - set (concat ?L)"
      and min: "\<forall>m. (m, n) \<in> ?r \<longrightarrow> m \<notin> N - set (concat ?L)"
      by (elim bexE)
    then have "deps n \<subseteq> set (concat ?L)" using deps [of n] by (auto simp del: set_concat)
    with n have "n \<in> ready N deps (set (concat ?L))" by (simp add: ready_def del: set_concat)
    with sound show False by simp
  qed
  with sound show "set (concat ?L) = N" by auto
qed

section \<open>From the states to the levels\<close>

text \<open>
  What the runner relies on: from a list of states, a list of levels that is a permutation of the
  states, in which every dependency of a state sits in an earlier level.
\<close>

definition sort_levels :: "range_oracle \<Rightarrow> 'w State list \<Rightarrow> 'w State list list result" where
  "sort_levels ro states = (case NewDAG ro states of Inl e \<Rightarrow> Inl e | Inr d \<Rightarrow> Resolve ro d)"

definition dep_rel :: "'w State list \<Rightarrow> (string \<times> string) set" where
  "dep_rel ss = {(dep, st_Name s) |dep s. s \<in> set ss \<and> dep \<in> set (AllDeps (st_Reqs s))}"

abbreviation dag_spec :: "'w State list \<Rightarrow> string list list" where
  "dag_spec ss \<equiv> kahn_spec (dag_names (dag_of ss)) (dag_deps (dag_of ss)) {}"

lemma dag_of_names: "dag_names (dag_of ss) = st_Name ` set ss"
  unfolding dag_names_def dag_of_keys by simp

lemma dag_of_deps_set:
  "distinct (map st_Name ss) \<Longrightarrow> s \<in> set ss \<Longrightarrow>
     dag_deps (dag_of ss) (st_Name s) = set (AllDeps (st_Reqs s))"
  by (simp add: dag_deps_def dag_of_deps)

lemma Resolve_spec:
  assumes "permutes ro" "NewDAG ro ss = Inr d"
  shows "Resolve ro d =
    (let L = dag_spec ss in
     if length (concat L) \<noteq> length ss
     then Inl (''dag: cycle detected, resolved '' @ nat_dec (length (concat L)) @ '' of '' @
               nat_dec (length ss) @ '' states'')
     else Inr (map (map (node_of (dag_of ss))) L))"
proof -
  have d: "d = dag_of ss" and wf: "wf_dag d"
    using assms NewDAG_wf by (auto simp: NewDAG_Inr)
  have "length (d_nodes d) = length ss" using d by (simp add: dag_of_def)
  with resolve_names_spec [OF wf assms(1)] d show ?thesis
    by (simp add: Resolve_def Let_def)
qed

lemma dag_spec_placed:
  assumes "distinct (map st_Name ss)"
  shows "distinct (concat (dag_spec ss))" "set (concat (dag_spec ss)) \<subseteq> st_Name ` set ss"
    "length (concat (dag_spec ss)) = length ss \<longleftrightarrow> set (concat (dag_spec ss)) = st_Name ` set ss"
proof -
  have fin: "finite (dag_names (dag_of ss))" by (simp add: dag_names_def)
  note snd = kahn_spec_sound [OF fin, of "dag_deps (dag_of ss)" "{}"]
  show dist: "distinct (concat (dag_spec ss))" and sub: "set (concat (dag_spec ss)) \<subseteq> st_Name ` set ss"
    using snd by (simp_all add: dag_of_names)
  have len: "length ss = card (st_Name ` set ss)"
    using assms distinct_card [of "map st_Name ss"] by simp
  show "length (concat (dag_spec ss)) = length ss \<longleftrightarrow> set (concat (dag_spec ss)) = st_Name ` set ss"
    using distinct_card [OF dist] sub len card_subset_eq [OF _ sub] by force
qed

lemma NewDAG_deps_closed:
  assumes "permutes ro" "NewDAG ro ss = Inr d" "n \<in> st_Name ` set ss"
  shows "dag_deps (dag_of ss) n \<subseteq> st_Name ` set ss"
proof -
  obtain s where s: "s \<in> set ss" "n = st_Name s" using assms(3) by auto
  have "distinct (map st_Name ss)" "set (AllDeps (st_Reqs s)) \<subseteq> st_Name ` set ss"
    using assms(1,2) s by (auto simp: NewDAG_Inr)
  with s show ?thesis by (simp add: dag_of_deps_set)
qed

lemma Resolve_Inr_iff_acyclic:
  assumes "permutes ro" "NewDAG ro ss = Inr d"
  shows "(\<exists>levels. Resolve ro d = Inr levels) \<longleftrightarrow> acyclic (dep_rel ss)"
proof -
  have dist: "distinct (map st_Name ss)" using assms by (simp add: NewDAG_Inr)
  have rel: "{(m, n). n \<in> st_Name ` set ss \<and> m \<in> dag_deps (dag_of ss) n} = dep_rel ss"
    using dist by (auto simp: dep_rel_def dag_of_deps_set)
  have "(\<exists>levels. Resolve ro d = Inr levels) \<longleftrightarrow> length (concat (dag_spec ss)) = length ss"
    by (simp add: Resolve_spec [OF assms] Let_def)
  also have "\<dots> \<longleftrightarrow> set (concat (dag_spec ss)) = dag_names (dag_of ss)"
    using dag_spec_placed(3) [OF dist] by (simp add: dag_of_names)
  also have "\<dots> \<longleftrightarrow> acyclic {(m, n). n \<in> dag_names (dag_of ss) \<and> m \<in> dag_deps (dag_of ss) n}"
    using NewDAG_deps_closed [OF assms]
    by (intro kahn_spec_complete) (simp_all add: dag_of_names)
  finally show ?thesis by (simp add: dag_of_names rel)
qed

lemma sort_levels_Inr:
  assumes "permutes ro" "sort_levels ro ss = Inr levels"
  shows "distinct (map st_Name ss)"
    and "levels = map (map (node_of (dag_of ss))) (dag_spec ss)"
    and "set (concat (dag_spec ss)) = st_Name ` set ss"
proof -
  obtain d where d: "NewDAG ro ss = Inr d" and r: "Resolve ro d = Inr levels"
    using assms(2) by (auto simp: sort_levels_def split: sum.splits)
  show dist: "distinct (map st_Name ss)" using assms(1) d by (simp add: NewDAG_Inr)
  from Resolve_spec [OF assms(1) d] r
  show "levels = map (map (node_of (dag_of ss))) (dag_spec ss)"
    and "set (concat (dag_spec ss)) = st_Name ` set ss"
    using dag_spec_placed(3) [OF dist] by (auto simp: Let_def split: if_splits)
qed

lemma node_name: "distinct (map st_Name ss) \<Longrightarrow> n \<in> st_Name ` set ss \<Longrightarrow> st_Name (node_of (dag_of ss) n) = n"
  by (auto simp: dag_of_node)

lemma sort_levels_mset:
  assumes "permutes ro" "sort_levels ro ss = Inr levels"
  shows "mset (concat levels) = mset ss"
proof -
  note lv = sort_levels_Inr [OF assms]
  have "mset (concat (dag_spec ss)) = mset (map st_Name ss)"
    using dag_spec_placed(1) [OF lv(1)] lv(1,3)
      set_eq_iff_mset_eq_distinct [of "concat (dag_spec ss)" "map st_Name ss"]
    by (simp del: mset_map)
  then have "image_mset (node_of (dag_of ss)) (mset (concat (dag_spec ss))) =
      image_mset (node_of (dag_of ss)) (mset (map st_Name ss))"
    by simp
  also have "\<dots> = mset (map (\<lambda>s. node_of (dag_of ss) (st_Name s)) ss)"
    by (simp add: image_mset.compositionality o_def)
  also have "map (\<lambda>s. node_of (dag_of ss) (st_Name s)) ss = ss"
    using lv(1) by (intro map_idI) (simp add: dag_of_node)
  finally show ?thesis
    by (simp add: lv(2) map_concat [symmetric])
qed

lemma sort_levels_level:
  assumes "permutes ro" "sort_levels ro ss = Inr levels" "i < length levels"
  shows "map st_Name (levels ! i) = dag_spec ss ! i"
proof -
  note lv = sort_levels_Inr [OF assms(1,2)]
  have i: "i < length (dag_spec ss)" using assms(3) lv(2) by simp
  then have "set (dag_spec ss ! i) \<subseteq> st_Name ` set ss"
    using lv(3) nth_mem [OF i] by fastforce
  then have "map (\<lambda>n. st_Name (node_of (dag_of ss) n)) (dag_spec ss ! i) = dag_spec ss ! i"
    using lv(1) by (intro map_idI) (auto simp: node_name)
  with i show ?thesis by (simp add: lv(2) o_def)
qed

lemma sort_levels_mem:
  assumes "permutes ro" "sort_levels ro ss = Inr levels" "i < length levels" "s \<in> set (levels ! i)"
  shows "s \<in> set ss" "st_Name s \<in> set (dag_spec ss ! i)"
    "dag_deps (dag_of ss) (st_Name s) = set (AllDeps (st_Reqs s))"
proof -
  show mem: "s \<in> set ss"
    using mset_eq_setD [OF sort_levels_mset [OF assms(1,2)]] nth_mem [OF assms(3)] assms(4)
    by auto
  show "st_Name s \<in> set (dag_spec ss ! i)"
    using sort_levels_level [OF assms(1-3)] assms(4) by (metis image_eqI set_map)
  show "dag_deps (dag_of ss) (st_Name s) = set (AllDeps (st_Reqs s))"
    using sort_levels_Inr(1) [OF assms(1,2)] mem by (rule dag_of_deps_set)
qed

lemma sort_levels_deps_before:
  assumes "permutes ro" "sort_levels ro ss = Inr levels" "i < length levels" "s \<in> set (levels ! i)"
    "dep \<in> set (AllDeps (st_Reqs s))"
  shows "\<exists>j < i. dep \<in> st_Name ` set (levels ! j)"
proof -
  note mem = sort_levels_mem [OF assms(1-4)]
  have i: "i < length (dag_spec ss)"
    using assms(3) sort_levels_Inr(2) [OF assms(1,2)] by simp
  have "finite (dag_names (dag_of ss))" by (simp add: dag_names_def)
  from kahn_spec_deps_before [OF this i mem(2)]
  have "dep \<in> set (concat (take i (dag_spec ss)))"
    unfolding mem(3) using assms(5) by (rule subsetD)
  then obtain xs where xs: "xs \<in> set (take i (dag_spec ss))" "dep \<in> set xs" by auto
  from in_set_take_nth [OF xs(1)] xs(2) obtain j where j: "j < i" "dep \<in> set (dag_spec ss ! j)"
    by metis
  then have "map st_Name (levels ! j) = dag_spec ss ! j"
    using assms(3) by (intro sort_levels_level [OF assms(1,2)]) simp
  with j show ?thesis by (metis set_map)
qed

lemma sort_levels_dep_in_previous:
  assumes "permutes ro" "sort_levels ro ss = Inr levels" "Suc i < length levels"
    "s \<in> set (levels ! Suc i)"
  shows "\<exists>dep \<in> set (AllDeps (st_Reqs s)). dep \<in> st_Name ` set (levels ! i)"
proof -
  note mem = sort_levels_mem [OF assms]
  have i: "Suc i < length (dag_spec ss)"
    using assms(3) sort_levels_Inr(2) [OF assms(1,2)] by simp
  have "\<exists>m \<in> dag_deps (dag_of ss) (st_Name s). m \<in> set (dag_spec ss ! i)"
    using kahn_spec_dep_in_previous [OF _ i mem(2)] by (simp add: dag_names_def)
  then have "\<exists>m \<in> set (AllDeps (st_Reqs s)). m \<in> set (dag_spec ss ! i)"
    by (simp only: mem(3))
  moreover have "map st_Name (levels ! i) = dag_spec ss ! i"
    using assms(3) by (intro sort_levels_level [OF assms(1,2)]) simp
  ultimately show ?thesis by (metis set_map)
qed

lemma sort_levels_succeeds_iff:
  assumes "permutes ro"
  shows "(\<exists>levels. sort_levels ro ss = Inr levels) \<longleftrightarrow>
    distinct (map st_Name ss) \<and>
    (\<forall>s \<in> set ss. set (AllDeps (st_Reqs s)) \<subseteq> st_Name ` set ss) \<and> acyclic (dep_rel ss)"
proof (cases "NewDAG ro ss")
  case (Inl err)
  then show ?thesis using NewDAG_Inr [OF assms, of ss "dag_of ss"] by (simp add: sort_levels_def)
next
  case (Inr d)
  with NewDAG_Inr [OF assms, of ss d] Resolve_Inr_iff_acyclic [OF assms Inr] show ?thesis
    by (simp add: sort_levels_def)
qed

lemma dag_of_permuted:
  assumes "distinct (map st_Name ss)" "mset ss = mset ss'"
  shows "dag_spec ss = dag_spec ss'" "node_of (dag_of ss) = node_of (dag_of ss')"
proof -
  have set: "set ss = set ss'" by (rule mset_eq_setD [OF assms(2)])
  have "mset (map st_Name ss) = mset (map st_Name ss')" using assms(2) by simp
  then have d': "distinct (map st_Name ss')" using assms(1) mset_eq_imp_distinct_iff by blast
  have "map_of (d_nodes (dag_of ss)) = map_of (d_nodes (dag_of ss'))"
    "map_of (d_edges (dag_of ss)) = map_of (d_edges (dag_of ss'))"
    using assms(1) d' set by (simp_all add: dag_of_def map_of_inject_set o_def)
  then have "dag_deps (dag_of ss) = dag_deps (dag_of ss')"
    and "node_of (dag_of ss) = node_of (dag_of ss')"
    by (simp_all add: node_of_def fun_eq_iff dag_deps_def dpt_get_def)
  then show "dag_spec ss = dag_spec ss'" "node_of (dag_of ss) = node_of (dag_of ss')"
    using set by (simp_all add: dag_of_names)
qed

lemma sort_levels_deterministic:
  assumes "permutes ro" "permutes ro'" "mset ss = mset ss'" "sort_levels ro ss = Inr levels"
  shows "sort_levels ro' ss' = Inr levels"
proof -
  have "set ss = set ss'" by (rule mset_eq_setD [OF assms(3)])
  moreover have "mset (map st_Name ss) = mset (map st_Name ss')" using assms(3) by simp
  then have "distinct (map st_Name ss) = distinct (map st_Name ss')"
    by (rule mset_eq_imp_distinct_iff)
  ultimately obtain levels' where l': "sort_levels ro' ss' = Inr levels'"
    using assms(4) sort_levels_succeeds_iff [OF assms(1), of ss]
      sort_levels_succeeds_iff [OF assms(2), of ss']
    by (auto simp: dep_rel_def)
  note lv = sort_levels_Inr [OF assms(1,4)] and lv' = sort_levels_Inr [OF assms(2) l']
  have "levels' = levels"
    using dag_of_permuted [OF lv(1) assms(3)] by (simp add: lv(2) lv'(2))
  with l' show ?thesis by simp
qed

section \<open>The contract of the sort\<close>

text \<open>
  What the runner relies on: the levels are a rearrangement of the states, whose names are
  distinct, and the dependencies of a state are in earlier levels. \<open>ok\<close> says which values of the
  oracle parameter (here: the orders in which Go ranges over a map) are admissible.
\<close>

locale level_sort =
  fixes ok :: "'o \<Rightarrow> bool"
    and levels_of :: "'o \<Rightarrow> 'w State list \<Rightarrow> 'w State list list result"
  assumes names_distinct: "ok orc \<Longrightarrow> levels_of orc ss = Inr levels \<Longrightarrow> distinct (map st_Name ss)"
    and levels_mset: "ok orc \<Longrightarrow> levels_of orc ss = Inr levels \<Longrightarrow> mset (concat levels) = mset ss"
    and deps_before: "ok orc \<Longrightarrow> levels_of orc ss = Inr levels \<Longrightarrow> i < length levels \<Longrightarrow>
      s \<in> set (levels ! i) \<Longrightarrow> dep \<in> set (AllDeps (st_Reqs s)) \<Longrightarrow>
      \<exists>j < i. dep \<in> st_Name ` set (levels ! j)"
begin

lemma levels_distinct:
  assumes "ok orc" "levels_of orc ss = Inr levels"
  shows "distinct (map st_Name (concat levels))"
  using names_distinct [OF assms] levels_mset [OF assms] by (metis mset_eq_imp_distinct_iff mset_map)

lemma levels_set:
  assumes "ok orc" "levels_of orc ss = Inr levels"
  shows "set (concat levels) = set ss"
  using levels_mset [OF assms] by (rule mset_eq_setD)

lemma level_ex:
  assumes "ok orc" "levels_of orc ss = Inr levels" "s \<in> set ss"
  shows "\<exists>i < length levels. s \<in> set (levels ! i)"
proof -
  have "s \<in> set (concat levels)" using levels_set [OF assms(1,2)] assms(3) by simp
  then obtain level where "level \<in> set levels" "s \<in> set level" by auto
  then show ?thesis by (metis in_set_conv_nth)
qed

end

interpretation dag_sort: level_sort permutes sort_levels
  by unfold_locales (rule sort_levels_Inr(1), assumption+, rule sort_levels_mset, assumption+,
      rule sort_levels_deps_before, assumption+)

end
