(* ===== verification/Runner.thy ===== *)
theory Runner
  imports Dag "HOL-Library.Product_Lexorder"
begin

text \<open>
  The state runner of \<^verbatim>\<open>src/pkg/state/runner.go\<close>: \<^verbatim>\<open>Run\<close> walks the levels of the dependency
  graph, starts one goroutine per state of a level that its requisites let through, waits for all
  of them and books their results.

  Concurrency. Within a level the spawning loop (which itself calls \<^verbatim>\<open>Check\<close> on prereq targets)
  and the goroutines run concurrently on one machine \<open>'w\<close>. The model interleaves them at the
  granularity of one module call. A schedule is a list of choices: let the spawning loop make its
  next move, let the goroutine of one state make its next module call, cancel the context, or let
  something outside the runner change the machine. A choice that is not possible is skipped, and
  once the schedule is used up the level is driven to its end in a fixed order (\<open>drain\<close>), so that
  every schedule yields a complete level, and every interleaving of module calls is the run of some
  schedule. The theorems hold for all schedules.

  The record field \<open>e_calls\<close> is a history variable: the module calls made so far, in order.
  Durations and log output are not modelled.
\<close>

section \<open>Modes, results and requisites\<close>

datatype RunMode = ModeApply | ModeCheck | ModeRevert

record RunResult =
  rr_States :: "(string, StateResult) gomap"
  rr_Changed :: nat
  rr_Failed :: nat
  rr_Skipped :: nat
  rr_Canceled :: bool

definition Success :: "RunResult \<Rightarrow> bool" where
  "Success r \<longleftrightarrow> rr_Failed r = 0 \<and> \<not> rr_Canceled r"

definition orderOf :: "'w State \<Rightarrow> int" where
  "orderOf s = (case st_Order s of Some o' \<Rightarrow> o' | None \<Rightarrow> 0)"

definition any_in :: "string set \<Rightarrow> string list \<Rightarrow> bool" where
  "any_in m deps \<longleftrightarrow> (\<exists>dep \<in> set deps. dep \<in> m)"

definition resolveRequisites ::
  "Requisites \<Rightarrow> string set \<Rightarrow> string set \<Rightarrow> bool \<times> string \<times> bool" where
  "resolveRequisites reqs failed changed =
     (if any_in failed (Require reqs) then (True, ''require_failed'', False)
      else if any_in failed (Watch reqs) then (True, ''require_failed'', False)
      else let forceApply = any_in changed (Watch reqs) in
        if OnChanges reqs \<noteq> [] \<and> any_in failed (OnChanges reqs)
        then (True, ''require_failed'', False)
        else if OnChanges reqs \<noteq> [] \<and> \<not> any_in changed (OnChanges reqs)
        then (True, ''onchanges_not_met'', False)
        else if OnFail reqs \<noteq> [] \<and> \<not> any_in failed (OnFail reqs)
        then (True, ''onfail_not_met'', False)
        else (False, '''', forceApply))"

section \<open>Module calls\<close>

datatype call = CCheck | CApply | CRevert

record 'w env =
  e_world :: 'w
  e_canceled :: bool
  e_calls :: "(string \<times> call) list"

definition call_check :: "'w State \<Rightarrow> 'w env \<Rightarrow> CheckResult result \<times> 'w env" where
  "call_check s e =
     (case st_Check s (e_world e) of
        (r, w) \<Rightarrow> (r, e\<lparr>e_world := w, e_calls := e_calls e @ [(st_Name s, CCheck)]\<rparr>))"

definition call_apply :: "'w State \<Rightarrow> 'w env \<Rightarrow> ApplyResult result \<times> 'w env" where
  "call_apply s e =
     (case st_Apply s (e_world e) of
        (r, w) \<Rightarrow> (r, e\<lparr>e_world := w, e_calls := e_calls e @ [(st_Name s, CApply)]\<rparr>))"

definition call_revert :: "'w State \<Rightarrow> 'w env \<Rightarrow> ApplyResult result \<times> 'w env" where
  "call_revert s e =
     (case st_Revert s (e_world e) of
        (r, w) \<Rightarrow> (r, e\<lparr>e_world := w, e_calls := e_calls e @ [(st_Name s, CRevert)]\<rparr>))"

section \<open>One goroutine: execState and execStateOnce\<close>

text \<open>
  \<open>Ready\<close>: the goroutine is about to start an attempt (\<^verbatim>\<open>execStateOnce\<close>). \<open>Checked\<close>: the
  attempt's \<^verbatim>\<open>Check\<close> asked for a change and its \<^verbatim>\<open>Apply\<close> comes next.
\<close>

datatype phase = Ready | Checked

record task =
  t_idx :: nat
  t_force :: bool
  t_try :: int
  t_phase :: phase

datatype attempt = Again | Finished StateResult

definition result_of_check :: "string \<Rightarrow> CheckResult result \<Rightarrow> StateResult" where
  "result_of_check n r =
     (case r of
        Inl e \<Rightarrow> (empty_result n)\<lparr>sr_Error := e\<rparr>
      | Inr cr \<Rightarrow> (empty_result n)\<lparr>sr_Changed := cr_NeedsChange cr, sr_Diff := cr_Diff cr\<rparr>)"

definition result_of_apply :: "string \<Rightarrow> ApplyResult result \<Rightarrow> StateResult" where
  "result_of_apply n r =
     (case r of
        Inl e \<Rightarrow> (empty_result n)\<lparr>sr_Error := e\<rparr>
      | Inr ar \<Rightarrow> (empty_result n)\<lparr>sr_Changed := ar_Changed ar, sr_Diff := ar_Diff ar,
                                   sr_Details := ar_Details ar\<rparr>)"

text \<open>One module call of \<^verbatim>\<open>execStateOnce\<close>: either the attempt is over or its apply remains.\<close>

definition once_step ::
  "RunMode \<Rightarrow> bool \<Rightarrow> 'w State \<Rightarrow> phase \<Rightarrow> 'w env \<Rightarrow> attempt \<times> 'w env" where
  "once_step mode force s ph e =
     (case mode of
        ModeCheck \<Rightarrow>
          (case call_check s e of (r, e') \<Rightarrow> (Finished (result_of_check (st_Name s) r), e'))
      | ModeRevert \<Rightarrow>
          (case call_revert s e of (r, e') \<Rightarrow> (Finished (result_of_apply (st_Name s) r), e'))
      | ModeApply \<Rightarrow>
          if force \<or> ph = Checked
          then (case call_apply s e of (r, e') \<Rightarrow> (Finished (result_of_apply (st_Name s) r), e'))
          else (case call_check s e of
                  (Inl err, e') \<Rightarrow> (Finished ((empty_result (st_Name s))\<lparr>sr_Error := err\<rparr>), e')
                | (Inr cr, e') \<Rightarrow>
                    if \<not> cr_NeedsChange cr then (Finished (empty_result (st_Name s)), e')
                    else (Again, e')))"

definition retry_attempts :: "RunMode \<Rightarrow> 'w State \<Rightarrow> int" where
  "retry_attempts mode s =
     (case st_RetrySpec s of
        Some (attempts, interval) \<Rightarrow> if mode \<noteq> ModeCheck then attempts else 0
      | None \<Rightarrow> 0)"

text \<open>
  The retry loop of \<^verbatim>\<open>execState\<close> after an attempt that ended in \<open>sr\<close>: another attempt while
  tries are left, the attempt failed and the context is not cancelled.
\<close>

definition task_step ::
  "RunMode \<Rightarrow> 'w State \<Rightarrow> task \<Rightarrow> 'w env \<Rightarrow> (task + StateResult) \<times> 'w env" where
  "task_step mode s t e =
     (case once_step mode (t_force t) s (t_phase t) e of
        (Again, e') \<Rightarrow> (Inl (t\<lparr>t_phase := Checked\<rparr>), e')
      | (Finished sr, e') \<Rightarrow>
          if t_try t + 1 \<le> retry_attempts mode s \<and> sr_Error sr \<noteq> '''' \<and> \<not> e_canceled e'
          then (Inl (t\<lparr>t_try := t_try t + 1, t_phase := Ready\<rparr>), e')
          else (Inr sr, e'))"

section \<open>One level\<close>

record 'w level_run =
  lr_env :: "'w env"
  lr_next :: nat
  lr_pend :: "(bool \<times> string list) option"
  lr_go :: "task list"
  lr_results :: "StateResult option list"

definition spawn :: "bool \<Rightarrow> 'w level_run \<Rightarrow> 'w level_run" where
  "spawn force lr =
     lr\<lparr>lr_next := Suc (lr_next lr), lr_pend := None,
        lr_go := lr_go lr @ [\<lparr>t_idx = lr_next lr, t_force = force, t_try = 0, t_phase = Ready\<rparr>]\<rparr>"

definition skip_state :: "string \<Rightarrow> string \<Rightarrow> 'w level_run \<Rightarrow> 'w level_run" where
  "skip_state name reason lr =
     lr\<lparr>lr_next := Suc (lr_next lr), lr_pend := None,
        lr_results := (lr_results lr)[lr_next lr := Some (skipped_result name reason)]\<rparr>"

text \<open>
  One move of the spawning loop: decide the next state of the level, or (\<open>lr_pend\<close>) check the next
  prereq target of the state being decided (\<^verbatim>\<open>evalPrereq\<close>).
\<close>

definition main_step ::
  "RunMode \<Rightarrow> 'w DAG \<Rightarrow> string set \<Rightarrow> string set \<Rightarrow> 'w State list \<Rightarrow> 'w level_run \<Rightarrow> 'w level_run" where
  "main_step mode dag failed changed ordered lr =
     (if lr_next lr \<ge> length ordered then lr
      else let s = ordered ! lr_next lr; name = st_Name s in
        case lr_pend lr of
          None \<Rightarrow>
            if mode = ModeRevert
            then if any_in failed (Require (st_Reqs s)) then skip_state name ''require_failed'' lr
                 else spawn False lr
            else (case resolveRequisites (st_Reqs s) failed changed of
                    (skip, skipReason, forceApply) \<Rightarrow>
                      if skip then skip_state name skipReason lr
                      else (case st_PrereqTargets s of
                              Some (target # targets) \<Rightarrow>
                                lr\<lparr>lr_pend := Some (forceApply, target # targets)\<rparr>
                            | _ \<Rightarrow> spawn forceApply lr))
        | Some (fa, []) \<Rightarrow> skip_state name ''prereq_not_met'' lr
        | Some (fa, target # targets) \<Rightarrow>
            (case Get dag target of
               None \<Rightarrow> lr\<lparr>lr_pend := Some (fa, targets)\<rparr>
             | Some tg \<Rightarrow>
                 (case call_check tg (lr_env lr) of
                    (Inl err, e') \<Rightarrow> lr\<lparr>lr_env := e', lr_pend := Some (fa, targets)\<rparr>
                  | (Inr cr, e') \<Rightarrow>
                      if cr_NeedsChange cr then spawn True (lr\<lparr>lr_env := e'\<rparr>)
                      else lr\<lparr>lr_env := e', lr_pend := Some (fa, targets)\<rparr>)))"

text \<open>One module call of the goroutine at position \<open>k\<close> of the running ones.\<close>

definition go_step :: "RunMode \<Rightarrow> 'w State list \<Rightarrow> nat \<Rightarrow> 'w level_run \<Rightarrow> 'w level_run" where
  "go_step mode ordered k lr =
     (if k \<ge> length (lr_go lr) then lr
      else let t = lr_go lr ! k in
        case task_step mode (ordered ! t_idx t) t (lr_env lr) of
          (Inl t', e') \<Rightarrow> lr\<lparr>lr_env := e', lr_go := (lr_go lr)[k := t']\<rparr>
        | (Inr sr, e') \<Rightarrow>
            lr\<lparr>lr_env := e', lr_go := take k (lr_go lr) @ drop (Suc k) (lr_go lr),
               lr_results := (lr_results lr)[t_idx t := Some sr]\<rparr>)"

datatype 'w choice = Main | Go nat | Cancel | Outside "'w \<Rightarrow> 'w"

fun choice_step ::
  "RunMode \<Rightarrow> 'w DAG \<Rightarrow> string set \<Rightarrow> string set \<Rightarrow> 'w State list \<Rightarrow> 'w choice
    \<Rightarrow> 'w level_run \<Rightarrow> 'w level_run" where
  "choice_step mode dag failed changed ordered Main lr = main_step mode dag failed changed ordered lr"
| "choice_step mode dag failed changed ordered (Go k) lr = go_step mode ordered k lr"
| "choice_step mode dag failed changed ordered Cancel lr =
     lr\<lparr>lr_env := (lr_env lr)\<lparr>e_canceled := True\<rparr>\<rparr>"
| "choice_step mode dag failed changed ordered (Outside f) lr =
     lr\<lparr>lr_env := (lr_env lr)\<lparr>e_world := f (e_world (lr_env lr))\<rparr>\<rparr>"

fun run_schedule ::
  "RunMode \<Rightarrow> 'w DAG \<Rightarrow> string set \<Rightarrow> string set \<Rightarrow> 'w State list \<Rightarrow> 'w choice list
    \<Rightarrow> 'w level_run \<Rightarrow> 'w level_run" where
  "run_schedule mode dag failed changed ordered [] lr = lr"
| "run_schedule mode dag failed changed ordered (c # cs) lr =
     run_schedule mode dag failed changed ordered cs
       (choice_step mode dag failed changed ordered c lr)"

definition level_done :: "'w State list \<Rightarrow> 'w level_run \<Rightarrow> bool" where
  "level_done ordered lr \<longleftrightarrow> length ordered \<le> lr_next lr \<and> lr_go lr = []"

definition task_work :: "RunMode \<Rightarrow> 'w State list \<Rightarrow> task \<Rightarrow> nat" where
  "task_work mode ordered t =
     2 * nat (retry_attempts mode (ordered ! t_idx t) - t_try t) + (if t_phase t = Ready then 2 else 1)"

definition pend_work :: "'w State list \<Rightarrow> 'w level_run \<Rightarrow> nat" where
  "pend_work ordered lr =
     (case lr_pend lr of
        Some (fa, targets) \<Rightarrow> Suc (length targets)
      | None \<Rightarrow> (case st_PrereqTargets (ordered ! lr_next lr) of
                   Some targets \<Rightarrow> length targets + 2 | None \<Rightarrow> 2))"

lemma once_step_Again: "once_step mode force s ph e = (Again, e') \<Longrightarrow> ph = Ready \<and> mode = ModeApply"
  by (cases ph) (auto simp: once_step_def split: RunMode.splits prod.splits sum.splits if_splits)

lemma task_step_work:
  "task_step mode (ordered ! t_idx t) t e = (Inl t', e') \<Longrightarrow>
     task_work mode ordered t' < task_work mode ordered t"
  using once_step_Again [of mode "t_force t" "ordered ! t_idx t" "t_phase t" e]
  by (cases t) (auto simp: task_step_def task_work_def split: prod.splits attempt.splits if_splits)

lemma go_step_work:
  assumes "0 < length (lr_go lr)"
  shows "sum_list (map (task_work mode ordered) (lr_go (go_step mode ordered 0 lr)))
    < sum_list (map (task_work mode ordered) (lr_go lr))"
proof -
  obtain t ts where go: "lr_go lr = t # ts" using assms by (cases "lr_go lr") auto
  have "0 < task_work mode ordered t" by (simp add: task_work_def)
  with go task_step_work [of mode ordered t] show ?thesis
    by (auto simp: go_step_def Let_def split: prod.splits sum.splits)
qed

lemma go_step_main: "lr_next (go_step mode ordered k lr) = lr_next lr"
  "lr_pend (go_step mode ordered k lr) = lr_pend lr"
  by (auto simp: go_step_def Let_def split: prod.splits sum.splits)

lemma main_step_work:
  assumes "lr_next lr < length ordered" and "lr' = main_step mode dag failed changed ordered lr"
  shows "lr_next lr' = Suc (lr_next lr) \<or>
    (lr_next lr' = lr_next lr \<and> pend_work ordered lr' < pend_work ordered lr)"
  unfolding assms(2) using assms(1)
  by (auto simp: main_step_def Let_def skip_state_def spawn_def pend_work_def
      split: prod.splits option.splits list.splits sum.splits if_splits)

function drain ::
  "RunMode \<Rightarrow> 'w DAG \<Rightarrow> string set \<Rightarrow> string set \<Rightarrow> 'w State list \<Rightarrow> 'w level_run \<Rightarrow> 'w level_run" where
  "drain mode dag failed changed ordered lr =
     (if lr_next lr < length ordered
      then drain mode dag failed changed ordered (main_step mode dag failed changed ordered lr)
      else if lr_go lr \<noteq> []
      then drain mode dag failed changed ordered (go_step mode ordered 0 lr)
      else lr)"
  by pat_completeness auto
termination
proof (relation "measures
    [\<lambda>(mode, dag, failed, changed, ordered, lr). length ordered - lr_next lr,
     \<lambda>(mode, dag, failed, changed, ordered, lr). if lr_next lr < length ordered then pend_work ordered lr else 0,
     \<lambda>(mode, dag, failed, changed, ordered, lr). sum_list (map (task_work mode ordered) (lr_go lr))]",
    goal_cases)
  case 1
  show ?case by simp
next
  case (2 mode dag failed changed ordered lr)
  then show ?case
    using main_step_work [OF _ refl, of lr ordered mode dag failed changed] by auto
next
  case (3 mode dag failed changed ordered lr)
  then show ?case
    using go_step_work [of lr mode ordered] by (simp add: go_step_main)
qed

declare drain.simps [simp del]

definition run_level ::
  "RunMode \<Rightarrow> 'w DAG \<Rightarrow> string set \<Rightarrow> string set \<Rightarrow> 'w State list \<Rightarrow> 'w choice list
    \<Rightarrow> 'w env \<Rightarrow> StateResult option list \<times> 'w env" where
  "run_level mode dag failed changed ordered sched e =
     (let lr0 = \<lparr>lr_env = e, lr_next = 0, lr_pend = None, lr_go = [],
                 lr_results = replicate (length ordered) None\<rparr>;
          lr = drain mode dag failed changed ordered
                 (run_schedule mode dag failed changed ordered sched lr0)
      in (lr_results lr, lr_env lr))"

section \<open>Run\<close>

record run_state =
  rs_result :: RunResult
  rs_failed :: "string set"
  rs_changed :: "string set"
  rs_aborted :: bool

fun book_results :: "('w State \<times> StateResult option) list \<Rightarrow> run_state \<Rightarrow> run_state" where
  "book_results [] rs = rs"
| "book_results ((s, None) # rest) rs = book_results rest rs"
| "book_results ((s, Some sr) # rest) rs =
     (let r = rs_result rs;
          r1 = r\<lparr>rr_States := m_set (sr_Name sr) sr (rr_States r),
                 rr_Failed := rr_Failed r + (if sr_Error sr \<noteq> '''' then 1 else 0),
                 rr_Changed := rr_Changed r + (if sr_Changed sr then 1 else 0),
                 rr_Skipped := rr_Skipped r + (if sr_Skipped sr then 1 else 0)\<rparr>
      in book_results rest
           \<lparr>rs_result = r1,
            rs_failed = (if sr_Error sr \<noteq> '''' then insert (sr_Name sr) (rs_failed rs) else rs_failed rs),
            rs_changed = (if sr_Changed sr then insert (sr_Name sr) (rs_changed rs) else rs_changed rs),
            rs_aborted = (rs_aborted rs \<or> (sr_Error sr \<noteq> '''' \<and> st_FailHard s = Some True))\<rparr>)"

fun skip_level :: "bool \<Rightarrow> 'w State list \<Rightarrow> RunResult \<Rightarrow> RunResult" where
  "skip_level aborted [] r = r"
| "skip_level aborted (s # ss) r =
     skip_level aborted ss
       (r\<lparr>rr_States := m_set (st_Name s)
            (skipped_result (st_Name s) (if aborted then ''failhard_abort'' else '''')) (rr_States r),
          rr_Skipped := Suc (rr_Skipped r)\<rparr>)"

definition order_level :: "'w State list \<Rightarrow> 'w State list" where
  "order_level level = sort_key (\<lambda>s. (orderOf s, st_Name s)) level"

fun run_levels ::
  "RunMode \<Rightarrow> 'w DAG \<Rightarrow> (nat \<Rightarrow> 'w choice list) \<Rightarrow> nat \<Rightarrow> 'w State list list \<Rightarrow> run_state \<Rightarrow> 'w env
    \<Rightarrow> run_state \<times> 'w env" where
  "run_levels mode dag sched k [] rs e = (rs, e)"
| "run_levels mode dag sched k (level # levels) rs e =
     (let ordered = order_level level in
      if rs_aborted rs \<or> e_canceled e
      then let r = rs_result rs;
               r1 = (if e_canceled e then r\<lparr>rr_Canceled := True\<rparr> else r)
           in run_levels mode dag sched (Suc k) levels
                (rs\<lparr>rs_result := skip_level (rs_aborted rs) ordered r1\<rparr>) e
      else (case run_level mode dag (rs_failed rs) (rs_changed rs) ordered (sched k) e of
              (results, e') \<Rightarrow>
                run_levels mode dag sched (Suc k) levels (book_results (zip ordered results) rs) e'))"

definition init_run :: run_state where
  "init_run = \<lparr>rs_result = \<lparr>rr_States = [], rr_Changed = 0, rr_Failed = 0, rr_Skipped = 0,
                            rr_Canceled = False\<rparr>,
               rs_failed = {}, rs_changed = {}, rs_aborted = False\<rparr>"

definition Run ::
  "range_oracle \<Rightarrow> (nat \<Rightarrow> 'w choice list) \<Rightarrow> 'w State list \<Rightarrow> RunMode \<Rightarrow> 'w env
    \<Rightarrow> (RunResult \<times> 'w env) result" where
  "Run ro sched states mode e =
     (case NewDAG ro states of
        Inl err \<Rightarrow> Inl (''runner: '' @ err)
      | Inr dag \<Rightarrow>
          (case Resolve ro dag of
             Inl err \<Rightarrow> Inl (''runner: '' @ err)
           | Inr levels \<Rightarrow>
               (let levels' = (if mode = ModeRevert then rev levels else levels)
                in case run_levels mode dag sched 0 levels' init_run e of
                     (rs, e') \<Rightarrow> Inr (rs_result rs, e'))))"

end
