(* ===== verification/RunnerLevel.thy ===== *)
theory RunnerLevel
  imports Runner
begin

text \<open>
  What one level of the runner guarantees under every schedule: an invariant of \<open>level_run\<close> that
  each move keeps, and what it gives once the level is done. The invariant ties every result and
  every goroutine to the decision the requisites take for its state (\<open>gate\<close>), and every
  module call on record to a state that the requisites let through.
\<close>

section \<open>The decision for one state\<close>

definition gate :: "RunMode \<Rightarrow> string set \<Rightarrow> string set \<Rightarrow> 'w State \<Rightarrow> string option" where
  "gate mode failed changed s =
     (if mode = ModeRevert
      then if any_in failed (Require (st_Reqs s)) then Some ''require_failed'' else None
      else (case resolveRequisites (st_Reqs s) failed changed of
              (skip, reason, force) \<Rightarrow> if skip then Some reason else None))"

text \<open>A state with prereq targets, and a state that is applied without a check of its own.\<close>

definition gated :: "'w State \<Rightarrow> bool" where
  "gated s \<longleftrightarrow> (\<exists>t ts. st_PrereqTargets s = Some (t # ts))"

definition forced :: "string set \<Rightarrow> 'w State \<Rightarrow> bool" where
  "forced changed s \<longleftrightarrow> any_in changed (Watch (st_Reqs s)) \<or> gated s"

definition res_ok :: "RunMode \<Rightarrow> string set \<Rightarrow> string set \<Rightarrow> 'w State \<Rightarrow> StateResult \<Rightarrow> bool" where
  "res_ok mode failed changed s sr \<longleftrightarrow> sr_Name sr = st_Name s \<and>
     (case gate mode failed changed s of
        Some reason \<Rightarrow> sr = skipped_result (st_Name s) reason
      | None \<Rightarrow> sr_Skipped sr \<longrightarrow>
          sr = skipped_result (st_Name s) ''prereq_not_met'' \<and> mode \<noteq> ModeRevert \<and> gated s)"

lemma gate_None_requisites:
  assumes "mode \<noteq> ModeRevert" "gate mode failed changed s = None"
  shows "\<forall>dep \<in> set (Require (st_Reqs s) @ Watch (st_Reqs s) @ OnChanges (st_Reqs s)). dep \<notin> failed"
    and "OnChanges (st_Reqs s) \<noteq> [] \<Longrightarrow> \<exists>dep \<in> set (OnChanges (st_Reqs s)). dep \<in> changed"
    and "OnFail (st_Reqs s) \<noteq> [] \<Longrightarrow> \<exists>dep \<in> set (OnFail (st_Reqs s)). dep \<in> failed"
  using assms
  by (auto simp: gate_def resolveRequisites_def any_in_def Let_def split: if_splits)

lemma gate_None_force:
  assumes "mode \<noteq> ModeRevert" "gate mode failed changed s = None"
  shows "resolveRequisites (st_Reqs s) failed changed = (False, '''', any_in changed (Watch (st_Reqs s)))"
  using assms by (auto simp: gate_def resolveRequisites_def Let_def split: if_splits)

lemma skipped_result_simps [simp]:
  "sr_Name (skipped_result n r) = n" "sr_Skipped (skipped_result n r)"
  "sr_SkipReason (skipped_result n r) = r" "sr_Error (skipped_result n r) = ''''"
  "\<not> sr_Changed (skipped_result n r)"
  by (simp_all add: skipped_result_def empty_result_def)

section \<open>Module calls on record\<close>

lemma call_simps:
  "e_calls (snd (call_check s e)) = e_calls e @ [(st_Name s, CCheck)]"
  "e_calls (snd (call_apply s e)) = e_calls e @ [(st_Name s, CApply)]"
  "e_calls (snd (call_revert s e)) = e_calls e @ [(st_Name s, CRevert)]"
  by (simp_all add: call_check_def call_apply_def call_revert_def split: prod.splits)

definition mode_call :: "RunMode \<Rightarrow> call \<Rightarrow> bool" where
  "mode_call mode c \<longleftrightarrow> (c = CApply \<longrightarrow> mode = ModeApply) \<and> (c = CRevert \<longrightarrow> mode = ModeRevert)"

text \<open>An attempt makes one call, or a check and then one apply.\<close>

lemma once_step_calls:
  assumes "once_step mode force s ph e = (r, e')"
  shows "\<exists>c. e_calls e' = e_calls e @ [(st_Name s, c)] \<and> mode_call mode c \<and>
    (r = Again \<longrightarrow> c = CCheck)"
  using assms call_simps [of s e]
  by (auto simp: once_step_def mode_call_def split: RunMode.splits prod.splits sum.splits if_splits)

lemma once_step_result:
  "once_step mode force s ph e = (Finished sr, e') \<Longrightarrow> sr_Name sr = st_Name s \<and> \<not> sr_Skipped sr"
  by (auto simp: once_step_def result_of_check_def result_of_apply_def empty_result_def
      split: RunMode.splits prod.splits sum.splits if_splits)

lemma task_step_calls:
  assumes "task_step mode s t e = (r, e')"
  shows "\<exists>c. e_calls e' = e_calls e @ [(st_Name s, c)] \<and> mode_call mode c \<and>
    (c \<noteq> CCheck \<longrightarrow> (case r of Inl t' \<Rightarrow> t_try t' = t_try t + 1 | Inr sr \<Rightarrow> True))"
proof -
  obtain a e1 where o: "once_step mode (t_force t) s (t_phase t) e = (a, e1)"
    by (cases "once_step mode (t_force t) s (t_phase t) e")
  from once_step_calls [OF o] assms o show ?thesis
    by (auto simp: task_step_def split: attempt.splits if_splits)
qed

lemma task_step_task:
  "task_step mode s t e = (Inl t', e') \<Longrightarrow>
     t_idx t' = t_idx t \<and> t_force t' = t_force t \<and> (t_try t' = t_try t \<or> (t_try t' = t_try t + 1 \<and> t_try t' \<le> retry_attempts mode s))"
  by (auto simp: task_step_def split: prod.splits attempt.splits if_splits)

lemma task_step_result:
  "task_step mode s t e = (Inr sr, e') \<Longrightarrow> sr_Name sr = st_Name s \<and> \<not> sr_Skipped sr"
  by (auto simp: task_step_def dest: once_step_result split: prod.splits attempt.splits if_splits)

section \<open>The level invariant\<close>

text \<open>
  A state of the level is \<^emph>\<open>active\<close> when its
  goroutine runs or has left a result that is not a skip.
\<close>

definition active :: "'w level_run \<Rightarrow> nat \<Rightarrow> bool" where
  "active lr i \<longleftrightarrow> i \<in> t_idx ` set (lr_go lr) \<or> (\<exists>sr. lr_results lr ! i = Some sr \<and> \<not> sr_Skipped sr)"

definition call_count :: "(string \<times> call) list \<Rightarrow> string \<Rightarrow> nat" where
  "call_count cs n = length (filter (\<lambda>(m, c). m = n \<and> c \<noteq> CCheck) cs)"

lemma call_count_append [simp]: "call_count (xs @ ys) n = call_count xs n + call_count ys n"
  by (simp add: call_count_def)

lemma call_count_Nil [simp]: "call_count [] n = 0"
  by (simp add: call_count_def)

definition level_inv ::
  "RunMode \<Rightarrow> string set \<Rightarrow> string set \<Rightarrow> 'w State list \<Rightarrow> 'w level_run \<Rightarrow> bool"
where
  "level_inv mode failed changed ordered lr \<longleftrightarrow>
     length (lr_results lr) = length ordered \<and> lr_next lr \<le> length ordered \<and>
     distinct (map t_idx (lr_go lr)) \<and>
     (\<forall>i < length ordered.
        (lr_results lr ! i = None \<longrightarrow> i < lr_next lr \<longrightarrow> i \<in> t_idx ` set (lr_go lr)) \<and>
        (\<forall>sr. lr_results lr ! i = Some sr \<longrightarrow>
           i < lr_next lr \<and> res_ok mode failed changed (ordered ! i) sr)) \<and>
     (\<forall>t \<in> set (lr_go lr). t_idx t < lr_next lr \<and> lr_results lr ! t_idx t = None \<and>
        gate mode failed changed (ordered ! t_idx t) = None \<and> 0 \<le> t_try t \<and>
        t_try t \<le> max 0 (retry_attempts mode (ordered ! t_idx t)) \<and>
        (mode \<noteq> ModeRevert \<longrightarrow> t_force t = forced changed (ordered ! t_idx t))) \<and>
     (lr_pend lr \<noteq> None \<longrightarrow> lr_next lr < length ordered \<and> mode \<noteq> ModeRevert \<and> gated (ordered ! lr_next lr) \<and>
        gate mode failed changed (ordered ! lr_next lr) = None)"

text \<open>What is known of the calls \<open>new\<close> made since the level started.\<close>

definition calls_ok :: "RunMode \<Rightarrow> 'w State list \<Rightarrow> (string \<times> call) list \<Rightarrow> 'w level_run \<Rightarrow> bool" where
  "calls_ok mode ordered new lr \<longleftrightarrow>
     (\<forall>n c. (n, c) \<in> set new \<longrightarrow> mode_call mode c \<and>
        (c \<noteq> CCheck \<longrightarrow> (\<exists>i < lr_next lr. n = st_Name (ordered ! i) \<and> active lr i))) \<and>
     (\<forall>t \<in> set (lr_go lr). int (call_count new (st_Name (ordered ! t_idx t))) \<le> t_try t) \<and>
     (\<forall>i < length ordered. call_count new (st_Name (ordered ! i))
         \<le> Suc (nat (max 0 (retry_attempts mode (ordered ! i)))))"

definition calls_inv ::
  "RunMode \<Rightarrow> 'w State list \<Rightarrow> (string \<times> call) list \<Rightarrow> 'w level_run \<Rightarrow> bool" where
  "calls_inv mode ordered base lr \<longleftrightarrow>
     (\<exists>new. e_calls (lr_env lr) = base @ new \<and> calls_ok mode ordered new lr)"

lemma spawn_fields [simp]:
  "lr_env (spawn f lr) = lr_env lr" "lr_next (spawn f lr) = Suc (lr_next lr)"
  "lr_pend (spawn f lr) = None" "lr_results (spawn f lr) = lr_results lr"
  "lr_go (spawn f lr) =
     lr_go lr @ [\<lparr>t_idx = lr_next lr, t_force = f, t_try = 0, t_phase = Ready\<rparr>]"
  by (simp_all add: spawn_def)

lemma skip_state_fields [simp]:
  "lr_env (skip_state n r lr) = lr_env lr" "lr_next (skip_state n r lr) = Suc (lr_next lr)"
  "lr_pend (skip_state n r lr) = None" "lr_go (skip_state n r lr) = lr_go lr"
  "lr_results (skip_state n r lr) = (lr_results lr)[lr_next lr := Some (skipped_result n r)]"
  by (simp_all add: skip_state_def)

lemma level_inv_env [simp]:
  "level_inv mode failed changed ordered (lr\<lparr>lr_env := e\<rparr>) \<longleftrightarrow>
     level_inv mode failed changed ordered lr"
  by (simp add: level_inv_def)

lemma level_inv_next_unset:
  "level_inv mode failed changed ordered lr \<Longrightarrow> lr_next lr < length ordered \<Longrightarrow>
     lr_results lr ! lr_next lr = None"
  by (auto simp: level_inv_def split: option.splits)

lemma level_inv_spawn:
  assumes inv: "level_inv mode failed changed ordered lr" and lt: "lr_next lr < length ordered"
    and gate: "gate mode failed changed (ordered ! lr_next lr) = None"
    and force: "mode \<noteq> ModeRevert \<Longrightarrow> f = forced changed (ordered ! lr_next lr)"
  shows "level_inv mode failed changed ordered (spawn f lr)"
proof -
  have unset: "lr_results lr ! lr_next lr = None"
    using inv lt by (rule level_inv_next_unset)
  have "lr_next lr \<notin> t_idx ` set (lr_go lr)"
    using inv by (auto simp: level_inv_def)
  with inv lt gate unset force show ?thesis
    by (auto simp: level_inv_def less_Suc_eq split: option.splits)
qed

lemma level_inv_skip:
  assumes inv: "level_inv mode failed changed ordered lr" and lt: "lr_next lr < length ordered"
    and ok: "res_ok mode failed changed (ordered ! lr_next lr) (skipped_result n r)"
  shows "level_inv mode failed changed ordered (skip_state n r lr)"
proof -
  have "t_idx t \<noteq> lr_next lr" if "t \<in> set (lr_go lr)" for t
    using inv that by (auto simp: level_inv_def)
  with inv lt ok show ?thesis
    by (auto simp: level_inv_def less_Suc_eq nth_list_update split: option.splits)
qed

lemma level_inv_pend:
  assumes "level_inv mode failed changed ordered lr" "lr_next lr < length ordered"
    "mode \<noteq> ModeRevert" "gated (ordered ! lr_next lr)" "gate mode failed changed (ordered ! lr_next lr) = None"
  shows "level_inv mode failed changed ordered (lr\<lparr>lr_pend := p\<rparr>)"
  using assms by (simp add: level_inv_def)

lemma main_step_inv:
  assumes inv: "level_inv mode failed changed ordered lr"
  shows "level_inv mode failed changed ordered (main_step mode dag failed changed ordered lr)"
proof (cases "lr_next lr < length ordered")
  case False
  with inv show ?thesis by (simp add: main_step_def)
next
  case lt: True
  let ?s = "ordered ! lr_next lr"
  show ?thesis
  proof (cases "lr_pend lr")
    case None
    show ?thesis
    proof (cases "gate mode failed changed ?s")
      case (Some reason)
      then have "main_step mode dag failed changed ordered lr = skip_state (st_Name ?s) reason lr"
        using lt None
        by (auto simp: main_step_def gate_def Let_def split: if_splits prod.splits)
      moreover have "res_ok mode failed changed ?s (skipped_result (st_Name ?s) reason)"
        using Some by (simp add: res_ok_def)
      ultimately show ?thesis using level_inv_skip [OF inv lt] by simp
    next
      case opn: None
      have "(\<exists>f. main_step mode dag failed changed ordered lr = spawn f lr \<and> (mode \<noteq> ModeRevert \<longrightarrow> f = forced changed ?s)) \<or>
          (mode \<noteq> ModeRevert \<and> gated ?s \<and> (\<exists>p. main_step mode dag failed changed ordered lr = lr\<lparr>lr_pend := p\<rparr>))"
        using lt None opn gate_None_force [OF _ opn]
        by (auto simp: main_step_def gate_def gated_def forced_def Let_def
            split: if_splits prod.splits option.splits list.splits)
      then show ?thesis
        using level_inv_spawn [OF inv lt opn] level_inv_pend [OF inv lt _ _ opn] by auto
    qed
  next
    case (Some p)
    have opn: "gate mode failed changed ?s = None" and m: "mode \<noteq> ModeRevert" and g: "gated ?s"
      using inv Some by (auto simp: level_inv_def)
    have skip: "res_ok mode failed changed ?s (skipped_result (st_Name ?s) ''prereq_not_met'')"
      using opn m g by (simp add: res_ok_def)
    have upd: "level_inv mode failed changed ordered (lr\<lparr>lr_env := e, lr_pend := q\<rparr>)" for e q
      using level_inv_pend [OF _ _ m, of failed changed ordered "lr\<lparr>lr_env := e\<rparr>"] inv lt opn g
      by simp
    have upd': "level_inv mode failed changed ordered (lr\<lparr>lr_pend := q\<rparr>)" for q
      using inv lt m g opn by (rule level_inv_pend)
    have sp: "level_inv mode failed changed ordered (spawn True (lr\<lparr>lr_env := e\<rparr>))" for e
      using level_inv_spawn [of mode failed changed ordered "lr\<lparr>lr_env := e\<rparr>" True] inv lt opn g
      by (simp add: forced_def)
    show ?thesis
      using lt Some level_inv_skip [OF inv lt skip] upd upd' sp
      by (auto simp: main_step_def Let_def split: prod.splits list.splits option.splits sum.splits)
  qed
qed

lemma image_remove_nth:
  assumes "k < length xs" "distinct (map f xs)"
  shows "f ` set (take k xs @ drop (Suc k) xs) = f ` set xs - {f (xs ! k)}"
    and "distinct (map f (take k xs @ drop (Suc k) xs))"
proof -
  have xs: "xs = take k xs @ xs ! k # drop (Suc k) xs"
    using assms(1) by (rule id_take_nth_drop)
  then have m: "map f xs = map f (take k xs) @ f (xs ! k) # map f (drop (Suc k) xs)"
    by (metis list.simps(9) map_append)
  have d: "distinct (map f (take k xs) @ f (xs ! k) # map f (drop (Suc k) xs))"
    using assms(2) m by simp
  then show "distinct (map f (take k xs @ drop (Suc k) xs))" by simp
  have "f ` set xs = set (map f (take k xs) @ f (xs ! k) # map f (drop (Suc k) xs))"
    using m by (metis set_map)
  with d show "f ` set (take k xs @ drop (Suc k) xs) = f ` set xs - {f (xs ! k)}"
    by auto
qed

lemma set_remove_nth: "set (take k xs @ drop (Suc k) xs) \<subseteq> set xs"
  using set_take_subset [of k xs] set_drop_subset [of "Suc k" xs] by auto

lemma go_step_inv:
  assumes inv: "level_inv mode failed changed ordered lr"
  shows "level_inv mode failed changed ordered (go_step mode ordered k lr)"
proof (cases "k < length (lr_go lr)")
  case False
  with inv show ?thesis by (simp add: go_step_def)
next
  case lt: True
  define t where "t = lr_go lr ! k"
  have tin: "t \<in> set (lr_go lr)" using lt by (simp add: t_def)
  obtain r e where st: "task_step mode (ordered ! t_idx t) t (lr_env lr) = (r, e)"
    by (cases "task_step mode (ordered ! t_idx t) t (lr_env lr)")
  have tprops: "t_idx t < lr_next lr" "gate mode failed changed (ordered ! t_idx t) = None"
    "0 \<le> t_try t" "t_try t \<le> max 0 (retry_attempts mode (ordered ! t_idx t))"
    "lr_results lr ! t_idx t = None" "lr_next lr \<le> length ordered"
    "mode \<noteq> ModeRevert \<longrightarrow> t_force t = forced changed (ordered ! t_idx t)"
    using inv tin by (auto simp: level_inv_def)
  show ?thesis
  proof (cases r)
    case (Inl t')
    with st have idx: "t_idx t' = t_idx t" "t_force t' = t_force t"
      and tries: "t_try t' = t_try t \<or> (t_try t' = t_try t + 1 \<and> t_try t' \<le> retry_attempts mode (ordered ! t_idx t))"
      using task_step_task by blast+
    have step: "go_step mode ordered k lr = lr\<lparr>lr_env := e, lr_go := (lr_go lr)[k := t']\<rparr>"
      using lt st Inl by (simp add: go_step_def t_def Let_def)
    have idxs: "map t_idx ((lr_go lr)[k := t']) = map t_idx (lr_go lr)"
      using lt idx by (simp add: map_update t_def) (metis list_update_id nth_map)
    then have img: "t_idx ` set ((lr_go lr)[k := t']) = t_idx ` set (lr_go lr)"
      by (metis set_map)
    have "\<forall>u \<in> set ((lr_go lr)[k := t']). u = t' \<or> u \<in> set (lr_go lr)"
      using set_update_subset_insert [of "lr_go lr" k t'] by auto
    with inv idxs img tprops idx tries show ?thesis
      unfolding step level_inv_def by auto
  next
    case (Inr sr)
    let ?rest = "take k (lr_go lr) @ drop (Suc k) (lr_go lr)"
    have step: "go_step mode ordered k lr =
        lr\<lparr>lr_env := e, lr_go := ?rest, lr_results := (lr_results lr)[t_idx t := Some sr]\<rparr>"
      using lt st Inr by (simp add: go_step_def t_def Let_def)
    have dist: "distinct (map t_idx (lr_go lr))" using inv by (simp add: level_inv_def)
    note rem = image_remove_nth [OF lt dist, folded t_def]
    have sub: "set ?rest \<subseteq> set (lr_go lr)" by (rule set_remove_nth)
    have ne: "t_idx u \<noteq> t_idx t" if "u \<in> set ?rest" for u
      using rem(1) that by blast
    have ok: "res_ok mode failed changed (ordered ! t_idx t) sr"
      using task_step_result [of mode "ordered ! t_idx t" t "lr_env lr" sr e] st Inr tprops(2)
      by (simp add: res_ok_def)
    have len: "length (lr_results lr) = length ordered"
      using inv by (simp add: level_inv_def)
    have res: "(((lr_results lr)[t_idx t := Some sr]) ! i = None \<longrightarrow> i < lr_next lr \<longrightarrow> i \<in> t_idx ` set ?rest) \<and>
        (\<forall>sr'. ((lr_results lr)[t_idx t := Some sr]) ! i = Some sr' \<longrightarrow>
           i < lr_next lr \<and> res_ok mode failed changed (ordered ! i) sr')" if "i < length ordered" for i
    proof (cases "i = t_idx t")
      case True
      with ok tprops len that show ?thesis by simp
    next
      case False
      with inv that rem(1) show ?thesis by (simp add: level_inv_def)
    qed
    have go: "((lr_results lr)[t_idx t := Some sr]) ! t_idx u = lr_results lr ! t_idx u" if "u \<in> set ?rest" for u
      using ne [OF that] by simp
    show ?thesis
      unfolding step level_inv_def
      using inv rem(2) sub res go by (simp add: level_inv_def subset_iff del: set_append)
  qed
qed

lemma choice_step_inv:
  "level_inv mode failed changed ordered lr \<Longrightarrow>
     level_inv mode failed changed ordered (choice_step mode dag failed changed ordered c lr)"
  by (cases c) (simp_all add: main_step_inv go_step_inv)

lemma run_schedule_inv:
  "level_inv mode failed changed ordered lr \<Longrightarrow>
     level_inv mode failed changed ordered (run_schedule mode dag failed changed ordered cs lr)"
  by (induction cs arbitrary: lr) (simp_all add: choice_step_inv)

lemma drain_inv:
  "level_inv mode failed changed ordered lr \<Longrightarrow>
     level_inv mode failed changed ordered (drain mode dag failed changed ordered lr)"
proof (induction mode dag failed changed ordered lr rule: drain.induct)
  case (1 mode dag failed changed ordered lr)
  then show ?case
    by (subst drain.simps) (simp add: main_step_inv go_step_inv)
qed

lemma drain_done: "level_done ordered (drain mode dag failed changed ordered lr)"
proof (induction mode dag failed changed ordered lr rule: drain.induct)
  case (1 mode dag failed changed ordered lr)
  then show ?case
    by (subst drain.simps) (simp add: level_done_def)
qed

section \<open>The calls of a level\<close>

lemma call_count_single [simp]:
  "call_count [(m, c)] n = (if m = n \<and> c \<noteq> CCheck then 1 else 0)"
  by (simp add: call_count_def)

lemma call_count_0:
  "(\<And>c. (n, c) \<in> set new \<Longrightarrow> c = CCheck) \<Longrightarrow> call_count new n = 0"
  by (auto simp: call_count_def filter_empty_conv)

lemma calls_ok_check:
  "calls_ok mode ordered new lr \<Longrightarrow> calls_ok mode ordered (new @ [(m, CCheck)]) lr"
  by (simp add: calls_ok_def mode_call_def)

lemma calls_ok_cong:
  "lr_next lr' = lr_next lr \<Longrightarrow> lr_go lr' = lr_go lr \<Longrightarrow> lr_results lr' = lr_results lr \<Longrightarrow>
     calls_ok mode ordered new lr' = calls_ok mode ordered new lr"
  by (simp add: calls_ok_def active_def)

lemma calls_ok_skip:
  assumes "calls_ok mode ordered new lr"
  shows "calls_ok mode ordered new (skip_state n r lr)"
proof -
  have "active (skip_state n r lr) i = active lr i" if "i < lr_next lr" for i
    using that by (simp add: active_def)
  then have "\<exists>i < Suc (lr_next lr). m = st_Name (ordered ! i) \<and> active (skip_state n r lr) i"
    if "\<exists>i < lr_next lr. m = st_Name (ordered ! i) \<and> active lr i" for m
    using that less_SucI by blast
  with assms show ?thesis by (simp add: calls_ok_def)
qed

lemma calls_ok_fresh:
  assumes "calls_ok mode ordered new lr" "distinct (map st_Name ordered)" "lr_next lr < length ordered"
  shows "call_count new (st_Name (ordered ! lr_next lr)) = 0"
proof (rule call_count_0)
  fix c assume "(st_Name (ordered ! lr_next lr), c) \<in> set new"
  with assms(1) have "c \<noteq> CCheck \<longrightarrow>
      (\<exists>i < lr_next lr. st_Name (ordered ! lr_next lr) = st_Name (ordered ! i))"
    unfolding calls_ok_def by blast
  moreover have "st_Name (ordered ! lr_next lr) \<noteq> st_Name (ordered ! i)" if "i < lr_next lr" for i
    using distinct_map_nth_eq [OF assms(2,3), of i] assms(3) that by simp
  ultimately show "c = CCheck" by blast
qed

lemma calls_ok_spawn:
  assumes "calls_ok mode ordered new lr" "distinct (map st_Name ordered)" "lr_next lr < length ordered"
  shows "calls_ok mode ordered new (spawn f lr)"
proof -
  have "active (spawn f lr) i" if "active lr i" for i
    using that by (auto simp: active_def)
  then have "\<exists>i < Suc (lr_next lr). m = st_Name (ordered ! i) \<and> active (spawn f lr) i"
    if "\<exists>i < lr_next lr. m = st_Name (ordered ! i) \<and> active lr i" for m
    using that less_SucI by blast
  with assms(1) calls_ok_fresh [OF assms] show ?thesis by (simp add: calls_ok_def)
qed

lemma main_step_calls:
  assumes inv: "calls_inv mode ordered base lr" and dist: "distinct (map st_Name ordered)"
  shows "calls_inv mode ordered base (main_step mode dag failed changed ordered lr)"
proof (cases "lr_next lr < length ordered")
  case False
  with inv show ?thesis by (simp add: main_step_def)
next
  case lt: True
  let ?s = "ordered ! lr_next lr"
  obtain new where calls: "e_calls (lr_env lr) = base @ new" and ok: "calls_ok mode ordered new lr"
    using inv by (auto simp: calls_inv_def)
  have skip: "calls_inv mode ordered base (skip_state n r lr)" for n r
    using calls calls_ok_skip [OF ok] by (auto simp: calls_inv_def)
  have sp: "calls_inv mode ordered base (spawn f lr)" for f
    using calls calls_ok_spawn [OF ok dist lt] by (auto simp: calls_inv_def)
  have pend: "calls_inv mode ordered base (lr\<lparr>lr_pend := p\<rparr>)" for p
    using calls ok calls_ok_cong [of "lr\<lparr>lr_pend := p\<rparr>" lr] by (auto simp: calls_inv_def)
  have chk: "calls_ok mode ordered (new @ [(st_Name tg, CCheck)]) (lr\<lparr>lr_env := e\<rparr>)" for tg e
    using calls_ok_check [OF ok] calls_ok_cong [of "lr\<lparr>lr_env := e\<rparr>" lr] by simp
  have pend': "calls_inv mode ordered base (lr\<lparr>lr_env := e, lr_pend := p\<rparr>)"
    and sp': "calls_inv mode ordered base (spawn True (lr\<lparr>lr_env := e\<rparr>))"
    if "call_check tg (lr_env lr) = (r, e)" for tg r e p
  proof -
    have e: "e_calls e = base @ new @ [(st_Name tg, CCheck)]"
      using call_simps(1) [of tg "lr_env lr"] that calls by simp
    show "calls_inv mode ordered base (lr\<lparr>lr_env := e, lr_pend := p\<rparr>)"
      using e chk [of tg e] calls_ok_cong [of "lr\<lparr>lr_env := e, lr_pend := p\<rparr>" "lr\<lparr>lr_env := e\<rparr>"]
      by (auto simp: calls_inv_def)
    show "calls_inv mode ordered base (spawn True (lr\<lparr>lr_env := e\<rparr>))"
      using e calls_ok_spawn [OF chk [of tg e] dist] lt by (auto simp: calls_inv_def)
  qed
  define P where "P = calls_inv mode ordered base"
  note skip [folded P_def] sp [folded P_def] pend [folded P_def]
  with lt pend' [folded P_def] sp' [folded P_def] show ?thesis
    by (auto simp: main_step_def Let_def P_def [symmetric]
        split: prod.splits list.splits option.splits sum.splits)
qed

lemma go_step_calls:
  assumes linv: "level_inv mode failed changed ordered lr"
    and inv: "calls_inv mode ordered base lr" and dist: "distinct (map st_Name ordered)"
  shows "calls_inv mode ordered base (go_step mode ordered k lr)"
proof (cases "k < length (lr_go lr)")
  case False
  with inv show ?thesis by (simp add: go_step_def)
next
  case lt: True
  define t where "t = lr_go lr ! k"
  define nm where "nm = st_Name (ordered ! t_idx t)"
  let ?lr = "go_step mode ordered k lr"
  have tin: "t \<in> set (lr_go lr)" using lt by (simp add: t_def)
  obtain r e where st: "task_step mode (ordered ! t_idx t) t (lr_env lr) = (r, e)"
    by (cases "task_step mode (ordered ! t_idx t) t (lr_env lr)")
  from task_step_calls [OF st] obtain c where c: "e_calls e = e_calls (lr_env lr) @ [(nm, c)]"
    "mode_call mode c"
    "c \<noteq> CCheck \<longrightarrow> (case r of Inl t' \<Rightarrow> t_try t' = t_try t + 1 | Inr sr \<Rightarrow> True)"
    by (auto simp: nm_def)
  obtain new where calls: "e_calls (lr_env lr) = base @ new" and ok: "calls_ok mode ordered new lr"
    using inv by (auto simp: calls_inv_def)
  have t: "t_idx t < lr_next lr" "lr_next lr \<le> length ordered" "lr_results lr ! t_idx t = None"
    "t_try t \<le> max 0 (retry_attempts mode (ordered ! t_idx t))" "0 \<le> t_try t"
    "length (lr_results lr) = length ordered" "distinct (map t_idx (lr_go lr))"
    using linv tin by (auto simp: level_inv_def)
  have bound: "\<forall>u \<in> set (lr_go lr). t_idx u < lr_next lr" using linv by (simp add: level_inv_def)
  have other: "st_Name (ordered ! i) \<noteq> nm" if "i < length ordered" "i \<noteq> t_idx t" for i
    using dist that t(1,2) unfolding nm_def
    by (simp add: distinct_map_nth_eq)
  have cnt: "int (call_count new nm) \<le> t_try t"
    using ok tin by (auto simp: calls_ok_def nm_def)
  have env: "e_calls (lr_env ?lr) = base @ new @ [(nm, c)]"
    using lt st c(1) calls by (auto simp: go_step_def t_def Let_def split: sum.splits)
  have nxt: "lr_next ?lr = lr_next lr" by (rule go_step_main)
  have act: "active ?lr i" if "active lr i \<or> i = t_idx t" for i
  proof (cases r)
    case (Inl t')
    then have "lr_results ?lr = lr_results lr" "lr_go ?lr = (lr_go lr)[k := t']"
      using lt st by (simp_all add: go_step_def t_def Let_def)
    moreover have "map t_idx ((lr_go lr)[k := t']) = map t_idx (lr_go lr)"
      using lt task_step_task [of mode "ordered ! t_idx t" t "lr_env lr" t' e] st Inl
      by (simp add: map_update t_def) (metis list_update_id nth_map)
    ultimately show ?thesis
      using that tin unfolding active_def by (metis image_eqI set_map)
  next
    case (Inr sr)
    then have "lr_results ?lr = (lr_results lr)[t_idx t := Some sr]"
      "lr_go ?lr = take k (lr_go lr) @ drop (Suc k) (lr_go lr)"
      using lt st by (simp_all add: go_step_def t_def Let_def)
    moreover have "\<not> sr_Skipped sr" using task_step_result st Inr by blast
    ultimately show ?thesis
      using that image_remove_nth(1) [OF lt t(7)] t
      unfolding active_def t_def [symmetric] by (cases "i = t_idx t") auto
  qed
  have go: "int (call_count (new @ [(nm, c)]) (st_Name (ordered ! t_idx u))) \<le> t_try u"
    if "u \<in> set (lr_go ?lr)" for u
  proof (cases "u \<in> set (lr_go lr) \<and> t_idx u \<noteq> t_idx t")
    case True
    then have "t_idx u < length ordered" using bound t(2) by (meson less_le_trans)
    then have "st_Name (ordered ! t_idx u) \<noteq> nm" using other True by blast
    with ok True show ?thesis by (auto simp: calls_ok_def)
  next
    case False
    show ?thesis
    proof (cases r)
      case (Inl t')
      then have "u \<in> set ((lr_go lr)[k := t'])"
        using lt st that by (simp add: go_step_def t_def Let_def)
      moreover have "distinct (map t_idx (lr_go lr))" by (rule t(7))
      moreover have "t_idx t' = t_idx t" "t_try t \<le> t_try t'"
        using task_step_task st Inl by force+
      ultimately have "t_idx u = t_idx t" "t_try u = t_try t'"
        using False lt t(7) unfolding t_def
        by (auto simp: in_set_conv_nth nth_list_update distinct_conv_nth split: if_splits)
      with cnt c(3) Inl \<open>t_try t \<le> t_try t'\<close> show ?thesis
        by (auto simp: nm_def)
    next
      case (Inr sr)
      then have "u \<in> set (take k (lr_go lr) @ drop (Suc k) (lr_go lr))"
        using lt st that by (simp add: go_step_def t_def Let_def)
      with image_remove_nth(1) [OF lt t(7)] set_remove_nth [of k "lr_go lr"] False
      show ?thesis unfolding t_def by blast
    qed
  qed
  have "calls_ok mode ordered (new @ [(nm, c)]) ?lr"
    unfolding calls_ok_def nxt
  proof (intro conjI allI impI ballI)
    fix n c' assume "(n, c') \<in> set (new @ [(nm, c)])"
    then have "(n, c') \<in> set new \<or> (n = nm \<and> c' = c)" by auto
    then show "mode_call mode c'" using ok c(2) by (auto simp: calls_ok_def)
    assume "c' \<noteq> CCheck"
    then show "\<exists>i < lr_next lr. n = st_Name (ordered ! i) \<and> active ?lr i"
      using \<open>(n, c') \<in> set new \<or> (n = nm \<and> c' = c)\<close> ok act t(1)
      unfolding calls_ok_def nm_def by blast
  next
    fix u assume "u \<in> set (lr_go ?lr)"
    then show "int (call_count (new @ [(nm, c)]) (st_Name (ordered ! t_idx u))) \<le> t_try u"
      by (rule go)
  next
    fix i assume i: "i < length ordered"
    show "call_count (new @ [(nm, c)]) (st_Name (ordered ! i))
        \<le> Suc (nat (max 0 (retry_attempts mode (ordered ! i))))"
    proof (cases "i = t_idx t")
      case True
      with cnt t(4) show ?thesis by (auto simp: nm_def)
    next
      case False
      with other [OF i False] ok i show ?thesis by (auto simp: calls_ok_def)
    qed
  qed
  with env show ?thesis by (auto simp: calls_inv_def)
qed

section \<open>Forced applies\<close>

text \<open>
  In apply mode, a goroutine that has left a result has applied its state, if a watched state changed or a prereq
  target needs a change, and has checked it otherwise.
\<close>

definition worked :: "string set \<Rightarrow> 'w State list \<Rightarrow> (string \<times> call) list \<Rightarrow> 'w level_run \<Rightarrow> bool" where
  "worked changed ordered new lr \<longleftrightarrow>
     (\<forall>t \<in> set (lr_go lr). t_phase t = Checked \<longrightarrow> (st_Name (ordered ! t_idx t), CCheck) \<in> set new) \<and>
     (\<forall>i < length ordered. \<forall>sr. lr_results lr ! i = Some sr \<longrightarrow> \<not> sr_Skipped sr \<longrightarrow>
        (st_Name (ordered ! i), if forced changed (ordered ! i) then CApply else CCheck) \<in> set new)"

definition work_inv :: "string set \<Rightarrow> 'w State list \<Rightarrow> (string \<times> call) list \<Rightarrow> 'w level_run \<Rightarrow> bool" where
  "work_inv changed ordered base lr \<longleftrightarrow>
     (\<exists>new. e_calls (lr_env lr) = base @ new \<and> worked changed ordered new lr)"

lemma worked_mono:
  "worked changed ordered new lr \<Longrightarrow> lr_go lr' = lr_go lr \<Longrightarrow> lr_results lr' = lr_results lr \<Longrightarrow>
     worked changed ordered (new @ cs) lr'"
  by (auto simp: worked_def)

lemma work_inv_calls:
  assumes "work_inv changed ordered base lr" "lr_go lr' = lr_go lr" "lr_results lr' = lr_results lr"
    and "e_calls (lr_env lr') = e_calls (lr_env lr) @ cs"
  shows "work_inv changed ordered base lr'"
  using assms worked_mono [OF _ assms(2,3), of changed ordered _ cs] unfolding work_inv_def by fastforce

lemma work_inv_spawn: "work_inv changed ordered base lr \<Longrightarrow> work_inv changed ordered base (spawn f lr)"
  by (auto simp: work_inv_def worked_def)

lemma work_inv_skip:
  assumes "work_inv changed ordered base lr" "length (lr_results lr) = length ordered"
  shows "work_inv changed ordered base (skip_state n r lr)"
proof -
  have "lr_results lr ! i = Some sr" if "lr_results (skip_state n r lr) ! i = Some sr" "\<not> sr_Skipped sr" "i < length ordered" for i sr
    using that assms(2) by (cases "i = lr_next lr") auto
  then show ?thesis using assms(1) unfolding work_inv_def worked_def skip_state_fields(1,4) by blast
qed

lemma main_step_work_inv:
  assumes inv: "work_inv changed ordered base lr" and len: "length (lr_results lr) = length ordered"
  shows "work_inv changed ordered base (main_step mode dag failed changed ordered lr)"
proof (cases "lr_next lr < length ordered")
  case False
  with inv show ?thesis by (simp add: main_step_def)
next
  case lt: True
  have pend: "work_inv changed ordered base (lr\<lparr>lr_pend := p\<rparr>)" for p
    by (rule work_inv_calls [OF inv, of _ "[]"]) simp_all
  have chk: "work_inv changed ordered base (lr\<lparr>lr_env := e, lr_pend := p\<rparr>)"
    "work_inv changed ordered base (spawn True (lr\<lparr>lr_env := e\<rparr>))"
    if "call_check tg (lr_env lr) = (r, e)" for tg r e p
  proof -
    have e: "e_calls e = e_calls (lr_env lr) @ [(st_Name tg, CCheck)]"
      using call_simps(1) [of tg "lr_env lr"] that by simp
    show "work_inv changed ordered base (lr\<lparr>lr_env := e, lr_pend := p\<rparr>)"
      by (rule work_inv_calls [OF inv _ _]) (simp_all add: e)
    show "work_inv changed ordered base (spawn True (lr\<lparr>lr_env := e\<rparr>))"
      by (intro work_inv_spawn work_inv_calls [OF inv _ _]) (simp_all add: e)
  qed
  define P where "P = work_inv changed ordered base"
  note work_inv_skip [OF inv len, folded P_def] work_inv_spawn [OF inv, folded P_def] pend [folded P_def]
  with lt chk [folded P_def] show ?thesis
    by (auto simp: main_step_def Let_def P_def [symmetric]
        split: prod.splits list.splits option.splits sum.splits)
qed

lemma task_step_worked:
  assumes "task_step ModeApply s t e = (r, e')"
  shows "\<exists>c. e_calls e' = e_calls e @ [(st_Name s, c)] \<and>
    (case r of
       Inl t' \<Rightarrow> t_phase t' = Checked \<longrightarrow> c = CCheck
     | Inr sr \<Rightarrow> c = (if t_force t \<or> t_phase t = Checked then CApply else CCheck))"
proof -
  obtain a e1 where o: "once_step ModeApply (t_force t) s (t_phase t) e = (a, e1)"
    by (cases "once_step ModeApply (t_force t) s (t_phase t) e")
  have "\<exists>c. e_calls e1 = e_calls e @ [(st_Name s, c)] \<and> (a = Again \<longrightarrow> c = CCheck) \<and>
      c = (if t_force t \<or> t_phase t = Checked then CApply else CCheck)"
    using o call_simps [of s e] by (auto simp: once_step_def split: prod.splits sum.splits if_splits)
  then show ?thesis using assms o by (auto simp: task_step_def split: attempt.splits if_splits)
qed

lemma go_step_work_inv:
  assumes linv: "level_inv ModeApply failed changed ordered lr" and inv: "work_inv changed ordered base lr"
  shows "work_inv changed ordered base (go_step ModeApply ordered k lr)"
proof (cases "k < length (lr_go lr)")
  case False
  with inv show ?thesis by (simp add: go_step_def)
next
  case lt: True
  define t where "t = lr_go lr ! k"
  have tin: "t \<in> set (lr_go lr)" using lt by (simp add: t_def)
  then have force: "t_force t = forced changed (ordered ! t_idx t)" and len: "length (lr_results lr) = length ordered"
    using linv by (auto simp: level_inv_def)
  obtain r e where st: "task_step ModeApply (ordered ! t_idx t) t (lr_env lr) = (r, e)"
    by (cases "task_step ModeApply (ordered ! t_idx t) t (lr_env lr)")
  from task_step_worked [OF st] obtain c where
    c: "e_calls e = e_calls (lr_env lr) @ [(st_Name (ordered ! t_idx t), c)]"
    "case r of Inl t' \<Rightarrow> t_phase t' = Checked \<longrightarrow> c = CCheck
     | Inr sr \<Rightarrow> c = (if t_force t \<or> t_phase t = Checked then CApply else CCheck)" by blast
  obtain new where new: "e_calls (lr_env lr) = base @ new" "worked changed ordered new lr"
    using inv by (auto simp: work_inv_def)
  have "worked changed ordered (new @ [(st_Name (ordered ! t_idx t), c)]) (go_step ModeApply ordered k lr)"
  proof (cases r)
    case (Inl t')
    have idx: "t_idx t' = t_idx t" using task_step_task st Inl by blast
    have "\<forall>u \<in> set ((lr_go lr)[k := t']). u = t' \<or> u \<in> set (lr_go lr)"
      using set_update_subset_insert [of "lr_go lr" k t'] by auto
    then show ?thesis using lt st Inl new(2) c(2) idx
      by (auto simp: go_step_def t_def Let_def worked_def)
  next
    case (Inr sr)
    have step: "go_step ModeApply ordered k lr = lr\<lparr>lr_env := e, lr_go := take k (lr_go lr) @ drop (Suc k) (lr_go lr),
        lr_results := (lr_results lr)[t_idx t := Some sr]\<rparr>"
      using lt st Inr by (simp add: go_step_def t_def Let_def)
    have sub: "u \<in> set (lr_go lr)" if "u \<in> set (take k (lr_go lr) @ drop (Suc k) (lr_go lr))" for u
      using set_remove_nth [of k "lr_go lr"] that by blast
    have mine: "(st_Name (ordered ! t_idx t), if forced changed (ordered ! t_idx t) then CApply else CCheck)
        \<in> set (new @ [(st_Name (ordered ! t_idx t), c)])"
      using c(2) Inr force new(2) tin by (auto simp: worked_def)
    have old: "worked changed ordered (new @ [(st_Name (ordered ! t_idx t), c)]) lr"
      using new(2) by (rule worked_mono) simp_all
    show ?thesis unfolding step worked_def
    proof (intro conjI ballI allI impI)
      fix u assume "u \<in> set (lr_go (lr\<lparr>lr_env := e, lr_go := take k (lr_go lr) @ drop (Suc k) (lr_go lr),
        lr_results := (lr_results lr)[t_idx t := Some sr]\<rparr>))" "t_phase u = Checked"
      then show "(st_Name (ordered ! t_idx u), CCheck) \<in> set (new @ [(st_Name (ordered ! t_idx t), c)])"
        using sub [of u] old unfolding worked_def by simp
    next
      fix i sr' assume i: "i < length ordered" "lr_results (lr\<lparr>lr_env := e, lr_go := take k (lr_go lr) @ drop (Suc k) (lr_go lr),
        lr_results := (lr_results lr)[t_idx t := Some sr]\<rparr>) ! i = Some sr'" "\<not> sr_Skipped sr'"
      show "(st_Name (ordered ! i), if forced changed (ordered ! i) then CApply else CCheck)
          \<in> set (new @ [(st_Name (ordered ! t_idx t), c)])"
        using i old mine unfolding worked_def by (cases "i = t_idx t") simp_all
    qed
  qed
  moreover have "e_calls (lr_env (go_step ModeApply ordered k lr)) = base @ new @ [(st_Name (ordered ! t_idx t), c)]"
    using lt st c(1) new(1) by (auto simp: go_step_def t_def Let_def split: sum.splits)
  ultimately show ?thesis unfolding work_inv_def by blast
qed

lemma choice_step_work_inv:
  assumes "level_inv ModeApply failed changed ordered lr" "work_inv changed ordered base lr"
  shows "work_inv changed ordered base (choice_step ModeApply dag failed changed ordered c lr)"
proof (cases c)
  case Main
  have "length (lr_results lr) = length ordered" using assms(1) by (simp add: level_inv_def)
  then show ?thesis using Main main_step_work_inv [OF assms(2)] by simp
next
  case (Go k)
  then show ?thesis using go_step_work_inv [OF assms] by simp
qed (use assms(2) in \<open>simp_all add: work_inv_def worked_def\<close>)

lemma run_schedule_work_inv:
  "level_inv ModeApply failed changed ordered lr \<Longrightarrow> work_inv changed ordered base lr \<Longrightarrow>
     work_inv changed ordered base (run_schedule ModeApply dag failed changed ordered cs lr)"
  by (induction cs arbitrary: lr) (simp_all add: choice_step_work_inv choice_step_inv)

lemma drain_work_inv:
  assumes "level_inv mode failed changed ordered lr" "work_inv changed ordered base lr" "mode = ModeApply"
  shows "work_inv changed ordered base (drain mode dag failed changed ordered lr)"
  using assms
proof (induction mode dag failed changed ordered lr rule: drain.induct)
  case (1 mode dag failed changed ordered lr)
  have len: "length (lr_results lr) = length ordered" using 1(3) by (simp add: level_inv_def)
  show ?case
    using 1 main_step_work_inv [OF 1(4) len, of mode dag failed] go_step_work_inv [of failed changed ordered lr base 0]
      main_step_inv [OF 1(3), of dag] go_step_inv [OF 1(3), of 0]
    by (subst drain.simps) simp
qed

section \<open>A whole level\<close>

lemma choice_step_calls:
  assumes "level_inv mode failed changed ordered lr" "calls_inv mode ordered base lr"
    "distinct (map st_Name ordered)"
  shows "calls_inv mode ordered base (choice_step mode dag failed changed ordered c lr)"
proof (cases c)
  case Cancel
  with assms(2) show ?thesis by (simp add: calls_inv_def calls_ok_def active_def)
next
  case (Outside f)
  with assms(2) show ?thesis by (simp add: calls_inv_def calls_ok_def active_def)
qed (use assms main_step_calls go_step_calls in auto)

lemma run_schedule_calls:
  assumes "level_inv mode failed changed ordered lr" "calls_inv mode ordered base lr"
    "distinct (map st_Name ordered)"
  shows "calls_inv mode ordered base (run_schedule mode dag failed changed ordered cs lr)"
  using assms(1,2)
proof (induction cs arbitrary: lr)
  case (Cons c cs)
  then show ?case
    using choice_step_calls [OF Cons.prems(1,2) assms(3)] choice_step_inv [OF Cons.prems(1)] by simp
qed simp

lemma drain_calls:
  assumes "level_inv mode failed changed ordered lr" "calls_inv mode ordered base lr"
    "distinct (map st_Name ordered)"
  shows "calls_inv mode ordered base (drain mode dag failed changed ordered lr)"
  using assms
proof (induction mode dag failed changed ordered lr rule: drain.induct)
  case (1 mode dag failed changed ordered lr)
  show ?case
    using 1 main_step_calls [OF 1(4,5), of dag failed changed] go_step_calls [OF 1(3-5), of 0]
      main_step_inv [OF 1(3), of dag] go_step_inv [OF 1(3), of 0]
    by (subst drain.simps) simp
qed

definition level_start :: "'w State list \<Rightarrow> 'w env \<Rightarrow> 'w level_run" where
  "level_start ordered e =
     \<lparr>lr_env = e, lr_next = 0, lr_pend = None, lr_go = [], lr_results = replicate (length ordered) None\<rparr>"

lemma level_start_inv:
  "level_inv mode failed changed ordered (level_start ordered e)"
  "calls_inv mode ordered (e_calls e) (level_start ordered e)"
  "work_inv changed ordered (e_calls e) (level_start ordered e)"
  by (simp_all add: level_start_def level_inv_def calls_inv_def calls_ok_def work_inv_def worked_def)

text \<open>The calls of a completed level.\<close>

definition level_calls ::
  "RunMode \<Rightarrow> 'w State list \<Rightarrow> StateResult option list \<Rightarrow> (string \<times> call) list \<Rightarrow> bool" where
  "level_calls mode ordered results new \<longleftrightarrow>
     (\<forall>n c. (n, c) \<in> set new \<longrightarrow> mode_call mode c \<and>
        (c \<noteq> CCheck \<longrightarrow> (\<exists>i < length ordered. n = st_Name (ordered ! i) \<and>
           (\<exists>sr. results ! i = Some sr \<and> \<not> sr_Skipped sr)))) \<and>
     (\<forall>i < length ordered. call_count new (st_Name (ordered ! i))
         \<le> Suc (nat (max 0 (retry_attempts mode (ordered ! i)))))"

definition level_work :: "string set \<Rightarrow> 'w State list \<Rightarrow> StateResult option list \<Rightarrow> (string \<times> call) list \<Rightarrow> bool" where
  "level_work changed ordered results new \<longleftrightarrow>
     (\<forall>i < length ordered. \<forall>sr. results ! i = Some sr \<longrightarrow> \<not> sr_Skipped sr \<longrightarrow>
        (st_Name (ordered ! i), if forced changed (ordered ! i) then CApply else CCheck) \<in> set new)"

lemma run_level_ok:
  assumes run: "run_level mode dag failed changed ordered sched e = (results, e')"
  shows "length results = length ordered"
    and "\<forall>i < length ordered. \<exists>sr. results ! i = Some sr \<and> res_ok mode failed changed (ordered ! i) sr"
    and "distinct (map st_Name ordered) \<Longrightarrow>
      \<exists>new. e_calls e' = e_calls e @ new \<and> level_calls mode ordered results new"
    and "mode = ModeApply \<Longrightarrow> \<exists>new. e_calls e' = e_calls e @ new \<and> level_work changed ordered results new"
proof -
  define lr1 where "lr1 = run_schedule mode dag failed changed ordered sched (level_start ordered e)"
  define lr where "lr = drain mode dag failed changed ordered lr1"
  have res: "results = lr_results lr" "e' = lr_env lr"
    using run by (simp_all add: run_level_def Let_def lr_def lr1_def level_start_def)
  have inv1: "level_inv mode failed changed ordered lr1"
    unfolding lr1_def by (rule run_schedule_inv [OF level_start_inv(1)])
  then have inv: "level_inv mode failed changed ordered lr"
    unfolding lr_def by (rule drain_inv)
  have fin: "lr_next lr = length ordered" "lr_go lr = []"
    using drain_done [of ordered mode dag failed changed lr1] inv
    by (simp_all add: lr_def level_done_def level_inv_def)
  show "length results = length ordered" using inv by (simp add: res level_inv_def)
  show "\<forall>i < length ordered. \<exists>sr. results ! i = Some sr \<and> res_ok mode failed changed (ordered ! i) sr"
    using inv fin by (fastforce simp: res level_inv_def)
  have "work_inv changed ordered (e_calls e) lr" if "mode = ModeApply"
    unfolding lr_def by (rule drain_work_inv [OF inv1 _ that])
      (use run_schedule_work_inv [OF level_start_inv(1,3)] that in \<open>simp add: lr1_def\<close>)
  then show "\<exists>new. e_calls e' = e_calls e @ new \<and> level_work changed ordered results new" if "mode = ModeApply"
    using that unfolding res work_inv_def worked_def level_work_def by blast
  assume dist: "distinct (map st_Name ordered)"
  have "calls_inv mode ordered (e_calls e) lr"
    unfolding lr_def by (rule drain_calls [OF inv1 _ dist])
      (simp add: lr1_def run_schedule_calls [OF level_start_inv(1,2) dist])
  then show "\<exists>new. e_calls e' = e_calls e @ new \<and> level_calls mode ordered results new"
    using fin by (auto simp: res calls_inv_def calls_ok_def level_calls_def active_def)
qed

section \<open>The decision spelled out\<close>

lemma gate_forward:
  assumes "mode \<noteq> ModeRevert"
  shows "gate mode failed changed s =
    (let reqs = st_Reqs s in
      if \<exists>dep \<in> set (Require reqs @ Watch reqs @ OnChanges reqs). dep \<in> failed
      then Some ''require_failed''
      else if OnChanges reqs \<noteq> [] \<and> \<not> any_in changed (OnChanges reqs)
      then Some ''onchanges_not_met''
      else if OnFail reqs \<noteq> [] \<and> \<not> any_in failed (OnFail reqs)
      then Some ''onfail_not_met'' else None)"
proof -
  let ?r = "st_Reqs s"
  have "(\<exists>dep \<in> set (Require ?r @ Watch ?r @ OnChanges ?r). dep \<in> failed) \<longleftrightarrow>
      any_in failed (Require ?r) \<or> any_in failed (Watch ?r) \<or>
      (OnChanges ?r \<noteq> [] \<and> any_in failed (OnChanges ?r))"
    by (auto simp: any_in_def)
  then show ?thesis using assms by (simp add: gate_def resolveRequisites_def Let_def)
qed

lemma res_ok_gate:
  assumes "mode \<noteq> ModeRevert"
  shows "res_ok mode failed changed s sr \<longleftrightarrow> sr_Name sr = st_Name s \<and>
    (let reqs = st_Reqs s in
      if \<exists>dep \<in> set (Require reqs @ Watch reqs @ OnChanges reqs). dep \<in> failed
      then sr = skipped_result (st_Name s) ''require_failed''
      else if OnChanges reqs \<noteq> [] \<and> \<not> any_in changed (OnChanges reqs)
      then sr = skipped_result (st_Name s) ''onchanges_not_met''
      else if OnFail reqs \<noteq> [] \<and> \<not> any_in failed (OnFail reqs)
      then sr = skipped_result (st_Name s) ''onfail_not_met''
      else sr_Skipped sr \<longrightarrow> sr = skipped_result (st_Name s) ''prereq_not_met'' \<and> gated s)"
proof -
  define A B C where "A = (\<exists>dep \<in> set (Require (st_Reqs s) @ Watch (st_Reqs s) @ OnChanges (st_Reqs s)).
        dep \<in> failed)"
    and "B = (OnChanges (st_Reqs s) \<noteq> [] \<and> \<not> any_in changed (OnChanges (st_Reqs s)))"
    and "C = (OnFail (st_Reqs s) \<noteq> [] \<and> \<not> any_in failed (OnFail (st_Reqs s)))"
  show ?thesis
    unfolding res_ok_def gate_forward [OF assms] Let_def A_def [symmetric] B_def [symmetric]
      C_def [symmetric]
    using assms by (cases A; cases B; cases C) simp_all
qed

end
