(* ===== verification/RunnerRun.thy ===== *)
theory RunnerRun
  imports RunnerLevel
begin

text \<open>
  What a whole \<^verbatim>\<open>Run\<close> guarantees, for every schedule of every level: how the results are booked,
  how each result is explained by the results of the states it depends on, and which module calls
  are made, in which order and how often.
\<close>

section \<open>Booked results\<close>

definition result_of :: "RunResult \<Rightarrow> string \<Rightarrow> StateResult option" where
  "result_of r n = map_of (rr_States r) n"

definition has_failed :: "RunResult \<Rightarrow> string \<Rightarrow> bool" where
  "has_failed r n \<longleftrightarrow> (case result_of r n of Some sr \<Rightarrow> sr_Error sr \<noteq> '''' | None \<Rightarrow> False)"

definition has_changed :: "RunResult \<Rightarrow> string \<Rightarrow> bool" where
  "has_changed r n \<longleftrightarrow> (case result_of r n of Some sr \<Rightarrow> sr_Changed sr | None \<Rightarrow> False)"

definition count_results :: "(StateResult \<Rightarrow> bool) \<Rightarrow> RunResult \<Rightarrow> nat" where
  "count_results P r = length (filter (\<lambda>(n, sr). P sr) (rr_States r))"

definition counters_ok :: "RunResult \<Rightarrow> bool" where
  "counters_ok r \<longleftrightarrow>
     rr_Failed r = count_results (\<lambda>sr. sr_Error sr \<noteq> '''') r \<and>
     rr_Changed r = count_results sr_Changed r \<and>
     rr_Skipped r = count_results sr_Skipped r"

text \<open>The bookkeeping after the states \<open>ss\<close> have been dealt with.\<close>

definition booked :: "'w State list \<Rightarrow> run_state \<Rightarrow> bool" where
  "booked ss rs \<longleftrightarrow>
     distinct (m_keys (rr_States (rs_result rs))) \<and>
     set (m_keys (rr_States (rs_result rs))) = st_Name ` set ss \<and>
     counters_ok (rs_result rs) \<and>
     rs_failed rs = {n. has_failed (rs_result rs) n} \<and>
     rs_changed rs = {n. has_changed (rs_result rs) n} \<and>
     (rs_aborted rs \<longleftrightarrow> (\<exists>s \<in> set ss. st_FailHard s = Some True \<and> has_failed (rs_result rs) (st_Name s)))"

lemma result_of_fresh:
  "n \<notin> set (m_keys (rr_States r)) \<Longrightarrow> rr_States r' = m_set n sr (rr_States r) \<Longrightarrow>
     result_of r' m = (if m = n then Some sr else result_of r m)"
  by (simp add: result_of_def map_of_m_set)

lemma booked_None:
  "booked ss rs \<Longrightarrow> n \<notin> st_Name ` set ss \<Longrightarrow> result_of (rs_result rs) n = None"
  by (simp add: booked_def result_of_def map_of_None_keys)

lemma booked_Some:
  "booked ss rs \<Longrightarrow> n \<in> st_Name ` set ss \<Longrightarrow> \<exists>sr. result_of (rs_result rs) n = Some sr"
  by (metis booked_def result_of_def map_of_None_keys not_Some_eq)

lemma booked_set: "booked ss rs \<Longrightarrow> set ss = set ss' \<Longrightarrow> booked ss' rs"
  by (simp add: booked_def)

lemma booked_init: "booked [] init_run"
  by (simp add: booked_def init_run_def counters_ok_def count_results_def has_failed_def
      has_changed_def result_of_def)

lemma booked_step:
  assumes b: "booked ss rs" and new: "st_Name s \<notin> st_Name ` set ss" and nm: "sr_Name sr = st_Name s"
    and rs': "rs' = book_results [(s, Some sr)] rs"
  shows "booked (ss @ [s]) rs'"
    and "result_of (rs_result rs') n =
      (if n = st_Name s then Some sr else result_of (rs_result rs) n)"
proof -
  let ?r = "rs_result rs" and ?r' = "rs_result rs'"
  have fresh: "st_Name s \<notin> set (m_keys (rr_States ?r))" using b new by (simp add: booked_def)
  have fields: "rr_States ?r' = m_set (st_Name s) sr (rr_States ?r)"
    "rr_Failed ?r' = rr_Failed ?r + (if sr_Error sr \<noteq> '''' then 1 else 0)"
    "rr_Changed ?r' = rr_Changed ?r + (if sr_Changed sr then 1 else 0)"
    "rr_Skipped ?r' = rr_Skipped ?r + (if sr_Skipped sr then 1 else 0)"
    "rs_failed rs' = (if sr_Error sr \<noteq> '''' then insert (st_Name s) (rs_failed rs) else rs_failed rs)"
    "rs_changed rs' = (if sr_Changed sr then insert (st_Name s) (rs_changed rs) else rs_changed rs)"
    "rs_aborted rs' \<longleftrightarrow> rs_aborted rs \<or> (sr_Error sr \<noteq> '''' \<and> st_FailHard s = Some True)"
    by (simp_all add: rs' nm Let_def)
  have st: "rr_States ?r' = rr_States ?r @ [(st_Name s, sr)]"
    by (simp add: fields m_set_fresh map_of_None_keys [THEN iffD2, OF fresh])
  have res: "result_of ?r' n = (if n = st_Name s then Some sr else result_of ?r n)" for n
    by (rule result_of_fresh [OF fresh fields(1)])
  then show "result_of ?r' n = (if n = st_Name s then Some sr else result_of ?r n)" .
  have f: "has_failed ?r' n = (if n = st_Name s then sr_Error sr \<noteq> '''' else has_failed ?r n)"
    and c: "has_changed ?r' n = (if n = st_Name s then sr_Changed sr else has_changed ?r n)" for n
    by (simp_all add: has_failed_def has_changed_def res)
  have none: "\<not> has_failed ?r (st_Name s)" "\<not> has_changed ?r (st_Name s)"
    using booked_None [OF b new] by (simp_all add: has_failed_def has_changed_def)
  have cnt: "counters_ok ?r'"
    using b by (simp add: booked_def counters_ok_def count_results_def st fields(2-4))
  have fl: "rs_failed rs' = {n. has_failed ?r' n}"
    using b none by (auto simp: booked_def f fields(5))
  have ch: "rs_changed rs' = {n. has_changed ?r' n}"
    using b none by (auto simp: booked_def c fields(6))
  have "has_failed ?r' (st_Name u) = has_failed ?r (st_Name u)" if "u \<in> set ss" for u
    using that new by (metis f image_eqI)
  then have ab: "rs_aborted rs' \<longleftrightarrow>
      (\<exists>u \<in> set (ss @ [s]). st_FailHard u = Some True \<and> has_failed ?r' (st_Name u))"
    using b by (auto simp: booked_def f fields(7))
  show "booked (ss @ [s]) rs'"
    using b fresh cnt fl ch ab by (simp add: booked_def st)
qed

lemma book_results_Cons:
  "book_results ((s, Some sr) # rest) rs = book_results rest (book_results [(s, Some sr)] rs)"
  by (simp add: Let_def)

lemma book_results_booked:
  assumes "booked ss rs" "length results = length ordered"
    "\<forall>i < length ordered. \<exists>sr. results ! i = Some sr \<and> sr_Name sr = st_Name (ordered ! i)"
    "distinct (map st_Name ordered)" "st_Name ` set ordered \<inter> st_Name ` set ss = {}"
    "rs' = book_results (zip ordered results) rs"
  shows "booked (ss @ ordered) rs' \<and>
    (\<forall>n \<in> - st_Name ` set ordered. result_of (rs_result rs') n = result_of (rs_result rs) n) \<and>
    (\<forall>i < length ordered. result_of (rs_result rs') (st_Name (ordered ! i)) = results ! i)"
  using assms
proof (induction ordered arbitrary: results ss rs)
  case (Cons s ordered)
  obtain sr rest where r: "results = Some sr # rest" and nm: "sr_Name sr = st_Name s"
    using Cons.prems(2,3) by (cases results) force+
  define rs1 where "rs1 = book_results [(s, Some sr)] rs"
  have fresh: "st_Name s \<notin> st_Name ` set ss" using Cons.prems(5) by auto
  note one = booked_step [OF Cons.prems(1) fresh nm rs1_def]
  have rs': "rs' = book_results (zip ordered rest) rs1"
    unfolding Cons.prems(6) r rs1_def zip_Cons_Cons by (rule book_results_Cons)
  have rest: "\<forall>i < length ordered. \<exists>sr. rest ! i = Some sr \<and> sr_Name sr = st_Name (ordered ! i)"
    using Cons.prems(3) by (auto simp: r)
  have ih: "booked ((ss @ [s]) @ ordered) rs'"
    "\<forall>n \<in> - st_Name ` set ordered. result_of (rs_result rs') n = result_of (rs_result rs1) n"
    "\<forall>i < length ordered. result_of (rs_result rs') (st_Name (ordered ! i)) = rest ! i"
    using Cons.IH [OF one(1) _ rest _ _ rs'] Cons.prems(2,4,5) by (auto simp: r)
  show ?case
  proof (intro conjI ballI allI impI)
    show "booked (ss @ s # ordered) rs'" using ih(1) by simp
  next
    fix n assume "n \<in> - st_Name ` set (s # ordered)"
    then show "result_of (rs_result rs') n = result_of (rs_result rs) n"
      using ih(2) one(2) by auto
  next
    fix i assume "i < length (s # ordered)"
    then show "result_of (rs_result rs') (st_Name ((s # ordered) ! i)) = results ! i"
      using ih(2,3) one(2) Cons.prems(4) by (cases i) (auto simp: r)
  qed
qed simp

text \<open>Skipping a level books a result without error for each of its states.\<close>

lemma skip_level_books:
  "rs\<lparr>rs_result := skip_level ab ordered (rs_result rs)\<rparr> =
     book_results (zip ordered
       (map (\<lambda>s. Some (skipped_result (st_Name s) (if ab then ''failhard_abort'' else ''''))) ordered)) rs"
proof (induction ordered arbitrary: rs)
  case (Cons s ordered)
  let ?sr = "skipped_result (st_Name s) (if ab then ''failhard_abort'' else '''')"
  have "book_results [(s, Some ?sr)] rs =
      rs\<lparr>rs_result := skip_level ab [s] (rs_result rs)\<rparr>"
    by (simp add: Let_def)
  moreover have "skip_level ab (s # ordered) (rs_result rs) =
      skip_level ab ordered (skip_level ab [s] (rs_result rs))"
    by simp
  ultimately show ?case
    unfolding list.map zip_Cons_Cons book_results_Cons [of s ?sr "zip _ _"]
    using Cons.IH [of "rs\<lparr>rs_result := skip_level ab [s] (rs_result rs)\<rparr>"]
    by (simp del: book_results.simps(3) skip_level.simps(2))
qed simp

section \<open>The levels of a run\<close>

definition fail_hard :: "'w State list \<Rightarrow> RunResult \<Rightarrow> bool" where
  "fail_hard ss r \<longleftrightarrow> (\<exists>u \<in> set ss. st_FailHard u = Some True \<and> has_failed r (st_Name u))"

text \<open>
  The result \<open>sr\<close> of the state \<open>s\<close> is explained by the results \<open>r\<close> of the states \<open>before\<close> that ran
  in earlier levels.
\<close>

definition explained ::
  "RunMode \<Rightarrow> 'w State list \<Rightarrow> RunResult \<Rightarrow> 'w State \<Rightarrow> StateResult \<Rightarrow> bool" where
  "explained mode before r s sr \<longleftrightarrow>
     (if fail_hard before r then sr = skipped_result (st_Name s) ''failhard_abort''
      else rr_Canceled r \<and> sr = skipped_result (st_Name s) '''' \<or>
        res_ok mode {n \<in> st_Name ` set before. has_failed r n}
          {n \<in> st_Name ` set before. has_changed r n} s sr)"

definition level_new ::
  "RunMode \<Rightarrow> 'w State list \<Rightarrow> RunResult \<Rightarrow> (string \<times> call) list \<Rightarrow> bool" where
  "level_new mode level r new \<longleftrightarrow>
     (\<forall>n c. (n, c) \<in> set new \<longrightarrow> mode_call mode c \<and>
        (c \<noteq> CCheck \<longrightarrow> n \<in> st_Name ` set level \<and>
           (\<exists>sr. result_of r n = Some sr \<and> \<not> sr_Skipped sr))) \<and>
     (\<forall>s \<in> set level. call_count new (st_Name s) \<le> Suc (nat (max 0 (retry_attempts mode s))))"

text \<open>In apply mode, what the calls \<open>new\<close> of a level that follows the states \<open>before\<close> did to each of its states.\<close>

definition level_did ::
  "RunMode \<Rightarrow> 'w State list \<Rightarrow> 'w State list \<Rightarrow> RunResult \<Rightarrow> (string \<times> call) list \<Rightarrow> bool" where
  "level_did mode before level r new \<longleftrightarrow>
     (mode = ModeApply \<longrightarrow> (\<forall>s \<in> set level. \<forall>sr. result_of r (st_Name s) = Some sr \<longrightarrow> \<not> sr_Skipped sr \<longrightarrow>
        (st_Name s, if forced {n \<in> st_Name ` set before. has_changed r n} s then CApply else CCheck) \<in> set new))"

definition same_results :: "string set \<Rightarrow> RunResult \<Rightarrow> RunResult \<Rightarrow> bool" where
  "same_results N r r' \<longleftrightarrow>
     (\<forall>n \<in> N. result_of r' n = result_of r n) \<and> (rr_Canceled r \<longrightarrow> rr_Canceled r')"

lemma same_results_flags:
  "same_results N r r' \<Longrightarrow> n \<in> N \<Longrightarrow> has_failed r' n = has_failed r n"
  "same_results N r r' \<Longrightarrow> n \<in> N \<Longrightarrow> has_changed r' n = has_changed r n"
  by (simp_all add: same_results_def has_failed_def has_changed_def)

lemma same_results_trans:
  "same_results N r r' \<Longrightarrow> same_results M r' r'' \<Longrightarrow> N \<subseteq> M \<Longrightarrow> same_results N r r''"
  by (auto simp: same_results_def)

lemma explained_same:
  assumes "explained mode ss r s sr" "same_results (st_Name ` set ss) r r'"
  shows "explained mode ss r' s sr"
proof -
  let ?N = "st_Name ` set ss"
  have "fail_hard ss r' = fail_hard ss r"
    using same_results_flags(1) [OF assms(2)] by (auto simp: fail_hard_def)
  moreover have "{n \<in> ?N. has_failed r' n} = {n \<in> ?N. has_failed r n}"
    "{n \<in> ?N. has_changed r' n} = {n \<in> ?N. has_changed r n}"
    using same_results_flags [OF assms(2)] by blast+
  ultimately show ?thesis
    using assms by (auto simp: explained_def same_results_def)
qed

lemma level_new_same:
  "level_new mode level r new \<Longrightarrow> same_results (st_Name ` set level) r r' \<Longrightarrow>
     level_new mode level r' new"
  unfolding level_new_def same_results_def by (metis (no_types))

lemma level_did_same:
  assumes "level_did mode ss level r new" "same_results (st_Name ` set (ss @ level)) r r'"
  shows "level_did mode ss level r' new"
proof -
  have "{n \<in> st_Name ` set ss. has_changed r' n} = {n \<in> st_Name ` set ss. has_changed r n}"
    using same_results_flags(2) [OF assms(2)] by auto
  then show ?thesis using assms unfolding level_did_def same_results_def by simp
qed

lemma set_order_level [simp]: "set (order_level level) = set level"
  by (simp add: order_level_def)

lemma mset_order_level [simp]: "mset (order_level level) = mset level"
  by (simp add: order_level_def)

lemma distinct_order_level:
  "distinct (map st_Name level) \<Longrightarrow> distinct (map st_Name (order_level level))"
  by (metis mset_map mset_order_level mset_eq_imp_distinct_iff)

lemma booked_flags:
  assumes "booked ss rs" "same_results (st_Name ` set ss) (rs_result rs) r'"
  shows "rs_failed rs = {n \<in> st_Name ` set ss. has_failed r' n}"
    and "rs_changed rs = {n \<in> st_Name ` set ss. has_changed r' n}"
    and "rs_aborted rs \<longleftrightarrow> fail_hard ss r'"
proof -
  have "n \<in> st_Name ` set ss" if "has_failed (rs_result rs) n \<or> has_changed (rs_result rs) n" for n
    using that booked_None [OF assms(1), of n]
    by (cases "n \<in> st_Name ` set ss") (simp_all add: has_failed_def has_changed_def)
  then show "rs_failed rs = {n \<in> st_Name ` set ss. has_failed r' n}"
    "rs_changed rs = {n \<in> st_Name ` set ss. has_changed r' n}"
    using assms(1) same_results_flags [OF assms(2)] unfolding booked_def by blast+
  show "rs_aborted rs \<longleftrightarrow> fail_hard ss r'"
    using assms(1) same_results_flags(1) [OF assms(2)] unfolding booked_def fail_hard_def by blast
qed

lemma book_results_Canceled [simp]:
  "rr_Canceled (rs_result (book_results xs rs)) = rr_Canceled (rs_result rs)"
  by (induction xs rs rule: book_results.induct) (simp_all add: Let_def)

lemma skip_level_Canceled [simp]: "rr_Canceled (skip_level ab ss r) = rr_Canceled r"
  by (induction ss arbitrary: r) simp_all

text \<open>One level that runs.\<close>

lemma run_one_level:
  assumes b: "booked ss rs" and d: "distinct (map st_Name (ss @ level))" and na: "\<not> rs_aborted rs"
    and run: "run_level mode dag (rs_failed rs) (rs_changed rs) (order_level level) sch e = (results, e')"
    and rs': "rs' = book_results (zip (order_level level) results) rs"
  shows "booked (ss @ level) rs'"
    and "same_results (st_Name ` set ss) (rs_result rs) (rs_result rs')"
    and "\<forall>s \<in> set level. \<exists>sr. result_of (rs_result rs') (st_Name s) = Some sr \<and>
      explained mode ss (rs_result rs') s sr"
    and "\<exists>new. e_calls e' = e_calls e @ new \<and> level_new mode level (rs_result rs') new \<and>
      level_did mode ss level (rs_result rs') new"
proof -
  let ?o = "order_level level" and ?N = "st_Name ` set ss"
  have dist: "distinct (map st_Name ?o)" using d by (intro distinct_order_level) simp
  note ok = run_level_ok [OF run]
  have nms: "\<forall>i < length ?o. \<exists>sr. results ! i = Some sr \<and> sr_Name sr = st_Name (?o ! i)"
    using ok(2) unfolding res_ok_def by blast
  have dj: "st_Name ` set ?o \<inter> ?N = {}" using d by auto
  have bk: "booked (ss @ ?o) rs'"
    "\<forall>n \<in> - st_Name ` set level. result_of (rs_result rs') n = result_of (rs_result rs) n"
    "\<forall>i < length ?o. result_of (rs_result rs') (st_Name (?o ! i)) = results ! i"
    using book_results_booked [OF b ok(1) nms dist dj rs'] by simp_all
  show "booked (ss @ level) rs'" by (rule booked_set [OF bk(1)]) simp
  have "?N \<inter> st_Name ` set level = {}" using d by auto
  then show same: "same_results ?N (rs_result rs) (rs_result rs')"
    using bk(2) dj book_results_Canceled unfolding same_results_def rs'
    by (metis ComplI disjoint_iff set_order_level)
  note fl = booked_flags [OF b same]
  show "\<forall>s \<in> set level. \<exists>sr. result_of (rs_result rs') (st_Name s) = Some sr \<and>
      explained mode ss (rs_result rs') s sr"
  proof
    fix s assume "s \<in> set level"
    then obtain i where "i < length ?o" "s = ?o ! i" by (metis in_set_conv_nth set_order_level)
    with bk(3) ok(2) show "\<exists>sr. result_of (rs_result rs') (st_Name s) = Some sr \<and>
        explained mode ss (rs_result rs') s sr"
      using na fl by (auto simp: explained_def)
  qed
  obtain new where new: "e_calls e' = e_calls e @ new" "level_calls mode ?o results new"
    using ok(3) [OF dist] by blast
  have "level_new mode level (rs_result rs') new"
    unfolding level_new_def
  proof (intro conjI allI impI ballI)
    fix n c assume nc: "(n, c) \<in> set new"
    show "mode_call mode c" using new(2) nc by (simp add: level_calls_def)
    assume "c \<noteq> CCheck"
    then obtain i sr where i: "i < length ?o" "n = st_Name (?o ! i)" "results ! i = Some sr" "\<not> sr_Skipped sr"
      using new(2) nc unfolding level_calls_def by blast
    then show "n \<in> st_Name ` set level" by (metis image_eqI nth_mem set_order_level)
    from i bk(3) show "\<exists>sr. result_of (rs_result rs') n = Some sr \<and> \<not> sr_Skipped sr" by auto
  next
    fix s assume "s \<in> set level"
    then obtain i where "i < length ?o" "s = ?o ! i" by (metis in_set_conv_nth set_order_level)
    with new(2) show "call_count new (st_Name s) \<le> Suc (nat (max 0 (retry_attempts mode s)))"
      by (simp add: level_calls_def)
  qed
  moreover have "level_did mode ss level (rs_result rs') new"
    unfolding level_did_def
  proof (intro impI ballI allI)
    fix s sr assume m: "mode = ModeApply" and s: "s \<in> set level"
      and sr: "result_of (rs_result rs') (st_Name s) = Some sr" "\<not> sr_Skipped sr"
    have work: "level_work (rs_changed rs) ?o results new" using ok(4) [OF m] new(1) by auto
    obtain i where "i < length ?o" "s = ?o ! i" using s by (metis in_set_conv_nth set_order_level)
    then show "(st_Name s, if forced {n \<in> ?N. has_changed (rs_result rs') n} s then CApply else CCheck) \<in> set new"
      using work bk(3) sr fl(2) unfolding level_work_def by simp
  qed
  ultimately show "\<exists>new. e_calls e' = e_calls e @ new \<and> level_new mode level (rs_result rs') new \<and>
      level_did mode ss level (rs_result rs') new"
    using new(1) by blast
qed

text \<open>One level that is skipped.\<close>

lemma skip_one_level:
  assumes b: "booked ss rs" and d: "distinct (map st_Name (ss @ level))"
    and r1: "r1 = (if c then (rs_result rs)\<lparr>rr_Canceled := True\<rparr> else rs_result rs)"
    and why: "rs_aborted rs \<or> c"
    and rs': "rs' = rs\<lparr>rs_result := skip_level (rs_aborted rs) (order_level level) r1\<rparr>"
  shows "booked (ss @ level) rs'"
    and "same_results (st_Name ` set ss) (rs_result rs) (rs_result rs')"
    and "\<forall>s \<in> set level. \<exists>sr. result_of (rs_result rs') (st_Name s) = Some sr \<and>
      explained mode ss (rs_result rs') s sr"
    and "level_did mode ss level (rs_result rs') []"
proof -
  let ?o = "order_level level" and ?N = "st_Name ` set ss"
  let ?sr = "\<lambda>s. skipped_result (st_Name s) (if rs_aborted rs then ''failhard_abort'' else '''')"
  define rs1 where "rs1 = rs\<lparr>rs_result := r1\<rparr>"
  have flags: "result_of r1 = result_of (rs_result rs)"
    by (simp add: r1 result_of_def fun_eq_iff)
  have b1: "booked ss rs1"
    using b by (simp add: booked_def rs1_def r1 counters_ok_def count_results_def has_failed_def
        has_changed_def result_of_def)
  have dist: "distinct (map st_Name ?o)" using d by (intro distinct_order_level) simp
  have dj: "st_Name ` set ?o \<inter> ?N = {}" using d by auto
  have rs'': "rs' = book_results (zip ?o (map (\<lambda>s. Some (?sr s)) ?o)) rs1"
    using skip_level_books [where rs = rs1 and ab = "rs_aborted rs" and ordered = ?o] by (simp add: rs' rs1_def)
  have bk: "booked (ss @ ?o) rs'"
    "\<forall>n \<in> - st_Name ` set level. result_of (rs_result rs') n = result_of r1 n"
    "\<forall>i < length ?o. result_of (rs_result rs') (st_Name (?o ! i)) = Some (?sr (?o ! i))"
    using book_results_booked [OF b1 _ _ dist dj rs''] by (simp_all add: rs1_def)
  show "booked (ss @ level) rs'" by (rule booked_set [OF bk(1)]) simp
  show same: "same_results ?N (rs_result rs) (rs_result rs')"
    unfolding same_results_def
  proof (intro conjI ballI impI)
    fix n assume "n \<in> ?N"
    with dj bk(2) flags show "result_of (rs_result rs') n = result_of (rs_result rs) n"
      by (metis ComplI disjoint_iff set_order_level)
  qed (simp add: rs' r1)
  note fl = booked_flags [OF b same]
  have cn: "rr_Canceled (rs_result rs')" if "\<not> rs_aborted rs"
    using that why by (simp add: rs' r1)
  show "\<forall>s \<in> set level. \<exists>sr. result_of (rs_result rs') (st_Name s) = Some sr \<and>
      explained mode ss (rs_result rs') s sr"
  proof
    fix s assume "s \<in> set level"
    then obtain i where "i < length ?o" "s = ?o ! i" by (metis in_set_conv_nth set_order_level)
    with bk(3) cn fl(3) show "\<exists>sr. result_of (rs_result rs') (st_Name s) = Some sr \<and>
        explained mode ss (rs_result rs') s sr"
      by (auto simp: explained_def)
  qed
  have "sr_Skipped sr" if s: "s \<in> set level" and r: "result_of (rs_result rs') (st_Name s) = Some sr" for s sr
  proof -
    obtain i where "i < length ?o" "s = ?o ! i" using s by (metis in_set_conv_nth set_order_level)
    then show ?thesis using bk(3) r by auto
  qed
  then show "level_did mode ss level (rs_result rs') []" unfolding level_did_def by blast
qed

text \<open>What holds of a run of several levels after the states \<open>ss\<close>.\<close>

definition levels_ok ::
  "RunMode \<Rightarrow> 'w State list \<Rightarrow> 'w State list list \<Rightarrow> RunResult \<Rightarrow> bool" where
  "levels_ok mode ss levels r \<longleftrightarrow>
     (\<forall>i < length levels. \<forall>s \<in> set (levels ! i). \<exists>sr. result_of r (st_Name s) = Some sr \<and>
        explained mode (ss @ concat (take i levels)) r s sr)"

definition news_ok ::
  "RunMode \<Rightarrow> 'w State list \<Rightarrow> 'w State list list \<Rightarrow> RunResult \<Rightarrow> (string \<times> call) list list \<Rightarrow> bool" where
  "news_ok mode ss levels r news \<longleftrightarrow>
     length news = length levels \<and> (\<forall>i < length levels. level_new mode (levels ! i) r (news ! i) \<and>
       level_did mode (ss @ concat (take i levels)) (levels ! i) r (news ! i))"

lemma levels_ok_Cons:
  "levels_ok mode ss (level # levels) r \<longleftrightarrow>
     (\<forall>s \<in> set level. \<exists>sr. result_of r (st_Name s) = Some sr \<and> explained mode ss r s sr) \<and>
     levels_ok mode (ss @ level) levels r"
  by (auto simp: levels_ok_def less_Suc_eq_0_disj)

lemma news_ok_Cons:
  "news_ok mode ss (level # levels) r (new # news) \<longleftrightarrow>
     level_new mode level r new \<and> level_did mode ss level r new \<and> news_ok mode (ss @ level) levels r news"
  by (auto simp: news_ok_def less_Suc_eq_0_disj)

lemma level_new_Nil: "level_new mode level r []"
  by (simp add: level_new_def)

lemma run_levels_ok:
  assumes "booked ss rs" "distinct (map st_Name (ss @ concat levels))"
    "run_levels mode dag sched k levels rs e = (rs', e')"
  shows "booked (ss @ concat levels) rs' \<and>
    same_results (st_Name ` set ss) (rs_result rs) (rs_result rs') \<and>
    levels_ok mode ss levels (rs_result rs') \<and>
    (\<exists>news. e_calls e' = e_calls e @ concat news \<and> news_ok mode ss levels (rs_result rs') news)"
  using assms
proof (induction levels arbitrary: ss k rs e)
  case Nil
  then show ?case by (auto simp: same_results_def levels_ok_def news_ok_def)
next
  case (Cons level levels)
  let ?r' = "rs_result rs'"
  have d: "distinct (map st_Name (ss @ level))"
    "distinct (map st_Name ((ss @ level) @ concat levels))" using Cons.prems(2) by auto
  obtain rs1 e1 where run: "run_levels mode dag sched (Suc k) levels rs1 e1 = (rs', e')"
    and one: "booked (ss @ level) rs1"
      "same_results (st_Name ` set ss) (rs_result rs) (rs_result rs1)"
      "\<forall>s \<in> set level. \<exists>sr. result_of (rs_result rs1) (st_Name s) = Some sr \<and>
        explained mode ss (rs_result rs1) s sr"
      "\<exists>new. e_calls e1 = e_calls e @ new \<and> level_new mode level (rs_result rs1) new \<and>
        level_did mode ss level (rs_result rs1) new"
  proof (cases "rs_aborted rs \<or> e_canceled e")
    case True
    note skip = skip_one_level [OF Cons.prems(1) d(1) refl True refl]
    show thesis
      using Cons.prems(3) True level_new_Nil skip(4) by (intro that [OF _ skip(1-3)]) (auto simp: Let_def)
  next
    case False
    obtain results e1 where rl: "run_level mode dag (rs_failed rs) (rs_changed rs)
        (order_level level) (sched k) e = (results, e1)" by fastforce
    have na: "\<not> rs_aborted rs" using False by simp
    note ran = run_one_level [OF Cons.prems(1) d(1) na rl refl]
    show thesis
      using Cons.prems(3) False rl by (intro that [OF _ ran]) (simp add: Let_def)
  qed
  obtain news where ih: "booked ((ss @ level) @ concat levels) rs'"
    "same_results (st_Name ` set (ss @ level)) (rs_result rs1) ?r'"
    "levels_ok mode (ss @ level) levels ?r'" "e_calls e' = e_calls e1 @ concat news"
    "news_ok mode (ss @ level) levels ?r' news"
    using Cons.IH [OF one(1) d(2) run] by blast
  have sub: "same_results (st_Name ` set ss) (rs_result rs1) ?r'"
    "same_results (st_Name ` set level) (rs_result rs1) ?r'"
    using ih(2) by (auto simp: same_results_def)
  obtain new where new: "e_calls e1 = e_calls e @ new" "level_new mode level (rs_result rs1) new"
    "level_did mode ss level (rs_result rs1) new"
    using one(4) by blast
  have "levels_ok mode ss (level # levels) ?r'"
    unfolding levels_ok_Cons
  proof (intro conjI ballI)
    fix s assume s: "s \<in> set level"
    then show "\<exists>sr. result_of ?r' (st_Name s) = Some sr \<and> explained mode ss ?r' s sr"
      using one(3) sub explained_same unfolding same_results_def by (metis image_eqI)
  qed (rule ih(3))
  moreover have "news_ok mode ss (level # levels) ?r' (new # news)"
    using ih(5) level_new_same [OF new(2) sub(2)] level_did_same [OF new(3) ih(2)] by (simp add: news_ok_Cons)
  moreover have "same_results (st_Name ` set ss) (rs_result rs) ?r'"
    using same_results_trans [OF one(2) sub(1)] by simp
  ultimately show ?case
    using ih(1,4) new(1) by (intro conjI exI [of _ "new # news"]) simp_all
qed

section \<open>Runs over levels that respect the dependencies\<close>

lemma gate_cong:
  assumes "\<forall>n \<in> set (AllDeps (st_Reqs s)). n \<in> F \<longleftrightarrow> n \<in> F'"
    "\<forall>n \<in> set (AllDeps (st_Reqs s)). n \<in> C \<longleftrightarrow> n \<in> C'"
  shows "gate mode F C s = gate mode F' C' s"
proof -
  let ?r = "st_Reqs s"
  have "any_in F (Require ?r) = any_in F' (Require ?r)" "any_in F (Watch ?r) = any_in F' (Watch ?r)"
    "any_in F (OnChanges ?r) = any_in F' (OnChanges ?r)" "any_in F (OnFail ?r) = any_in F' (OnFail ?r)"
    "any_in C (Watch ?r) = any_in C' (Watch ?r)" "any_in C (OnChanges ?r) = any_in C' (OnChanges ?r)"
    using assms unfolding any_in_def set_AllDeps by blast+
  then show ?thesis by (simp add: gate_def resolveRequisites_def)
qed

lemma call_count_concat:
  assumes "i < length news" "\<And>j. j < length news \<Longrightarrow> j \<noteq> i \<Longrightarrow> call_count (news ! j) n = 0"
  shows "call_count (concat news) n = call_count (news ! i) n"
  using assms
proof (induction news arbitrary: i)
  case (Cons new news)
  have zero: "call_count (concat news) n = 0" if "\<And>j. j < length news \<Longrightarrow> call_count (news ! j) n = 0"
    using that
  proof (induction news)
    case (Cons x xs)
    from Cons.prems [of 0] have "call_count x n = 0" by simp
    moreover have "call_count (concat xs) n = 0"
      using Cons.prems [of "Suc _"] by (intro Cons.IH) simp
    ultimately show ?case by simp
  qed simp
  show ?case
  proof (cases i)
    case 0
    have "call_count (concat news) n = 0"
      using Cons.prems(2) [of "Suc _"] 0 by (intro zero) simp
    with 0 show ?thesis by simp
  next
    case (Suc k)
    have "call_count new n = 0" using Cons.prems(2) [of 0] Suc by simp
    moreover have "call_count (concat news) n = call_count (news ! k) n"
      using Cons.prems(1) Cons.prems(2) [of "Suc _"] Suc by (intro Cons.IH) auto
    ultimately show ?thesis using Suc by simp
  qed
qed simp

definition mode_levels :: "RunMode \<Rightarrow> 'a list \<Rightarrow> 'a list" where
  "mode_levels mode levels = (if mode = ModeRevert then rev levels else levels)"

lemma mode_levels_simps [simp]:
  "length (mode_levels mode levels) = length levels"
  "set (mode_levels mode levels) = set levels"
  by (simp_all add: mode_levels_def)

lemma mode_levels_mset [simp]: "mset (concat (mode_levels mode levels)) = mset (concat levels)"
proof -
  have "mset (concat (rev levels)) = mset (concat levels)"
    by (induction levels) simp_all
  then show ?thesis by (simp add: mode_levels_def)
qed

lemma mode_levels_distinct:
  assumes "distinct (map st_Name (concat levels))"
  shows "distinct (map st_Name (concat (mode_levels mode levels)))"
proof -
  have "mset (map st_Name (concat (mode_levels mode levels))) = mset (map st_Name (concat levels))"
    unfolding mset_map by simp
  then show ?thesis using assms mset_eq_imp_distinct_iff by blast
qed

lemma mode_levels_set: "set (concat (mode_levels mode levels)) = set (concat levels)"
  by simp

definition run_of :: "RunMode \<Rightarrow> 'w State list list \<Rightarrow> RunResult \<Rightarrow> 'w env \<Rightarrow> 'w env \<Rightarrow> bool" where
  "run_of mode levels r e e' \<longleftrightarrow>
     (\<exists>dag sched rs. run_levels mode dag sched 0 (mode_levels mode levels) init_run e = (rs, e') \<and>
        r = rs_result rs)"

lemma explained_skip:
  assumes "explained mode before r s sr" "sr_Skipped sr"
  shows "fail_hard before r \<and> sr = skipped_result (st_Name s) ''failhard_abort'' \<or>
    rr_Canceled r \<and> sr = skipped_result (st_Name s) '''' \<or>
    (\<exists>reason. gate mode {n \<in> st_Name ` set before. has_failed r n}
        {n \<in> st_Name ` set before. has_changed r n} s = Some reason) \<or>
    mode \<noteq> ModeRevert"
  using assms by (auto simp: explained_def res_ok_def split: if_splits option.splits)

context level_sort
begin

lemma run_books:
  assumes "ok orc" "levels_of orc ss = Inr levels" "run_of mode levels r e e'"
  shows "distinct (m_keys (rr_States r)) \<and> set (m_keys (rr_States r)) = st_Name ` set ss \<and> counters_ok r"
    and "levels_ok mode [] (mode_levels mode levels) r"
    and "\<exists>news. e_calls e' = e_calls e @ concat news \<and> news_ok mode [] (mode_levels mode levels) r news"
proof -
  obtain dag sched rs where
    run: "run_levels mode dag sched 0 (mode_levels mode levels) init_run e = (rs, e')"
    and r: "r = rs_result rs" using assms(3) by (auto simp: run_of_def)
  have d: "distinct (map st_Name ([] @ concat (mode_levels mode levels)))"
    using mode_levels_distinct [OF levels_distinct [OF assms(1,2)]] by simp
  note ok = run_levels_ok [OF booked_init d run]
  have "booked ss rs"
    using booked_set ok levels_set [OF assms(1,2)] mode_levels_set by (metis append_Nil)
  then show "distinct (m_keys (rr_States r)) \<and> set (m_keys (rr_States r)) = st_Name ` set ss \<and> counters_ok r"
    by (simp add: booked_def r)
  show "levels_ok mode [] (mode_levels mode levels) r"
    "\<exists>news. e_calls e' = e_calls e @ concat news \<and> news_ok mode [] (mode_levels mode levels) r news"
    using ok r by blast+
qed

lemma level_unique:
  assumes "ok orc" "levels_of orc ss = Inr levels" "i < length levels" "j < length levels"
    "n \<in> st_Name ` set (mode_levels mode levels ! i)" "n \<in> st_Name ` set (mode_levels mode levels ! j)"
  shows "i = j"
proof -
  have "distinct (concat (map (map st_Name) (mode_levels mode levels)))"
    using mode_levels_distinct [OF levels_distinct [OF assms(1,2)]] by (simp add: map_concat)
  from distinct_concat_block_unique [OF this, of i j n] assms show ?thesis by simp
qed

lemma dep_before_forward:
  assumes "ok orc" "levels_of orc ss = Inr levels" "i < length levels" "s \<in> set (levels ! i)"
    "dep \<in> set (AllDeps (st_Reqs s))"
  shows "dep \<in> st_Name ` set (concat (take i levels))"
proof -
  obtain j where j: "j < i" "dep \<in> st_Name ` set (levels ! j)" using deps_before [OF assms] by blast
  then have "levels ! j \<in> set (take i levels)"
    using assms(3) by (metis in_set_conv_nth length_take less_trans min_less_iff_conj nth_take)
  with j(2) show ?thesis by auto
qed

lemma run_explained:
  assumes "ok orc" "levels_of orc ss = Inr levels" "run_of mode levels r e e'"
    "mode \<noteq> ModeRevert" "s \<in> set ss"
  shows "\<exists>sr. result_of r (st_Name s) = Some sr \<and>
    (fail_hard ss r \<and> sr = skipped_result (st_Name s) ''failhard_abort'' \<or>
     rr_Canceled r \<and> sr = skipped_result (st_Name s) '''' \<or>
     res_ok mode {n. has_failed r n} {n. has_changed r n} s sr)"
proof -
  have lv: "mode_levels mode levels = levels" using assms(4) by (simp add: mode_levels_def)
  obtain i where i: "i < length levels" "s \<in> set (levels ! i)"
    using level_ex [OF assms(1,2,5)] by blast
  let ?N = "st_Name ` set (concat (take i levels))"
  obtain sr where sr: "result_of r (st_Name s) = Some sr"
    "explained mode (concat (take i levels)) r s sr"
    using run_books(2) [OF assms(1-3)] i unfolding levels_ok_def lv by auto
  have deps: "\<forall>n \<in> set (AllDeps (st_Reqs s)). n \<in> ?N"
    using dep_before_forward [OF assms(1,2) i] by blast
  have "gate mode {n \<in> ?N. has_failed r n} {n \<in> ?N. has_changed r n} s =
      gate mode {n. has_failed r n} {n. has_changed r n} s"
    using deps by (intro gate_cong) auto
  then have ok: "res_ok mode {n \<in> ?N. has_failed r n} {n \<in> ?N. has_changed r n} s sr =
      res_ok mode {n. has_failed r n} {n. has_changed r n} s sr"
    by (simp add: res_ok_def)
  have "fail_hard (concat (take i levels)) r \<Longrightarrow> fail_hard ss r"
    using levels_set [OF assms(1,2)] in_set_takeD unfolding fail_hard_def by fastforce
  with sr ok show ?thesis by (auto simp: explained_def split: if_splits)
qed

lemma run_forced:
  assumes "ok orc" "levels_of orc ss = Inr levels" "run_of ModeApply levels r e e'"
    "s \<in> set ss" "result_of r (st_Name s) = Some sr" "\<not> sr_Skipped sr" "e_calls e' = e_calls e @ new"
  shows "(st_Name s, if forced {n. has_changed r n} s then CApply else CCheck) \<in> set new"
proof -
  have lv: "mode_levels ModeApply levels = levels" by (simp add: mode_levels_def)
  obtain i where i: "i < length levels" "s \<in> set (levels ! i)"
    using level_ex [OF assms(1,2,4)] by blast
  let ?N = "st_Name ` set (concat (take i levels))"
  obtain news where news: "new = concat news" "news_ok ModeApply [] levels r news"
    using run_books(3) [OF assms(1-3)] assms(7) unfolding lv by auto
  then have "level_did ModeApply (concat (take i levels)) (levels ! i) r (news ! i)" "news ! i \<in> set news"
    using i(1) by (auto simp: news_ok_def)
  then have "(st_Name s, if forced {n \<in> ?N. has_changed r n} s then CApply else CCheck) \<in> set new"
    using i(2) assms(5,6) unfolding level_did_def news(1) set_concat by blast
  moreover have "\<forall>n \<in> set (Watch (st_Reqs s)). n \<in> ?N"
    using dep_before_forward [OF assms(1,2) i] by (simp add: set_AllDeps)
  then have "forced {n \<in> ?N. has_changed r n} s = forced {n. has_changed r n} s"
    by (auto simp: forced_def any_in_def)
  ultimately show ?thesis by simp
qed

lemma run_failhard:
  assumes "ok orc" "levels_of orc ss = Inr levels" "run_of mode levels r e e'"
    "i < j" "j < length levels" "u \<in> set (mode_levels mode levels ! i)"
    "st_FailHard u = Some True" "has_failed r (st_Name u)" "s \<in> set (mode_levels mode levels ! j)"
  shows "result_of r (st_Name s) = Some (skipped_result (st_Name s) ''failhard_abort'')"
proof -
  let ?l = "mode_levels mode levels"
  have "?l ! i \<in> set (take j ?l)"
    using assms(4,5) by (metis in_set_conv_nth length_take less_trans min_less_iff_conj
        mode_levels_simps(1) nth_take)
  then have "fail_hard (concat (take j ?l)) r"
    using assms(6-8) by (auto simp: fail_hard_def)
  then show ?thesis
    using run_books(2) [OF assms(1-3)] assms(5,9) by (force simp: levels_ok_def explained_def)
qed

end

context level_sort
begin

lemma dep_after_revert:
  assumes "ok orc" "levels_of orc ss = Inr levels" "i < length levels" "s \<in> set (rev levels ! i)"
    "dep \<in> set (AllDeps (st_Reqs s))"
  shows "\<exists>j > i. j < length levels \<and> dep \<in> st_Name ` set (rev levels ! j)"
proof -
  let ?i = "length levels - Suc i"
  have "s \<in> set (levels ! ?i)" "?i < length levels"
    using assms(3,4) by (simp_all add: rev_nth)
  from deps_before [OF assms(1,2) this(2,1) assms(5)]
  obtain j where j: "j < ?i" "dep \<in> st_Name ` set (levels ! j)" by blast
  then show ?thesis
    using assms(3) by (intro exI [of _ "length levels - Suc j"]) (auto simp: rev_nth Suc_diff_Suc)
qed

text \<open>
  In revert mode the states that \<open>s\<close> requires come after \<open>s\<close>, so none of them has failed when
  \<open>s\<close> is decided.
\<close>

lemma run_revert_explained:
  assumes "ok orc" "levels_of orc ss = Inr levels" "run_of ModeRevert levels r e e'" "s \<in> set ss"
  shows "\<exists>sr. result_of r (st_Name s) = Some sr \<and>
    (sr_Skipped sr \<longrightarrow>
      fail_hard ss r \<and> sr = skipped_result (st_Name s) ''failhard_abort'' \<or>
      rr_Canceled r \<and> sr = skipped_result (st_Name s) '''')"
proof -
  have lv: "mode_levels ModeRevert levels = rev levels" by (simp add: mode_levels_def)
  obtain k where "k < length levels" "s \<in> set (levels ! k)"
    using level_ex [OF assms(1,2,4)] by blast
  then obtain i where i: "i < length levels" "s \<in> set (rev levels ! i)"
    by (metis in_set_conv_nth length_rev set_rev)
  let ?b = "concat (take i (rev levels))"
  obtain sr where sr: "result_of r (st_Name s) = Some sr" "explained ModeRevert ?b r s sr"
    using run_books(2) [OF assms(1-3)] i unfolding levels_ok_def lv by auto
  have notin: "dep \<notin> st_Name ` set ?b" if dep: "dep \<in> set (AllDeps (st_Reqs s))" for dep
  proof
    assume "dep \<in> st_Name ` set ?b"
    then obtain level where "level \<in> set (take i (rev levels))" "dep \<in> st_Name ` set level" by auto
    then obtain k where k: "k < i" "dep \<in> st_Name ` set (rev levels ! k)"
      using in_set_take_nth by metis
    obtain j where j: "j > i" "j < length levels" "dep \<in> st_Name ` set (rev levels ! j)"
      using dep_after_revert [OF assms(1,2) i dep] by blast
    have "k = j"
      using level_unique [OF assms(1,2), of k j dep ModeRevert] k j by (simp add: lv)
    with k j show False by simp
  qed
  have "gate ModeRevert {n \<in> st_Name ` set ?b. has_failed r n} {n \<in> st_Name ` set ?b. has_changed r n} s
      = gate ModeRevert {} {} s"
    using notin by (intro gate_cong) auto
  also have "\<dots> = None" by (simp add: gate_def any_in_def)
  finally have "sr_Skipped sr \<Longrightarrow> fail_hard ?b r \<and> sr = skipped_result (st_Name s) ''failhard_abort'' \<or>
      rr_Canceled r \<and> sr = skipped_result (st_Name s) ''''"
    using explained_skip [OF sr(2)] by auto
  moreover have "set ?b \<subseteq> set ss"
    using levels_set [OF assms(1,2)] set_take_subset [of i "rev levels"] by auto
  then have "fail_hard ?b r \<Longrightarrow> fail_hard ss r" by (auto simp: fail_hard_def)
  ultimately show ?thesis using sr(1) by blast
qed

lemma run_calls:
  assumes "ok orc" "levels_of orc ss = Inr levels" "run_of mode levels r e e'"
  shows "\<exists>new. e_calls e' = e_calls e @ new \<and>
    (\<forall>n c. (n, c) \<in> set new \<longrightarrow> mode_call mode c \<and> (c \<noteq> CCheck \<longrightarrow> n \<in> st_Name ` set ss \<and>
       (\<exists>sr. result_of r n = Some sr \<and> \<not> sr_Skipped sr))) \<and>
    (\<forall>s \<in> set ss. call_count new (st_Name s) \<le> Suc (nat (max 0 (retry_attempts mode s)))) \<and>
    (\<forall>p < length new. \<forall>q < length new. \<forall>s \<in> set ss. \<forall>c d.
       new ! p = (st_Name s, c) \<longrightarrow> c \<noteq> CCheck \<longrightarrow> d \<noteq> CCheck \<longrightarrow>
       fst (new ! q) \<in> set (AllDeps (st_Reqs s)) \<longrightarrow> snd (new ! q) = d \<longrightarrow>
       (if mode = ModeRevert then p < q else q < p))"
proof -
  let ?l = "mode_levels mode levels"
  obtain news where calls: "e_calls e' = e_calls e @ concat news" and news: "news_ok mode [] ?l r news"
    using run_books(3) [OF assms] by blast
  have len: "length news = length levels" using news by (simp add: news_ok_def)
  have lev: "level_new mode (?l ! i) r (news ! i)" if "i < length levels" for i
    using news that by (simp add: news_ok_def)
  have mem: "\<exists>i < length levels. s \<in> set (?l ! i)" if "s \<in> set ss" for s
  proof -
    have "s \<in> set (concat ?l)" unfolding mode_levels_set levels_set [OF assms(1,2)] by (rule that)
    then obtain level where "level \<in> set ?l" "s \<in> set level" by auto
    then show ?thesis by (metis in_set_conv_nth mode_levels_simps(1))
  qed
  have sub: "set (?l ! i) \<subseteq> set ss" if "i < length levels" for i
  proof -
    have "?l ! i \<in> set levels" using that by (metis nth_mem mode_levels_simps)
    then show ?thesis using levels_set [OF assms(1,2)] by auto
  qed
  show ?thesis
  proof (intro exI [of _ "concat news"] conjI calls allI impI ballI)
    fix n c assume "(n, c) \<in> set (concat news)"
    then obtain new where "new \<in> set news" "(n, c) \<in> set new" by auto
    then obtain i where i: "i < length levels" "(n, c) \<in> set (news ! i)"
      using len by (metis in_set_conv_nth)
    then show "mode_call mode c" using lev unfolding level_new_def by blast
    assume "c \<noteq> CCheck"
    then show "n \<in> st_Name ` set ss" "\<exists>sr. result_of r n = Some sr \<and> \<not> sr_Skipped sr"
      using i lev [OF i(1)] sub [OF i(1)] unfolding level_new_def by blast+
  next
    fix s assume s: "s \<in> set ss"
    then obtain i where i: "i < length levels" "s \<in> set (?l ! i)" using mem by blast
    have "call_count (news ! j) (st_Name s) = 0" if "j < length news" "j \<noteq> i" for j
    proof (rule call_count_0, rule ccontr)
      fix c assume "(st_Name s, c) \<in> set (news ! j)" "c \<noteq> CCheck"
      then have "st_Name s \<in> st_Name ` set (?l ! j)"
        using lev [of j] that len unfolding level_new_def by auto
      then show False
        using level_unique [OF assms(1,2), of i j "st_Name s" mode] i that len by auto
    qed
    then have "call_count (concat news) (st_Name s) = call_count (news ! i) (st_Name s)"
      using i len by (intro call_count_concat) auto
    then show "call_count (concat news) (st_Name s) \<le> Suc (nat (max 0 (retry_attempts mode s)))"
      using lev [OF i(1)] i(2) by (simp add: level_new_def)
  next
    fix p q s c d
    assume p: "p < length (concat news)" and q: "q < length (concat news)" and s: "s \<in> set ss"
      and pc: "concat news ! p = (st_Name s, c)" "c \<noteq> CCheck"
      and qd: "d \<noteq> CCheck" "fst (concat news ! q) \<in> set (AllDeps (st_Reqs s))" "snd (concat news ! q) = d"
    obtain i where i: "i < length levels" "(st_Name s, c) \<in> set (news ! i)"
      "length (concat (take i news)) \<le> p" "p < length (concat (take (Suc i) news))"
      using concat_block [OF p] pc(1) len by auto
    obtain j where j: "j < length levels" "concat news ! q \<in> set (news ! j)"
      "length (concat (take j news)) \<le> q" "q < length (concat (take (Suc j) news))"
      using concat_block [OF q] len by auto
    have si: "st_Name s \<in> st_Name ` set (?l ! i)"
      using lev [OF i(1)] i(2) pc(2) unfolding level_new_def by blast
    have dj: "fst (concat news ! q) \<in> st_Name ` set (?l ! j)"
      using lev [OF j(1)] j(2) qd(1,3) unfolding level_new_def by (metis prod.collapse)
    obtain k where k: "k < length levels" "s \<in> set (?l ! k)" using mem [OF s] by blast
    have ki: "k = i" using level_unique [OF assms(1,2) k(1) i(1)] k(2) si by blast
    show "if mode = ModeRevert then p < q else q < p"
    proof (cases "mode = ModeRevert")
      case True
      then have "?l = rev levels" by (simp add: mode_levels_def)
      then obtain m where m: "m > k" "m < length levels" "fst (concat news ! q) \<in> st_Name ` set (?l ! m)"
        using dep_after_revert [OF assms(1,2) k(1) _ qd(2)] k(2) by metis
      have "j = m" by (rule level_unique [OF assms(1,2) j(1) m(2) dj m(3)])
      with m ki i j concat_block_less [OF i(4) j(3)] True show ?thesis by simp
    next
      case False
      then have l: "?l = levels" by (simp add: mode_levels_def)
      obtain m where m: "m < k" "fst (concat news ! q) \<in> st_Name ` set (?l ! m)"
        using deps_before [OF assms(1,2) k(1) _ qd(2)] k(2) unfolding l by metis
      have ml: "m < length levels" using m(1) k(1) by simp
      have "j = m" by (rule level_unique [OF assms(1,2) j(1) ml dj m(2)])
      with m ki i j concat_block_less [OF j(4) i(3)] False show ?thesis by simp
    qed
  qed
qed

end

section \<open>The levels behind Run\<close>

lemma Run_levels:
  assumes "Run ro sched ss mode e = Inr (r, e')"
  shows "\<exists>levels. sort_levels ro ss = Inr levels \<and> run_of mode levels r e e'"
  using assms
  by (auto simp: Run_def sort_levels_def run_of_def mode_levels_def Let_def
      split: sum.splits prod.splits if_splits)

end
