(* ===== verification/RunnerProps.thy ===== *)
theory RunnerProps
  imports RunnerRun
begin

text \<open>
  The properties of the sort of \<^verbatim>\<open>src/pkg/state/dag.go\<close> and of the runner of
  \<^verbatim>\<open>src/pkg/state/runner.go\<close>, with a small plan on which each of them is evaluated.
  \<open>permutes ro\<close> says that the oracle \<open>ro\<close> only reorders what it is given, which is all that Go promises of the
  order in which it ranges over a map.
\<close>

section \<open>An example plan\<close>

text \<open>A small plan for the examples: \<open>web\<close> requires \<open>pkg\<close>, \<open>alert\<close> runs if \<open>pkg\<close> fails.\<close>

definition demo_state :: "string \<Rightarrow> Requisites \<Rightarrow> bool \<Rightarrow> nat State" where
  "demo_state n reqs fails =
     \<lparr>st_Name = n, st_Reqs = reqs,
      st_Check = (\<lambda>w. (Inr \<lparr>cr_NeedsChange = True, cr_Diff = ''''\<rparr>, w)),
      st_Apply = (\<lambda>w. (if fails then Inl ''boom''
         else Inr \<lparr>ar_Changed = True, ar_Diff = '''', ar_Details = []\<rparr>, Suc w)),
      st_Revert = (\<lambda>w. (if fails then Inl ''boom''
         else Inr \<lparr>ar_Changed = True, ar_Diff = '''', ar_Details = []\<rparr>, Suc w)),
      st_Order = None, st_RetrySpec = Some (2, 0), st_FailHard = None, st_PrereqTargets = None\<rparr>"

definition no_reqs :: Requisites where
  "no_reqs = \<lparr>Require = [], Watch = [], OnChanges = [], OnFail = []\<rparr>"

definition demo_plan :: "bool \<Rightarrow> nat State list" where
  "demo_plan fails =
     [demo_state ''web'' (no_reqs\<lparr>Require := [''pkg'']\<rparr>) False,
      demo_state ''pkg'' no_reqs fails,
      demo_state ''alert'' (no_reqs\<lparr>OnFail := [''pkg'']\<rparr>) False]"

definition demo_env :: "nat env" where
  "demo_env = \<lparr>e_world = 0, e_canceled = False, e_calls = []\<rparr>"

abbreviation in_order :: range_oracle where
  "in_order \<equiv> \<lambda>i xs. xs"

lemma permutes_in_order: "permutes in_order"
  by (simp add: permutes_def)

lemma permutes_rev: "permutes (\<lambda>i xs. rev xs)"
  by (simp add: permutes_def)

definition demo_failed :: RunResult where
  "demo_failed = \<lparr>rr_States =
       [(''pkg'', (empty_result ''pkg'')\<lparr>sr_Error := ''boom''\<rparr>),
        (''alert'', (empty_result ''alert'')\<lparr>sr_Changed := True\<rparr>),
        (''web'', skipped_result ''web'' ''require_failed'')],
     rr_Changed = 1, rr_Failed = 1, rr_Skipped = 1, rr_Canceled = False\<rparr>"

definition demo_failed_env :: "nat env" where
  "demo_failed_env = \<lparr>e_world = 4, e_canceled = False,
     e_calls = [(''pkg'', CCheck), (''pkg'', CApply), (''pkg'', CCheck), (''pkg'', CApply),
                (''pkg'', CCheck), (''pkg'', CApply), (''alert'', CCheck), (''alert'', CApply)]\<rparr>"

lemma demo_failing_run:
  "Run in_order (\<lambda>k. []) (demo_plan True) ModeApply demo_env = Inr (demo_failed, demo_failed_env)"
  by code_simp

definition demo_good :: RunResult where
  "demo_good = \<lparr>rr_States =
       [(''pkg'', (empty_result ''pkg'')\<lparr>sr_Changed := True\<rparr>),
        (''alert'', skipped_result ''alert'' ''onfail_not_met''),
        (''web'', (empty_result ''web'')\<lparr>sr_Changed := True\<rparr>)],
     rr_Changed = 2, rr_Failed = 0, rr_Skipped = 1, rr_Canceled = False\<rparr>"

definition demo_good_env :: "nat env" where
  "demo_good_env = \<lparr>e_world = 2, e_canceled = False,
     e_calls = [(''pkg'', CCheck), (''pkg'', CApply), (''web'', CCheck), (''web'', CApply)]\<rparr>"

lemma demo_good_run:
  "Run in_order (\<lambda>k. [Main, Main, Go 0]) (demo_plan False) ModeApply demo_env =
     Inr (demo_good, demo_good_env)"
  by code_simp

lemma demo_levels:
  "\<exists>levels. sort_levels in_order (demo_plan b) = Inr levels \<and>
     map (map st_Name) levels = [[''pkg''], [''alert'', ''web'']]"
proof -
  have "map_sum id (map (map st_Name)) (sort_levels in_order (demo_plan True)) =
      Inr [[''pkg''], [''alert'', ''web'']]"
    "map_sum id (map (map st_Name)) (sort_levels in_order (demo_plan False)) =
      Inr [[''pkg''], [''alert'', ''web'']]"
    by code_simp+
  then show ?thesis
    by (cases b; cases "sort_levels in_order (demo_plan b)") auto
qed

section \<open>The sort\<close>

text \<open>
  C7: the levels that \<^verbatim>\<open>NewDAG\<close> and \<^verbatim>\<open>Resolve\<close> give hold every state exactly once, put every
  dependency of a state in an earlier level, and put a state that is not in the first level right
  after the level of one of its dependencies (no state waits longer than it has to).
\<close>
theorem resolve_topological:
  assumes "permutes ro" "sort_levels ro ss = Inr levels"
  shows "mset (concat levels) = mset ss \<and>
    (\<forall>i < length levels. \<forall>s \<in> set (levels ! i). \<forall>dep \<in> set (AllDeps (st_Reqs s)).
      \<exists>j < i. dep \<in> st_Name ` set (levels ! j)) \<and>
    (\<forall>i. Suc i < length levels \<longrightarrow> (\<forall>s \<in> set (levels ! Suc i).
      \<exists>dep \<in> set (AllDeps (st_Reqs s)). dep \<in> st_Name ` set (levels ! i)))"
  by (intro conjI allI impI ballI; (rule sort_levels_mset [OF assms] sort_levels_deps_before [OF assms]
        sort_levels_dep_in_previous [OF assms]; assumption))

theorem resolve_topological_witness:
  "\<exists>levels. sort_levels in_order (demo_plan False) = Inr levels \<and>
     map (map st_Name) levels = [[''pkg''], [''alert'', ''web'']] \<and>
     mset (concat levels) = mset (demo_plan False) \<and>
     (\<forall>s \<in> set (levels ! 1). \<exists>dep \<in> set (AllDeps (st_Reqs s)). dep \<in> st_Name ` set (levels ! 0))"
proof -
  obtain levels where l: "sort_levels in_order (demo_plan False) = Inr levels"
    "map (map st_Name) levels = [[''pkg''], [''alert'', ''web'']]" using demo_levels [of False] by (elim exE conjE)
  have "Suc 0 < length levels" using arg_cong [OF l(2), of length] by simp
  with resolve_topological [OF permutes_in_order l(1)] have
    "mset (concat levels) = mset (demo_plan False)"
    "\<forall>s \<in> set (levels ! Suc 0). \<exists>dep \<in> set (AllDeps (st_Reqs s)). dep \<in> st_Name ` set (levels ! 0)"
    by simp_all
  with l show ?thesis by auto
qed

text \<open>
  C14: \<^verbatim>\<open>NewDAG\<close> followed by \<^verbatim>\<open>Resolve\<close> succeeds exactly when the state names are distinct, every
  dependency names a state of the list, and the dependency relation has no cycle.
\<close>
theorem resolve_succeeds_iff:
  assumes "permutes ro"
  shows "(\<exists>levels. sort_levels ro ss = Inr levels) \<longleftrightarrow>
    distinct (map st_Name ss) \<and>
    (\<forall>s \<in> set ss. set (AllDeps (st_Reqs s)) \<subseteq> st_Name ` set ss) \<and> acyclic (dep_rel ss)"
  by (rule sort_levels_succeeds_iff [OF assms])

theorem resolve_succeeds_iff_witness:
  "acyclic (dep_rel (demo_plan False)) \<and>
   \<not> acyclic (dep_rel [demo_state ''a'' (no_reqs\<lparr>Require := [''a'']\<rparr>) False])"
proof -
  let ?loop = "[demo_state ''a'' (no_reqs\<lparr>Require := [''a'']\<rparr>) False]"
  have "isl (sort_levels in_order ?loop)" by code_simp
  then have "\<nexists>levels. sort_levels in_order ?loop = Inr levels" by auto
  moreover have "\<forall>s \<in> set ?loop. set (AllDeps (st_Reqs s)) \<subseteq> st_Name ` set ?loop"
    "distinct (map st_Name ?loop)" by code_simp+
  ultimately show ?thesis
    using resolve_succeeds_iff [OF permutes_in_order, of "demo_plan False"] demo_levels [of False]
      resolve_succeeds_iff [OF permutes_in_order, of ?loop]
    by blast
qed

text \<open>
  The result is deterministic although Go ranges over maps in an unspecified order: neither the
  order of the ranges nor the order in which the states are listed changes the levels.
\<close>
theorem resolve_deterministic:
  assumes "permutes ro" "permutes ro'" "mset ss = mset ss'" "sort_levels ro ss = Inr levels"
  shows "sort_levels ro' ss' = Inr levels"
  by (rule sort_levels_deterministic [OF assms])

theorem resolve_deterministic_witness:
  "\<exists>levels. sort_levels (\<lambda>i xs. rev xs) (rev (demo_plan False)) = Inr levels \<and>
     map (map st_Name) levels = [[''pkg''], [''alert'', ''web'']]"
proof -
  obtain levels where l: "sort_levels in_order (demo_plan False) = Inr levels"
    "map (map st_Name) levels = [[''pkg''], [''alert'', ''web'']]" using demo_levels [of False] by (elim exE conjE)
  show ?thesis
    using resolve_deterministic [OF permutes_in_order permutes_rev _ l(1), of "rev (demo_plan False)"] l(2)
    by simp
qed

section \<open>The runner\<close>

text \<open>
  C15: a run books exactly one result per state, under the state's name, and its three counters
  count the booked results with an error, with a change and with a skip.
\<close>
theorem run_books_every_state:
  assumes "permutes ro" "Run ro sched ss mode e = Inr (r, e')"
  shows "distinct (m_keys (rr_States r)) \<and> set (m_keys (rr_States r)) = st_Name ` set ss \<and>
    rr_Failed r = count_results (\<lambda>sr. sr_Error sr \<noteq> '''') r \<and>
    rr_Changed r = count_results sr_Changed r \<and>
    rr_Skipped r = count_results sr_Skipped r"
proof -
  obtain levels where l: "sort_levels ro ss = Inr levels" "run_of mode levels r e e'"
    using Run_levels [OF assms(2)] by blast
  show ?thesis using dag_sort.run_books(1) [OF assms(1) l] by (simp add: counters_ok_def)
qed

theorem run_books_every_state_witness:
  "set (m_keys (rr_States demo_failed)) = st_Name ` set (demo_plan True) \<and>
   count_results (\<lambda>sr. sr_Error sr \<noteq> '''') demo_failed = 1"
proof -
  have "rr_Failed demo_failed = 1" by (simp add: demo_failed_def)
  then show ?thesis using run_books_every_state [OF permutes_in_order demo_failing_run] by simp
qed



text \<open>
  C3: order of effects. A run only appends to the calls made so far; and whenever a state and a state it
  depends on are both applied (or reverted), every apply of the dependency comes before
  every apply of the dependent in apply mode, and after every revert of the dependent in revert
  mode, however the goroutines interleave.
\<close>
theorem run_call_order:
  assumes "permutes ro" "Run ro sched ss mode e = Inr (r, e')"
  shows "\<exists>new. e_calls e' = e_calls e @ new \<and>
    (\<forall>p < length new. \<forall>q < length new. \<forall>s \<in> set ss. \<forall>c d.
       new ! p = (st_Name s, c) \<longrightarrow> c \<noteq> CCheck \<longrightarrow> d \<noteq> CCheck \<longrightarrow>
       fst (new ! q) \<in> set (AllDeps (st_Reqs s)) \<longrightarrow> snd (new ! q) = d \<longrightarrow>
       (if mode = ModeRevert then p < q else q < p))"
proof -
  obtain levels where l: "sort_levels ro ss = Inr levels" "run_of mode levels r e e'"
    using Run_levels [OF assms(2)] by blast
  from dag_sort.run_calls [OF assms(1) l] show ?thesis by (elim exE conjE) (intro exI conjI)
qed

theorem run_call_order_witness:
  "e_calls demo_good_env ! 3 = (''web'', CApply) \<and>
   list_all (\<lambda>q. q < 3) (filter (\<lambda>q. e_calls demo_good_env ! q = (''pkg'', CApply)) [0..<4])"
proof -
  let ?s = "demo_state ''web'' (no_reqs\<lparr>Require := [''pkg'']\<rparr>) False"
  have s: "?s \<in> set (demo_plan False)" "st_Name ?s = ''web''" "set (AllDeps (st_Reqs ?s)) = {''pkg''}"
    by (simp add: demo_plan_def, code_simp, code_simp)
  have c: "e_calls demo_env = []" "length (e_calls demo_good_env) = 4"
    "e_calls demo_good_env ! 3 = (''web'', CApply)"
    by (simp_all add: demo_env_def demo_good_env_def)
  have "q < 3" if "q < 4" "e_calls demo_good_env ! q = (''pkg'', CApply)" for q
    using run_call_order [OF permutes_in_order demo_good_run] s c that by fastforce
  with c show ?thesis by (simp add: list_all_iff)
qed

text \<open>
  C8: which modules are called. Check mode (a dry run) never applies or reverts anything, apply mode
  never reverts and revert mode never applies; only states of the list with a result that
  is not a skip are applied or reverted; and a state is applied (or reverted) at most once more
  than its retry count says.
\<close>
theorem run_calls_bounded:
  assumes "permutes ro" "Run ro sched ss mode e = Inr (r, e')"
  shows "\<exists>new. e_calls e' = e_calls e @ new \<and>
    (\<forall>n c. (n, c) \<in> set new \<longrightarrow>
       (c = CApply \<longrightarrow> mode = ModeApply) \<and> (c = CRevert \<longrightarrow> mode = ModeRevert) \<and>
       (c \<noteq> CCheck \<longrightarrow> n \<in> st_Name ` set ss \<and>
          (\<exists>sr. result_of r n = Some sr \<and> \<not> sr_Skipped sr))) \<and>
    (\<forall>s \<in> set ss. call_count new (st_Name s) \<le> Suc (nat (max 0 (retry_attempts mode s))))"
proof -
  obtain levels where l: "sort_levels ro ss = Inr levels" "run_of mode levels r e e'"
    using Run_levels [OF assms(2)] by blast
  from dag_sort.run_calls [OF assms(1) l] show ?thesis
    unfolding mode_call_def conj_assoc by (elim exE conjE) (intro exI conjI)
qed

theorem run_calls_bounded_witness:
  "call_count (e_calls demo_failed_env) ''pkg'' = 3 \<and>
   retry_attempts ModeApply (demo_state ''pkg'' no_reqs True) = 2 \<and>
   (''web'', CApply) \<notin> set (e_calls demo_failed_env)"
proof -
  let ?s = "demo_state ''pkg'' no_reqs True"
  have s: "?s \<in> set (demo_plan True)" "st_Name ?s = ''pkg''" "retry_attempts ModeApply ?s = 2"
    by (simp_all add: demo_plan_def demo_state_def retry_attempts_def)
  have c: "e_calls demo_env = []" "call_count (e_calls demo_failed_env) ''pkg'' \<ge> 3"
    by (simp_all add: demo_env_def demo_failed_env_def call_count_def)
  have w: "result_of demo_failed ''web'' = Some (skipped_result ''web'' ''require_failed'')"
    by (simp add: result_of_def demo_failed_def)
  note bound = run_calls_bounded [OF permutes_in_order demo_failing_run]
  have "call_count (e_calls demo_failed_env) ''pkg'' \<le> 3"
    using bound s c by fastforce
  moreover have "(''web'', CApply) \<notin> set (e_calls demo_failed_env)"
    using bound c w by fastforce
  ultimately show ?thesis using s c by simp
qed

text \<open>
  C16: abort on failure. Once a state with \<^verbatim>\<open>fail_hard\<close> has failed, every state of every later level is
  skipped as \<open>failhard_abort\<close>.
\<close>
theorem run_failhard_aborts:
  assumes "permutes ro" "Run ro sched ss mode e = Inr (r, e')" "sort_levels ro ss = Inr levels"
    and "i < j" "j < length levels" "u \<in> set (mode_levels mode levels ! i)"
    and "st_FailHard u = Some True" "has_failed r (st_Name u)"
    and "s \<in> set (mode_levels mode levels ! j)"
  shows "result_of r (st_Name s) = Some (skipped_result (st_Name s) ''failhard_abort'')"
proof -
  have "run_of mode levels r e e'"
    using Run_levels [OF assms(2)] assms(3) by auto
  from dag_sort.run_failhard [OF assms(1,3) this assms(4-)] show ?thesis .
qed

definition hard_plan :: "nat State list" where
  "hard_plan =
     [(demo_state ''pkg'' no_reqs True)\<lparr>st_FailHard := Some True\<rparr>,
      demo_state ''alert'' (no_reqs\<lparr>OnFail := [''pkg'']\<rparr>) False]"

theorem run_failhard_aborts_witness:
  "\<exists>r e'. Run in_order (\<lambda>k. []) hard_plan ModeApply demo_env = Inr (r, e') \<and>
     result_of r ''alert'' = Some (skipped_result ''alert'' ''failhard_abort'')"
proof -
  let ?pkg = "(demo_state ''pkg'' no_reqs True)\<lparr>st_FailHard := Some True\<rparr>"
  let ?al = "demo_state ''alert'' (no_reqs\<lparr>OnFail := [''pkg'']\<rparr>) False"
  have "case_sum (\<lambda>err. False) (\<lambda>(r, e). has_failed r ''pkg'')
      (Run in_order (\<lambda>k. []) hard_plan ModeApply demo_env)" by code_simp
  then obtain r e where run: "Run in_order (\<lambda>k. []) hard_plan ModeApply demo_env = Inr (r, e)"
    and f: "has_failed r ''pkg''" by (auto split: sum.splits)
  have "map_sum id (map (map st_Name)) (sort_levels in_order hard_plan) = Inr [[''pkg''], [''alert'']]"
    by code_simp
  then obtain levels where l: "sort_levels in_order hard_plan = Inr levels"
    and n: "map (map st_Name) levels = [[''pkg''], [''alert'']]"
    by (cases "sort_levels in_order hard_plan") auto
  obtain u s where us: "levels = [[u], [s]]" "st_Name u = ''pkg''" "st_Name s = ''alert''"
    using n by auto
  have "mset [u, s] = mset [?pkg, ?al]"
    using sort_levels_mset [OF permutes_in_order l] us by (simp add: hard_plan_def)
  then have "u \<in> {?pkg, ?al}" by (metis list.set_intros(1) mset_eq_setD set_simps)
  then have u: "st_FailHard u = Some True" using us(2) by (auto simp: demo_state_def)
  have "result_of r (st_Name s) = Some (skipped_result (st_Name s) ''failhard_abort'')"
    by (rule run_failhard_aborts [OF permutes_in_order run l, of 0 1 u])
      (simp_all add: us mode_levels_def u f)
  with run us show ?thesis by auto
qed

text \<open>
  C17: in revert mode a failed requisite never stops anything. The levels are walked backwards, so the
  states that a state requires are reverted after it, and the guard that would skip a state because
  a required state failed never fires: a state is only skipped when the run is aborted or
  cancelled.
\<close>
theorem run_revert_never_require_failed:
  assumes "permutes ro" "Run ro sched ss ModeRevert e = Inr (r, e')" "s \<in> set ss"
  shows "\<exists>sr. result_of r (st_Name s) = Some sr \<and>
    (\<not> sr_Skipped sr \<or>
     fail_hard ss r \<and> sr = skipped_result (st_Name s) ''failhard_abort'' \<or>
     rr_Canceled r \<and> sr = skipped_result (st_Name s) '''')"
proof -
  obtain levels where l: "sort_levels ro ss = Inr levels" "run_of ModeRevert levels r e e'"
    using Run_levels [OF assms(2)] by blast
  from dag_sort.run_revert_explained [OF assms(1) l assms(3)] show ?thesis
    unfolding imp_conv_disj .
qed

definition demo_reverted :: RunResult where
  "demo_reverted = \<lparr>rr_States =
       [(''alert'', (empty_result ''alert'')\<lparr>sr_Changed := True\<rparr>),
        (''web'', (empty_result ''web'')\<lparr>sr_Changed := True\<rparr>),
        (''pkg'', (empty_result ''pkg'')\<lparr>sr_Error := ''boom''\<rparr>)],
     rr_Changed = 2, rr_Failed = 1, rr_Skipped = 0, rr_Canceled = False\<rparr>"

definition demo_reverted_env :: "nat env" where
  "demo_reverted_env = \<lparr>e_world = 5, e_canceled = False,
     e_calls = [(''alert'', CRevert), (''web'', CRevert),
                (''pkg'', CRevert), (''pkg'', CRevert), (''pkg'', CRevert)]\<rparr>"

lemma demo_revert_run:
  "Run in_order (\<lambda>k. []) (demo_plan True) ModeRevert demo_env = Inr (demo_reverted, demo_reverted_env)"
  by code_simp

theorem run_revert_never_require_failed_witness:
  "has_failed demo_reverted ''pkg'' \<and>
   (\<exists>sr. result_of demo_reverted ''web'' = Some sr \<and> \<not> sr_Skipped sr)"
proof -
  let ?s = "demo_state ''web'' (no_reqs\<lparr>Require := [''pkg'']\<rparr>) False"
  have s: "?s \<in> set (demo_plan True)" "st_Name ?s = ''web''"
    by (simp_all add: demo_plan_def demo_state_def)
  have "\<not> rr_Canceled demo_reverted" "has_failed demo_reverted ''pkg''"
    by (simp_all add: demo_reverted_def has_failed_def result_of_def)
  moreover have "\<not> fail_hard (demo_plan True) demo_reverted"
    by (simp add: fail_hard_def demo_plan_def demo_state_def)
  ultimately show ?thesis
    using run_revert_never_require_failed [OF permutes_in_order demo_revert_run s(1)] s(2) by auto
qed

end
