(* ===== verification/Registry.thy ===== *)
theory Registry
  imports StateCore
begin

text \<open>
  The registry of state modules: \<^verbatim>\<open>Registry\<close> of \<^verbatim>\<open>src/pkg/state/state.go\<close> and
  \<^verbatim>\<open>src/pkg/state/registry_spec.go\<close>. A builder is a function from an id and a config to a state
  or an error; the modules that provide builders are parameters of the model. Of a module's
  schema (\<^verbatim>\<open>modschema.Spec\<close>) the model keeps what the registry and the compiler read.
\<close>

record ParamInfo =
  fi_Name :: string
  fi_Aliases :: "string list"
  fi_Primary :: bool

record ModuleInfo =
  mi_OpenParams :: bool
  mi_Params :: "ParamInfo list"

record Spec =
  sp_Module :: string
  sp_Info :: ModuleInfo

type_synonym 'w Builder = "string \<Rightarrow> config \<Rightarrow> 'w State result"

record 'w Registry =
  r_builders :: "(string, 'w Builder) gomap"
  r_specs :: "(string, Spec) gomap"

definition NewRegistry :: "'w Registry" where
  "NewRegistry = \<lparr>r_builders = [], r_specs = []\<rparr>"

definition Register :: "string \<Rightarrow> 'w Builder \<Rightarrow> 'w Registry \<Rightarrow> 'w Registry" where
  "Register name b r =
     r\<lparr>r_builders := m_set name b (r_builders r), r_specs := m_del name (r_specs r)\<rparr>"

definition Build :: "'w Registry \<Rightarrow> string \<Rightarrow> string \<Rightarrow> config \<Rightarrow> 'w State result" where
  "Build r mdl ident cfg =
     (case map_of (r_builders r) mdl of
        None \<Rightarrow> Inl (''state: unknown module '' @ quote_q mdl)
      | Some b \<Rightarrow> b ident cfg)"

definition Has :: "'w Registry \<Rightarrow> string \<Rightarrow> bool" where
  "Has r name \<longleftrightarrow> map_of (r_builders r) name \<noteq> None"

text \<open>The names come in map iteration order, an argument of the definition.\<close>

definition Modules :: "(string list \<Rightarrow> string list) \<Rightarrow> 'w Registry \<Rightarrow> string list" where
  "Modules ro r = ro (m_keys (r_builders r))"

text \<open>A nil spec or a nil builder is \<open>None\<close>.\<close>

definition RegisterSpec ::
  "Spec option \<Rightarrow> 'w Builder option \<Rightarrow> 'w Registry \<Rightarrow> 'w Registry result" where
  "RegisterSpec spec b r =
     (case spec of
        None \<Rightarrow> Inl ''state: register spec: nil spec''
      | Some s \<Rightarrow>
          if sp_Module s = '''' then Inl ''state: register spec: empty module name''
          else case b of
            None \<Rightarrow> Inl (''state: register spec '' @ quote_q (sp_Module s) @ '': nil builder'')
          | Some bd \<Rightarrow>
              if map_of (r_specs r) (sp_Module s) \<noteq> None
              then Inl (''state: register spec: duplicate module '' @ quote_q (sp_Module s))
              else Inr (r\<lparr>r_builders := m_set (sp_Module s) bd (r_builders r),
                          r_specs := m_set (sp_Module s) s (r_specs r)\<rparr>))"

definition ReplaceSpec ::
  "Spec option \<Rightarrow> 'w Builder option \<Rightarrow> 'w Registry \<Rightarrow> 'w Registry result" where
  "ReplaceSpec spec b r =
     (case spec of
        None \<Rightarrow> Inl ''state: replace spec: nil spec''
      | Some s \<Rightarrow>
          if sp_Module s = '''' then Inl ''state: replace spec: empty module name''
          else case b of
            None \<Rightarrow> Inl (''state: replace spec '' @ quote_q (sp_Module s) @ '': nil builder'')
          | Some bd \<Rightarrow>
              Inr (r\<lparr>r_builders := m_set (sp_Module s) bd (r_builders r),
                     r_specs := m_set (sp_Module s) s (r_specs r)\<rparr>))"

definition Unregister :: "string \<Rightarrow> 'w Registry \<Rightarrow> bool \<times> 'w Registry" where
  "Unregister name r =
     (map_of (r_builders r) name \<noteq> None,
      r\<lparr>r_builders := m_del name (r_builders r), r_specs := m_del name (r_specs r)\<rparr>)"

definition Describe :: "'w Registry \<Rightarrow> string \<Rightarrow> ModuleInfo option" where
  "Describe r name = map_option sp_Info (map_of (r_specs r) name)"

definition SpecNames :: "'w Registry \<Rightarrow> string list" where
  "SpecNames r = sort (m_keys (r_specs r))"

section \<open>Reachable registries\<close>

inductive reg_step :: "'w Registry \<Rightarrow> 'w Registry \<Rightarrow> bool" where
  "reg_step r (Register name b r)"
| "RegisterSpec spec b r = Inr r' \<Longrightarrow> reg_step r r'"
| "ReplaceSpec spec b r = Inr r' \<Longrightarrow> reg_step r r'"
| "reg_step r (snd (Unregister name r))"

inductive_cases reg_stepE: "reg_step r r'"

definition reg_inv :: "'w Registry \<Rightarrow> bool" where
  "reg_inv r \<longleftrightarrow> distinct (m_keys (r_builders r)) \<and> distinct (m_keys (r_specs r)) \<and>
     (\<forall>n s. map_of (r_specs r) n = Some s \<longrightarrow> map_of (r_builders r) n \<noteq> None \<and> sp_Module s = n \<and> n \<noteq> '''')"

lemma NewRegistry_inv: "reg_inv NewRegistry"
  by (simp add: reg_inv_def NewRegistry_def)

lemma reg_inv_put:
  assumes "reg_inv r" "sp_Module s \<noteq> []"
  shows "reg_inv (r\<lparr>r_builders := m_set (sp_Module s) b (r_builders r),
                     r_specs := m_set (sp_Module s) s (r_specs r)\<rparr>)"
  using assms unfolding reg_inv_def
  by (auto simp: distinct_m_set map_of_m_set split: if_splits)

lemma reg_inv_drop:
  "reg_inv r \<Longrightarrow> reg_inv (r\<lparr>r_builders := m_del n (r_builders r), r_specs := m_del n (r_specs r)\<rparr>)"
  "reg_inv r \<Longrightarrow> reg_inv (r\<lparr>r_builders := m_set n b (r_builders r), r_specs := m_del n (r_specs r)\<rparr>)"
  unfolding reg_inv_def
  by (auto simp: distinct_m_set distinct_m_del map_of_m_set map_of_m_del split: if_splits)

lemma reg_step_inv: "reg_step r r' \<Longrightarrow> reg_inv r \<Longrightarrow> reg_inv r'"
  by (erule reg_stepE)
    (auto simp: Register_def RegisterSpec_def ReplaceSpec_def Unregister_def reg_inv_put reg_inv_drop
      split: option.splits if_splits)

lemma reg_reachable_inv: "reg_step\<^sup>*\<^sup>* NewRegistry r \<Longrightarrow> reg_inv r"
  by (induction rule: rtranclp_induct) (auto intro: NewRegistry_inv reg_step_inv)

text \<open>
  A registry that was filled through its operations never documents a module it cannot build: every name that
  \<^verbatim>\<open>SpecNames\<close> lists has a builder, its documentation is the one registered under
  that name, and the list is sorted without repetitions.
\<close>
theorem registry_documents_buildable:
  assumes "reg_step\<^sup>*\<^sup>* NewRegistry r"
  shows "sorted (SpecNames r) \<and> distinct (SpecNames r) \<and>
    (\<forall>n \<in> set (SpecNames r). Has r n \<and> Describe r n \<noteq> None) \<and> (\<forall>n. Describe r n \<noteq> None \<longrightarrow> n \<in> set (SpecNames r))"
proof -
  note inv = reg_reachable_inv [OF assms]
  have key: "n \<in> set (m_keys (r_specs r)) \<longleftrightarrow> map_of (r_specs r) n \<noteq> None" for n
    by (simp add: map_of_None_keys)
  have "Has r n \<and> Describe r n \<noteq> None" if "n \<in> set (SpecNames r)" for n
    using that inv key [of n] by (auto simp: SpecNames_def Has_def Describe_def reg_inv_def)
  moreover have "n \<in> set (SpecNames r)" if "Describe r n \<noteq> None" for n
    using that key [of n] by (auto simp: SpecNames_def Describe_def)
  moreover have "sorted (SpecNames r)" "distinct (SpecNames r)"
    using inv by (simp_all add: SpecNames_def reg_inv_def)
  ultimately show ?thesis by blast
qed

definition demo_spec :: "string \<Rightarrow> Spec" where
  "demo_spec n = \<lparr>sp_Module = n, sp_Info = \<lparr>mi_OpenParams = False, mi_Params = []\<rparr>\<rparr>"

theorem registry_documents_buildable_witness:
  "\<exists>r :: nat Registry. r_specs r = [(''cmd.run'', demo_spec ''cmd.run'')] \<and> Has r ''cmd.run''"
proof -
  let ?b = "(\<lambda>ident cfg. Inl ''no'') :: nat Builder"
  obtain r1 where r1: "RegisterSpec (Some (demo_spec ''cmd.run'')) (Some ?b) NewRegistry = Inr r1"
    and s1: "r_specs r1 = [(''cmd.run'', demo_spec ''cmd.run'')]"
    by (simp add: RegisterSpec_def NewRegistry_def demo_spec_def)
  let ?r = "Register ''x.y'' ?b r1"
  have "reg_step\<^sup>*\<^sup>* NewRegistry ?r"
    using reg_step.intros(2) [OF r1] reg_step.intros(1) [of r1 "''x.y''" ?b]
    by (meson rtranclp.rtrancl_into_rtrancl rtranclp.rtrancl_refl)
  from registry_documents_buildable [OF this] have "\<forall>n \<in> set (SpecNames ?r). Has ?r n" by blast
  moreover have "r_specs ?r = [(''cmd.run'', demo_spec ''cmd.run'')]"
    by (simp add: Register_def s1)
  ultimately show ?thesis by (intro exI [of _ ?r]) (simp add: SpecNames_def)
qed

end
