(* ===== verification/GoPath.thy ===== *)
theory GoPath
  imports Prelude
begin

text \<open>
  What the sources use of Go's \<^verbatim>\<open>path/filepath\<close> on a Unix system: \<^verbatim>\<open>Clean\<close>, \<^verbatim>\<open>Join\<close>,
  \<^verbatim>\<open>Dir\<close>, \<^verbatim>\<open>IsAbs\<close> and the shell patterns of \<^verbatim>\<open>Match\<close>, for ASCII text.
\<close>

section \<open>Paths\<close>

text \<open>The components that \<^verbatim>\<open>Clean\<close> keeps, the last one first.\<close>

fun clean_parts :: "bool \<Rightarrow> string list \<Rightarrow> string list \<Rightarrow> string list" where
  "clean_parts rooted acc [] = acc"
| "clean_parts rooted acc (p # ps) =
     (if p = '''' \<or> p = ''.'' then clean_parts rooted acc ps
      else if p = ''..'' then
        (case acc of
           [] \<Rightarrow> clean_parts rooted (if rooted then [] else [''..'']) ps
         | q # qs \<Rightarrow> if q = ''..'' then clean_parts rooted (''..'' # acc) ps
                     else clean_parts rooted qs ps)
      else clean_parts rooted (p # acc) ps)"

definition path_clean :: "string \<Rightarrow> string" where
  "path_clean s =
     (if s = '''' then ''.''
      else let rooted = (hd s = CHR ''/'');
               parts = rev (clean_parts rooted [] (split_on (CHR ''/'') s));
               body = join_with ''/'' parts
           in if rooted then ''/'' @ body else if body = '''' then ''.'' else body)"

definition path_join :: "string list \<Rightarrow> string" where
  "path_join elems =
     (case filter (\<lambda>e. e \<noteq> '''') elems of
        [] \<Rightarrow> ''''
      | es \<Rightarrow> path_clean (join_with ''/'' es))"

definition path_is_abs :: "string \<Rightarrow> bool" where
  "path_is_abs p \<longleftrightarrow> has_prefix p ''/''"

text \<open>\<^verbatim>\<open>Dir\<close>: what precedes the last slash, cleaned.\<close>

definition path_dir :: "string \<Rightarrow> string" where
  "path_dir p = path_clean (rev (dropWhile (\<lambda>c. c \<noteq> CHR ''/'') (rev p)))"

section \<open>Shell patterns\<close>

datatype glob_item =
    GlobChar char
  | GlobAny
  | GlobStar
  | GlobClass bool "(char \<times> char) list"

text \<open>
  \<^verbatim>\<open>getEsc\<close>: one character of a bracket expression, and the rest of the pattern, which must not be
  empty.
\<close>

definition glob_esc :: "string \<Rightarrow> (char \<times> string) option" where
  "glob_esc s =
     (case s of
        [] \<Rightarrow> None
      | c # cs \<Rightarrow>
          if c = CHR ''-'' \<or> c = CHR '']'' then None
          else if c = CHR 0x5C
          then (case cs of d # e # es \<Rightarrow> Some (d, e # es) | _ \<Rightarrow> None)
          else (case cs of e # es \<Rightarrow> Some (c, e # es) | _ \<Rightarrow> None))"

lemma glob_esc_shorter: "glob_esc s = Some (c, rest) \<Longrightarrow> length rest < length s \<and> rest \<noteq> []"
  by (auto simp: glob_esc_def split: list.splits if_splits)

text \<open>The ranges of a bracket expression up to its closing bracket.\<close>

function glob_ranges :: "(char \<times> char) list \<Rightarrow> string \<Rightarrow> ((char \<times> char) list \<times> string) option" where
  "glob_ranges acc s =
     (if acc \<noteq> [] \<and> has_prefix s '']'' then Some (rev acc, tl s)
      else case glob_esc s of
        None \<Rightarrow> None
      | Some (lo, rest) \<Rightarrow>
          if hd rest = CHR ''-''
          then (case glob_esc (tl rest) of
                  None \<Rightarrow> None
                | Some (hi, rest') \<Rightarrow> glob_ranges ((lo, hi) # acc) rest')
          else glob_ranges ((lo, lo) # acc) rest)"
  by pat_completeness auto
termination
proof (relation "measure (\<lambda>(acc, s). length s)", goal_cases)
  case 1
  show ?case by simp
next
  case (2 acc s x lo rest y hi rest')
  then show ?case
    using glob_esc_shorter [of s lo rest] glob_esc_shorter [of "tl rest" hi rest'] by fastforce
next
  case (3 acc s x lo rest)
  then show ?case using glob_esc_shorter [of s lo rest] by auto
qed

declare glob_ranges.simps [simp del]

lemma glob_ranges_shorter: "glob_ranges acc s = Some (rs, rest) \<Longrightarrow> length rest < length s"
proof (induction acc s arbitrary: rs rest rule: glob_ranges.induct)
  case (1 acc s)
  show ?case
  proof (cases "acc \<noteq> [] \<and> has_prefix s '']''")
    case True
    with "1.prems" show ?thesis by (subst (asm) glob_ranges.simps) (cases s; simp)
  next
    case False
    then obtain lo r where e: "glob_esc s = Some (lo, r)"
      using "1.prems" by (subst (asm) glob_ranges.simps) (auto split: option.splits)
    note sh = glob_esc_shorter [OF e]
    show ?thesis
    proof (cases "hd r = CHR ''-''")
      case True
      then obtain hi r' where e': "glob_esc (tl r) = Some (hi, r')"
        and g: "glob_ranges ((lo, hi) # acc) r' = Some (rs, rest)"
        using "1.prems" False e by (subst (asm) glob_ranges.simps) (auto split: option.splits)
      have "length rest < length r'"
        using "1.IH"(1) [OF False e refl True e' refl g] .
      with sh glob_esc_shorter [OF e'] show ?thesis by auto
    next
      case nodash: False
      then have g: "glob_ranges ((lo, lo) # acc) r = Some (rs, rest)"
        using "1.prems" False e by (subst (asm) glob_ranges.simps) (auto split: option.splits)
      have "length rest < length r"
        using "1.IH"(2) [OF False e refl nodash g] .
      with sh show ?thesis by simp
    qed
  qed
qed

text \<open>The items of a pattern; \<open>None\<close> is \<^verbatim>\<open>ErrBadPattern\<close>.\<close>

function glob_parse :: "string \<Rightarrow> glob_item list option" where
  "glob_parse [] = Some []"
| "glob_parse (c # cs) =
     (if c = CHR ''*'' then map_option ((#) GlobStar) (glob_parse cs)
      else if c = CHR ''?'' then map_option ((#) GlobAny) (glob_parse cs)
      else if c = CHR ''['' then
        (let neg = has_prefix cs ''^'' in
         case glob_ranges [] (if neg then tl cs else cs) of
           None \<Rightarrow> None
         | Some (rs, rest) \<Rightarrow> map_option ((#) (GlobClass neg rs)) (glob_parse rest))
      else if c = CHR 0x5C then
        (case cs of [] \<Rightarrow> None | d # ds \<Rightarrow> map_option ((#) (GlobChar d)) (glob_parse ds))
      else map_option ((#) (GlobChar c)) (glob_parse cs))"
  by pat_completeness auto
termination
proof (relation "measure length", goal_cases)
  case (4 c cs neg x rs rest)
  then have "length rest < length (if neg then tl cs else cs)"
    using glob_ranges_shorter by metis
  then show ?case by (cases neg; cases cs) auto
qed auto

definition in_ranges :: "char \<Rightarrow> (char \<times> char) list \<Rightarrow> bool" where
  "in_ranges c rs \<longleftrightarrow> (\<exists>(lo, hi) \<in> set rs. lo \<le> c \<and> c \<le> hi)"

text \<open>Neither \<^verbatim>\<open>*\<close> nor \<^verbatim>\<open>?\<close> matches a slash.\<close>

fun glob_items :: "glob_item list \<Rightarrow> string \<Rightarrow> bool" where
  "glob_items [] s \<longleftrightarrow> s = []"
| "glob_items (GlobStar # items) [] \<longleftrightarrow> glob_items items []"
| "glob_items (GlobStar # items) (c # s) \<longleftrightarrow>
     glob_items items (c # s) \<or> (c \<noteq> CHR ''/'' \<and> glob_items (GlobStar # items) s)"
| "glob_items (GlobAny # items) (c # s) \<longleftrightarrow> c \<noteq> CHR ''/'' \<and> glob_items items s"
| "glob_items (GlobChar d # items) (c # s) \<longleftrightarrow> c = d \<and> glob_items items s"
| "glob_items (GlobClass neg rs # items) (c # s) \<longleftrightarrow>
     in_ranges c rs \<noteq> neg \<and> glob_items items s"
| "glob_items (item # items) [] \<longleftrightarrow> False"

definition glob_match :: "string \<Rightarrow> string \<Rightarrow> bool option" where
  "glob_match pattern name = map_option (\<lambda>items. glob_items items name) (glob_parse pattern)"

text \<open>A pattern without special characters matches exactly itself.\<close>

definition glob_plain :: "string \<Rightarrow> bool" where
  "glob_plain s \<longleftrightarrow> set s \<inter> {CHR ''*'', CHR ''?'', CHR ''['', CHR 0x5C} = {}"

lemma glob_parse_plain: "glob_plain s \<Longrightarrow> glob_parse s = Some (map GlobChar s)"
  by (induction s) (auto simp: glob_plain_def)

lemma glob_items_chars: "glob_items (map GlobChar s) t \<longleftrightarrow> t = s"
proof (induction s arbitrary: t)
  case (Cons c s)
  then show ?case by (cases t) auto
qed simp

lemma glob_match_plain: "glob_plain s \<Longrightarrow> glob_match s t = Some (t = s)"
  by (simp add: glob_match_def glob_parse_plain glob_items_chars)

lemma glob_items_star: "CHR ''/'' \<notin> set s \<Longrightarrow> glob_items [GlobStar] s"
  by (induction s) auto

lemma glob_items_prefix_star:
  "CHR ''/'' \<notin> set t \<Longrightarrow> glob_items (map GlobChar p @ [GlobStar]) (p @ t)"
  by (induction p) (simp_all add: glob_items_star)

end
