(* ===== verification/CompilerMerge.thy ===== *)
theory CompilerMerge
  imports Registry GoPath
begin

text \<open>
  The data of the state compiler and its pure passes: state references
  (\<^verbatim>\<open>src/pkg/state/compiler/ref.go\<close>), the merge of argument lists (\<^verbatim>\<open>merge.go\<close>), the rewriting of
  inverse requisites (\<^verbatim>\<open>requisites.go\<close>) and the parsing of a decoded document
  (\<^verbatim>\<open>parseDirectives\<close> and \<^verbatim>\<open>parseStateData\<close> of \<^verbatim>\<open>compiler.go\<close>).

  Go ranges over a map in an order of its own at every \<^verbatim>\<open>range\<close> statement. Where that order can be
  seen in the result, the model asks an oracle \<open>ro\<close>: \<open>ro ctx keys\<close> is the order in which the \<^verbatim>\<open>range\<close>
  statement that \<open>ctx\<close> identifies (its place in the code and the values of the enclosing loop
  variables) visits \<open>keys\<close>. Where every key is handled on its own the order of the
  association list is used.
\<close>

type_synonym args = "config list"
type_synonym module_map = "(string, args) gomap"
type_synonym mergedStateMap = "(string, module_map) gomap"
type_synonym crange = "string list \<Rightarrow> string list \<Rightarrow> string list"

definition cpermutes :: "crange \<Rightarrow> bool" where
  "cpermutes ro \<longleftrightarrow> (\<forall>ctx xs. mset (ro ctx xs) = mset xs)"

definition ranged :: "crange \<Rightarrow> string list \<Rightarrow> (string, 'v) gomap \<Rightarrow> (string \<times> 'v) list" where
  "ranged ro ctx m = map (\<lambda>k. (k, the (map_of m k))) (ro ctx (m_keys m))"

section \<open>References (ref.go)\<close>

definition ResolveToPath :: "string \<Rightarrow> string \<Rightarrow> string" where
  "ResolveToPath ref statesDir =
     (let parts = split_on (CHR ''.'') ref in
      if length parts = 1 then path_join [statesDir, parts ! 0, ''init.zy'']
      else path_join [statesDir, path_join parts @ ''.zy''])"

section \<open>Merging argument lists (merge.go)\<close>

definition as_list :: "gval \<Rightarrow> gval list" where
  "as_list v = (case v of GList l \<Rightarrow> l | _ \<Rightarrow> [])"

definition merge_key :: "string \<times> gval \<Rightarrow> config \<Rightarrow> config" where
  "merge_key kv baseMap =
     (case kv of (k, v) \<Rightarrow>
        if k \<in> set requisiteKeys
        then (case map_of baseMap k of
                Some existing \<Rightarrow> m_set k (GList (as_list existing @ as_list v)) baseMap
              | None \<Rightarrow> m_set k v baseMap)
        else m_set k v baseMap)"

definition merge_items :: "args \<Rightarrow> config \<Rightarrow> config" where
  "merge_items items baseMap = fold (fold merge_key) items baseMap"

definition mergeArgsList :: "crange \<Rightarrow> string list \<Rightarrow> args \<Rightarrow> args \<Rightarrow> args" where
  "mergeArgsList ro ctx base overlay =
     map (\<lambda>(k, v). [(k, v)]) (ranged ro (''merge'' # ctx) (merge_items overlay (merge_items base [])))"

definition flattenArgsList :: "args \<Rightarrow> config" where
  "flattenArgsList args = fold (fold (\<lambda>(k, v). m_set k v)) args []"

section \<open>Documents (compiler.go)\<close>

fun parse_args :: "string \<Rightarrow> nat \<Rightarrow> gval list \<Rightarrow> args result" where
  "parse_args mdl i [] = Inr []"
| "parse_args mdl i (item # items) =
     (case item of
        GMap argMap \<Rightarrow>
          (case parse_args mdl (Suc i) items of
             Inl e \<Rightarrow> Inl e
           | Inr args \<Rightarrow> Inr (argMap # args))
      | _ \<Rightarrow> Inl (''compiler: module '' @ quote_q mdl @ '': arg '' @ nat_dec i @
                 '': expected map, got '' @ go_type item))"

fun parse_modules :: "config \<Rightarrow> module_map \<Rightarrow> module_map result" where
  "parse_modules [] result = Inr result"
| "parse_modules ((mdl, argsData) # rest) result =
     (case argsData of
        GList argsList \<Rightarrow>
          (case parse_args mdl 0 argsList of
             Inl e \<Rightarrow> Inl e
           | Inr args \<Rightarrow> parse_modules rest (m_set mdl args result))
      | _ \<Rightarrow> Inl (''compiler: module '' @ quote_q mdl @ '': expected list, got '' @ go_type argsData))"

definition parseStateData :: "gval \<Rightarrow> module_map result" where
  "parseStateData data =
     (case data of
        GMap stateMap \<Rightarrow> parse_modules stateMap []
      | _ \<Rightarrow> Inl (''compiler: expected map, got '' @ go_type data))"

fun parse_extends :: "config \<Rightarrow> mergedStateMap \<Rightarrow> mergedStateMap result" where
  "parse_extends [] extends = Inr extends"
| "parse_extends ((stateID, stateData) # rest) extends =
     (case parseStateData stateData of
        Inl e \<Rightarrow> Inl (''compiler: parse extend state '' @ quote_q stateID @ '': '' @ e)
      | Inr parsedState \<Rightarrow> parse_extends rest (m_set stateID parsedState extends))"

record directives =
  di_includes :: "string list"
  di_extends :: mergedStateMap
  di_states :: mergedStateMap

definition include_list :: "gval \<Rightarrow> string list" where
  "include_list v =
     concat (map (\<lambda>item. case item of GStr s \<Rightarrow> [s] | _ \<Rightarrow> []) (as_list v))"

fun parse_doc :: "config \<Rightarrow> directives \<Rightarrow> directives result" where
  "parse_doc [] d = Inr d"
| "parse_doc ((key, val) # rest) d =
     (if key = ''include'' then
        parse_doc rest (d\<lparr>di_includes := di_includes d @ include_list val\<rparr>)
      else if key = ''extend'' then
        (case val of
           GMap extendMap \<Rightarrow>
             (case parse_extends extendMap (di_extends d) of
                Inl e \<Rightarrow> Inl e
              | Inr ext \<Rightarrow> parse_doc rest (d\<lparr>di_extends := ext\<rparr>))
         | _ \<Rightarrow> parse_doc rest d)
      else (case parseStateData val of
              Inl e \<Rightarrow> Inl (''compiler: parse state '' @ quote_q key @ '': '' @ e)
            | Inr parsedState \<Rightarrow> parse_doc rest (d\<lparr>di_states := m_set key parsedState (di_states d)\<rparr>)))"

definition parseDirectives :: "config \<Rightarrow> directives result" where
  "parseDirectives doc = parse_doc doc \<lparr>di_includes = [], di_extends = [], di_states = []\<rparr>"

section \<open>Inverse requisites (requisites.go)\<close>

definition sameStateAlias :: "(string, string) gomap" where
  "sameStateAlias = [(''listen'', ''watch'')]"

definition inSuffix :: string where
  "inSuffix = ''_in''"

definition inverseForward :: "(string, string) gomap" where
  "inverseForward = concat (map (\<lambda>k.
     case cut_suffix k inSuffix of
       None \<Rightarrow> []
     | Some base \<Rightarrow>
         [(k, case map_of sameStateAlias base of Some alias \<Rightarrow> alias | None \<Rightarrow> base)]) compilerKeys)"

definition toAnyList :: "gval \<Rightarrow> gval list" where
  "toAnyList v = (case v of GList t \<Rightarrow> t | GNil \<Rightarrow> [] | t \<Rightarrow> [t])"

definition toAnySlice :: "string list \<Rightarrow> gval list" where
  "toAnySlice ss = map GStr ss"

text \<open>The id is what follows the last colon.\<close>

definition splitRef :: "string \<Rightarrow> (string \<times> string) result" where
  "splitRef ref =
     (if CHR '':'' \<in> set ref
      then let ident = rev (takeWhile (\<lambda>c. c \<noteq> CHR '':'') (rev ref))
           in Inr (ident, take (length ref - Suc (length ident)) ref)
      else Inl (''requisite target '' @ quote_q ref @ '' is not in module:id form''))"

fun inject_args :: "string \<Rightarrow> string list \<Rightarrow> args \<Rightarrow> args option" where
  "inject_args key refs [] = None"
| "inject_args key refs (arg # rest) =
     (case map_of arg key of
        Some existing \<Rightarrow> Some (m_set key (GList (toAnyList existing @ toAnySlice refs)) arg # rest)
      | None \<Rightarrow> map_option ((#) arg) (inject_args key refs rest))"

definition args_of :: "mergedStateMap \<Rightarrow> string \<Rightarrow> string \<Rightarrow> args" where
  "args_of states ident mdl =
     (case map_of states ident of
        None \<Rightarrow> []
      | Some mods \<Rightarrow> (case map_of mods mdl of None \<Rightarrow> [] | Some args \<Rightarrow> args))"

definition set_args :: "string \<Rightarrow> string \<Rightarrow> args \<Rightarrow> mergedStateMap \<Rightarrow> mergedStateMap" where
  "set_args ident mdl args states =
     m_set ident (m_set mdl args (case map_of states ident of None \<Rightarrow> [] | Some mods \<Rightarrow> mods)) states"

definition injectRequisite ::
  "string \<Rightarrow> string \<Rightarrow> string \<Rightarrow> string list \<Rightarrow> mergedStateMap \<Rightarrow> mergedStateMap" where
  "injectRequisite ident mdl key refs states =
     (let argsList = args_of states ident mdl in
      set_args ident mdl
        (case inject_args key refs argsList of
           Some argsList' \<Rightarrow> argsList'
         | None \<Rightarrow> argsList @ [[(key, GList (toAnySlice refs))]]) states)"

text \<open>Step 1: one argument map of the source state, then all of them.\<close>

definition alias_arg ::
  "string \<Rightarrow> string \<Rightarrow> nat \<Rightarrow> string \<times> string \<Rightarrow> mergedStateMap \<Rightarrow> mergedStateMap" where
  "alias_arg ident mdl i ks states =
     (let argsList = args_of states ident mdl in
      case map_of (argsList ! i) (fst ks) of
        None \<Rightarrow> states
      | Some v \<Rightarrow> injectRequisite ident mdl (snd ks) (ParseReqEntries v)
                    (set_args ident mdl (argsList[i := m_del (fst ks) (argsList ! i)]) states))"

definition alias_step :: "crange \<Rightarrow> mergedStateMap \<Rightarrow> mergedStateMap" where
  "alias_step ro states =
     fold (\<lambda>(ident, modules).
       fold (\<lambda>(mdl, argsList).
         fold (\<lambda>i. fold (alias_arg ident mdl i) sameStateAlias) [0..<length argsList])
         (ranged ro [''alias'', ident] modules))
       (ranged ro [''alias''] states) states"

text \<open>Step 2: collect the inverse requisites, drop their keys, inject the forward ones.\<close>

record inv =
  inv_fwdKey :: string
  inv_srcRef :: string
  inv_targets :: "string list"

definition arg_inverse :: "crange \<Rightarrow> string list \<Rightarrow> string \<Rightarrow> config \<Rightarrow> inv list" where
  "arg_inverse ro ctx srcRef arg =
     concat (map (\<lambda>(inKey, fwdKey).
       case map_of arg inKey of
         None \<Rightarrow> []
       | Some v \<Rightarrow> [\<lparr>inv_fwdKey = fwdKey, inv_srcRef = srcRef, inv_targets = ParseReqEntries v\<rparr>])
       (ranged ro ctx inverseForward))"

definition drop_inverse :: "config \<Rightarrow> config" where
  "drop_inverse arg = fold m_del (m_keys inverseForward) arg"

definition collect_args ::
  "crange \<Rightarrow> string \<Rightarrow> (string list \<Rightarrow> string \<Rightarrow> config \<Rightarrow> 'a list) \<Rightarrow> mergedStateMap \<Rightarrow> 'a list" where
  "collect_args ro site f states =
     concat (map (\<lambda>(srcID, modules).
       concat (map (\<lambda>(srcMod, argsList).
         concat (map (\<lambda>i. f [site, srcID, srcMod, nat_dec i] (srcMod @ '':'' @ srcID) (argsList ! i))
           [0..<length argsList]))
         (ranged ro [site, srcID] modules)))
       (ranged ro [site] states))"

definition map_args :: "(config \<Rightarrow> config) \<Rightarrow> mergedStateMap \<Rightarrow> mergedStateMap" where
  "map_args f states = map (\<lambda>(ident, modules). (ident, map (\<lambda>(mdl, args). (mdl, map f args)) modules)) states"

fun inject_all ::
  "string \<Rightarrow> (string \<times> string \<times> string) list \<Rightarrow> mergedStateMap \<Rightarrow> mergedStateMap result" where
  "inject_all what [] states = Inr states"
| "inject_all what ((target, key, srcRef) # rest) states =
     (case splitRef target of
        Inl e \<Rightarrow> Inl (''compiler: '' @ what @ '' '' @ quote_q target @ '': '' @ e)
      | Inr (tID, tMod) \<Rightarrow> inject_all what rest (injectRequisite tID tMod key [srcRef] states))"

definition inverse_step :: "crange \<Rightarrow> mergedStateMap \<Rightarrow> mergedStateMap result" where
  "inverse_step ro states =
     (let pending = collect_args ro ''inverse'' (arg_inverse ro) states in
      inject_all ''inverse requisite''
        (concat (map (\<lambda>p. map (\<lambda>t. (t, inv_fwdKey p, inv_srcRef p)) (inv_targets p)) pending))
        (map_args drop_inverse states))"

text \<open>Step 3: a state with prereq targets runs before them.\<close>

definition arg_prereq :: "string list \<Rightarrow> string \<Rightarrow> config \<Rightarrow> (string \<times> string \<times> string) list" where
  "arg_prereq ctx srcRef arg =
     (case map_of arg ''prereq'' of
        None \<Rightarrow> []
      | Some v \<Rightarrow> map (\<lambda>t. (t, ''require'', srcRef)) (ParseReqEntries v))"

definition prereq_step :: "crange \<Rightarrow> mergedStateMap \<Rightarrow> mergedStateMap result" where
  "prereq_step ro states =
     inject_all ''prereq'' (collect_args ro ''prereq'' arg_prereq states) states"

definition transformRequisites :: "crange \<Rightarrow> mergedStateMap \<Rightarrow> mergedStateMap result" where
  "transformRequisites ro states =
     (case inverse_step ro (alias_step ro states) of
        Inl e \<Rightarrow> Inl e
      | Inr states' \<Rightarrow> prereq_step ro states')"

end
