(* ===== verification/Compiler.thy ===== *)
theory Compiler
  imports CompilerMerge
begin

text \<open>
  The state compiler of \<^verbatim>\<open>src/pkg/state/compiler/compiler.go\<close>, with the top file
  (\<^verbatim>\<open>topfile.go\<close>) and the highstate (\<^verbatim>\<open>highstate.go\<close>).

  Reading a file, rendering its template and decoding its YAML are parameters of the
  configuration record, as are the builders in the registry and the Starlark loader. The includes
  of a file are loaded by recursion; the model gives that recursion a bound \<open>n\<close> on its depth and
  answers \<open>None\<close> when the bound is too small.
\<close>

section \<open>Configuration\<close>

record 'w CompilerConfig =
  cc_StatesDir :: string
  cc_readFile :: "string \<Rightarrow> string result"
  cc_render :: "string \<Rightarrow> string \<Rightarrow> config \<Rightarrow> config \<Rightarrow> string result"
  cc_yaml :: "string \<Rightarrow> config result"
  cc_Registry :: "'w Registry"
  cc_Facts :: config
  cc_Settings :: config
  cc_StarLoader :: "(string \<Rightarrow> 'w Registry \<Rightarrow> nat result \<times> 'w Registry) option"
  cc_Guards :: "'w guard_runner option"

record 'w CompileResult =
  co_States :: "'w State list"
  co_Sources :: "string list"

record parsedFile =
  pf_ref :: string
  pf_includes :: "string list"
  pf_extends :: mergedStateMap
  pf_states :: mergedStateMap

section \<open>Loading\<close>

definition loadAndParse :: "'w CompilerConfig \<Rightarrow> string \<Rightarrow> parsedFile result" where
  "loadAndParse cfg ref =
     (let path = ResolveToPath ref (cc_StatesDir cfg) in
      case cc_readFile cfg path of
        Inl e \<Rightarrow> Inl (''compiler: read '' @ path @ '': '' @ e)
      | Inr content \<Rightarrow>
          (case cc_render cfg path content (cc_Facts cfg) (cc_Settings cfg) of
             Inl e \<Rightarrow> Inl (''compiler: render '' @ path @ '': '' @ e)
           | Inr rendered \<Rightarrow>
               (case cc_yaml cfg rendered of
                  Inl e \<Rightarrow> Inl (''compiler: parse '' @ path @ '': '' @ e)
                | Inr doc \<Rightarrow>
                    (case parseDirectives doc of
                       Inl e \<Rightarrow> Inl (''compiler: parse directives '' @ path @ '': '' @ e)
                     | Inr d \<Rightarrow> Inr \<lparr>pf_ref = ref, pf_includes = di_includes d,
                                     pf_extends = di_extends d, pf_states = di_states d\<rparr>))))"

type_synonym load_state = "(string, parsedFile) gomap \<times> string list"

function (sequential) load_ref ::
    "'w CompilerConfig \<Rightarrow> nat \<Rightarrow> string \<Rightarrow> string list \<Rightarrow> load_state \<Rightarrow> load_state result option"
  and load_refs ::
    "'w CompilerConfig \<Rightarrow> nat \<Rightarrow> string list \<Rightarrow> string list \<Rightarrow> load_state \<Rightarrow> load_state result option" where
  "load_ref cfg 0 ref loadStack st = None"
| "load_ref cfg (Suc n) ref loadStack st =
     (if ref \<in> set loadStack
      then Some (Inl (''compiler: include cycle detected: ['' @
                      join_with '' '' (loadStack @ [ref]) @ '']''))
      else if map_of (fst st) ref \<noteq> None then Some (Inr st)
      else (case loadAndParse cfg ref of
              Inl e \<Rightarrow> Some (Inl e)
            | Inr parsed \<Rightarrow>
                load_refs cfg n (pf_includes parsed) (loadStack @ [ref])
                  (m_set ref parsed (fst st), snd st @ [ResolveToPath ref (cc_StatesDir cfg)])))"
| "load_refs cfg n [] loadStack st = Some (Inr st)"
| "load_refs cfg n (ref # refs) loadStack st =
     (case load_ref cfg n ref loadStack st of
        None \<Rightarrow> None
      | Some (Inl e) \<Rightarrow> Some (Inl e)
      | Some (Inr st') \<Rightarrow> load_refs cfg n refs loadStack st')"
  by pat_completeness auto
termination
  by (relation "measures [\<lambda>x. case x of Inl (cfg, n, _) \<Rightarrow> n | Inr (cfg, n, _) \<Rightarrow> n,
      \<lambda>x. case x of Inl _ \<Rightarrow> 0 | Inr (cfg, n, refs, _) \<Rightarrow> length refs]") auto

section \<open>Merging the files\<close>

definition merge_module :: "crange \<Rightarrow> string list \<Rightarrow> string \<times> args \<Rightarrow> module_map \<Rightarrow> module_map" where
  "merge_module ro ctx ma existing =
     (case map_of existing (fst ma) of
        Some baseArgs \<Rightarrow> m_set (fst ma) (mergeArgsList ro (ctx @ [fst ma]) baseArgs (snd ma)) existing
      | None \<Rightarrow> m_set (fst ma) (snd ma) existing)"

definition merge_modules :: "crange \<Rightarrow> string list \<Rightarrow> module_map \<Rightarrow> module_map \<Rightarrow> module_map" where
  "merge_modules ro ctx new existing = fold (merge_module ro ctx) new existing"

text \<open>
  The first pass keeps, besides the merged map, the path whose module map an id shares: the first
  file that declares an id puts its own map into the merged map, so later merges change that file's
  map too. This is visible when two references resolve to one path, which is then visited twice.
\<close>

definition merge_state ::
  "crange \<Rightarrow> string list \<Rightarrow> string \<Rightarrow> string \<times> module_map
    \<Rightarrow> mergedStateMap \<times> (string, string) gomap \<Rightarrow> mergedStateMap \<times> (string, string) gomap" where
  "merge_state ro ctx srcPath sd mo =
     (case mo of (merged, owner) \<Rightarrow>
        (case map_of merged (fst sd) of
           None \<Rightarrow> (m_set (fst sd) (snd sd) merged, m_set (fst sd) srcPath owner)
         | Some existing \<Rightarrow>
             (let stateData = (if map_of owner (fst sd) = Some srcPath then existing else snd sd)
              in (m_set (fst sd) (merge_modules ro (ctx @ [fst sd]) stateData existing) merged, owner))))"

fun first_pass ::
  "crange \<Rightarrow> nat \<Rightarrow> (string, parsedFile) gomap \<Rightarrow> string list
    \<Rightarrow> mergedStateMap \<times> (string, string) gomap \<Rightarrow> mergedStateMap" where
  "first_pass ro i refByPath [] mo = fst mo"
| "first_pass ro i refByPath (srcPath # sources) mo =
     (case map_of refByPath srcPath of
        None \<Rightarrow> first_pass ro (Suc i) refByPath sources mo
      | Some parsed \<Rightarrow>
          first_pass ro (Suc i) refByPath sources
            (fold (merge_state ro [''states'', nat_dec i] srcPath) (pf_states parsed) mo))"

fun apply_extends ::
  "crange \<Rightarrow> string list \<Rightarrow> (string \<times> module_map) list \<Rightarrow> mergedStateMap \<Rightarrow> mergedStateMap result" where
  "apply_extends ro ctx [] merged = Inr merged"
| "apply_extends ro ctx ((stateID, extendData) # rest) merged =
     (case map_of merged stateID of
        None \<Rightarrow> Inl (''compiler: extend: state '' @ quote_q stateID @ '' not found in included files'')
      | Some baseState \<Rightarrow>
          apply_extends ro ctx rest
            (m_set stateID (merge_modules ro (ctx @ [stateID]) extendData baseState) merged))"

fun second_pass ::
  "crange \<Rightarrow> nat \<Rightarrow> (string, parsedFile) gomap \<Rightarrow> string list \<Rightarrow> mergedStateMap \<Rightarrow> mergedStateMap result" where
  "second_pass ro i refByPath [] merged = Inr merged"
| "second_pass ro i refByPath (srcPath # sources) merged =
     (case map_of refByPath srcPath of
        None \<Rightarrow> second_pass ro (Suc i) refByPath sources merged
      | Some parsed \<Rightarrow>
          (let ctx = [''extends'', nat_dec i] in
           case apply_extends ro ctx (ranged ro ctx (pf_extends parsed)) merged of
             Inl e \<Rightarrow> Inl e
           | Inr merged' \<Rightarrow> second_pass ro (Suc i) refByPath sources merged'))"

definition ref_by_path ::
  "crange \<Rightarrow> string \<Rightarrow> (string, parsedFile) gomap \<Rightarrow> (string, parsedFile) gomap" where
  "ref_by_path ro statesDir loaded =
     fold (\<lambda>(ref, parsed). m_set (ResolveToPath (pf_ref parsed) statesDir) parsed)
       (ranged ro [''loaded''] loaded) []"

section \<open>Building\<close>

definition buildOne ::
  "'w Registry \<Rightarrow> 'w guard_runner option \<Rightarrow> string \<Rightarrow> string \<Rightarrow> config \<Rightarrow> 'w State result" where
  "buildOne reg guards mdl ident c =
     (case Build reg mdl ident c of
        Inl e \<Rightarrow> Inl e
      | Inr s \<Rightarrow> Inr (WrapAttributes s (ParseStateAttributes c) guards))"

fun first_primary :: "ParamInfo list \<Rightarrow> ParamInfo option" where
  "first_primary [] = None"
| "first_primary (f # fs) = (if fi_Primary f then Some f else first_primary fs)"

definition namesInjectKey :: "'w Registry \<Rightarrow> string \<Rightarrow> string \<times> string list" where
  "namesInjectKey reg mdl =
     (case Describe reg mdl of
        None \<Rightarrow> (''name'', [])
      | Some info \<Rightarrow>
          if mi_OpenParams info then (''name'', [])
          else (case first_primary (mi_Params info) of
                  Some f \<Rightarrow> (fi_Name f, fi_Aliases f)
                | None \<Rightarrow> (''name'', [])))"

fun derive_names_key :: "string list \<Rightarrow> string" where
  "derive_names_key [] = ''''"
| "derive_names_key (k # ks) =
     (if has_suffix k inSuffix then derive_names_key ks
      else if map_of sameStateAlias k \<noteq> None then derive_names_key ks
      else k)"

definition namesKey :: string where
  "namesKey = derive_names_key compilerKeys"

definition expandNames :: "config \<Rightarrow> string list option" where
  "expandNames cfg =
     (case map_of cfg namesKey of
        None \<Rightarrow> None
      | Some v \<Rightarrow> (let names = ParseNameList v in if names = [] then None else Some names))"

definition name_instance :: "string \<Rightarrow> string list \<Rightarrow> config \<Rightarrow> string \<Rightarrow> config" where
  "name_instance injectKey injectAliases c name =
     m_set injectKey (GStr name) (fold m_del injectAliases (m_del injectKey (m_del namesKey c)))"

fun build_names ::
  "'w Registry \<Rightarrow> 'w guard_runner option \<Rightarrow> string \<Rightarrow> string \<Rightarrow> string \<times> string list \<Rightarrow> config
    \<Rightarrow> string list \<Rightarrow> 'w State list result" where
  "build_names reg guards stateID mdl key c [] = Inr []"
| "build_names reg guards stateID mdl key c (name # names) =
     (case buildOne reg guards mdl name (name_instance (fst key) (snd key) c name) of
        Inl e \<Rightarrow> Inl (''compiler: build state '' @ quote_q stateID @ '' ('' @ mdl @ '', name='' @ name @
                      ''): '' @ e)
      | Inr s \<Rightarrow> map_sum id ((#) s) (build_names reg guards stateID mdl key c names))"

definition build_module ::
  "'w Registry \<Rightarrow> 'w guard_runner option \<Rightarrow> string \<Rightarrow> string \<times> args \<Rightarrow> 'w State list result" where
  "build_module reg guards stateID ma =
     (let c = flattenArgsList (snd ma) in
      case expandNames c of
        Some names \<Rightarrow> build_names reg guards stateID (fst ma) (namesInjectKey reg (fst ma)) c names
      | None \<Rightarrow>
          (case buildOne reg guards (fst ma) stateID c of
             Inl e \<Rightarrow> Inl (''compiler: build state '' @ quote_q stateID @ '' ('' @ fst ma @ ''): '' @ e)
           | Inr s \<Rightarrow> Inr [s]))"

fun build_list :: "('a \<Rightarrow> 'b list result) \<Rightarrow> 'a list \<Rightarrow> 'b list result" where
  "build_list f [] = Inr []"
| "build_list f (x # xs) =
     (case f x of
        Inl e \<Rightarrow> Inl e
      | Inr ys \<Rightarrow> map_sum id ((@) ys) (build_list f xs))"

definition build_states ::
  "crange \<Rightarrow> 'w Registry \<Rightarrow> 'w guard_runner option \<Rightarrow> mergedStateMap \<Rightarrow> 'w State list result" where
  "build_states ro reg guards merged =
     build_list (\<lambda>(stateID, stateData).
       build_list (build_module reg guards stateID) (ranged ro [''build'', stateID] stateData))
       (ranged ro [''build''] merged)"

fun unique_dirs :: "string \<Rightarrow> string list \<Rightarrow> string list \<Rightarrow> string list" where
  "unique_dirs statesDir dirs [] = (if statesDir \<in> set dirs then dirs else dirs @ [statesDir])"
| "unique_dirs statesDir dirs (src # sources) =
     (let dir = (if path_is_abs src then path_dir src else path_dir (path_join [statesDir, src])) in
      unique_dirs statesDir (if dir \<in> set dirs then dirs else dirs @ [dir]) sources)"

definition uniqueParentDirs :: "string list \<Rightarrow> string \<Rightarrow> string list" where
  "uniqueParentDirs sources statesDir = unique_dirs statesDir [] sources"

definition load_star :: "'w CompilerConfig \<Rightarrow> string list \<Rightarrow> 'w Registry" where
  "load_star cfg sources =
     (case cc_StarLoader cfg of
        None \<Rightarrow> cc_Registry cfg
      | Some load \<Rightarrow>
          fold (\<lambda>dir reg. snd (load dir reg)) (uniqueParentDirs sources (cc_StatesDir cfg)) (cc_Registry cfg))"

definition merge_files ::
  "crange \<Rightarrow> 'w CompilerConfig \<Rightarrow> load_state \<Rightarrow> mergedStateMap result" where
  "merge_files ro cfg st =
     (let (loaded, sources) = st;
          refByPath = ref_by_path ro (cc_StatesDir cfg) loaded
      in second_pass ro 0 refByPath sources (first_pass ro 0 refByPath sources ([], [])))"

definition compile_loaded ::
  "crange \<Rightarrow> 'w CompilerConfig \<Rightarrow> load_state \<Rightarrow> 'w CompileResult result" where
  "compile_loaded ro cfg st =
     (case merge_files ro cfg st of
        Inl e \<Rightarrow> Inl e
      | Inr merged \<Rightarrow>
          (case transformRequisites ro merged of
             Inl e \<Rightarrow> Inl e
           | Inr merged' \<Rightarrow>
               (case build_states ro (load_star cfg (snd st)) (cc_Guards cfg) merged' of
                  Inl e \<Rightarrow> Inl e
                | Inr states \<Rightarrow> Inr \<lparr>co_States = states, co_Sources = snd st\<rparr>)))"

definition CompileMultiple ::
  "crange \<Rightarrow> 'w CompilerConfig \<Rightarrow> nat \<Rightarrow> string list \<Rightarrow> 'w CompileResult result option" where
  "CompileMultiple ro cfg n refs =
     (case load_refs cfg n refs [] ([], []) of
        None \<Rightarrow> None
      | Some (Inl e) \<Rightarrow> Some (Inl e)
      | Some (Inr st) \<Rightarrow> Some (compile_loaded ro cfg st))"

definition Compile ::
  "crange \<Rightarrow> 'w CompilerConfig \<Rightarrow> nat \<Rightarrow> string \<Rightarrow> 'w CompileResult result option" where
  "Compile ro cfg n ref = CompileMultiple ro cfg n [ref]"

section \<open>Top file and highstate\<close>

text \<open>The YAML node tree that the top file parser walks, as far as it looks into it.\<close>

datatype yaml_node =
    YScalar string
  | YMapping "(yaml_node \<times> yaml_node) list"
  | YSequence "yaml_node list"
  | YAlias string

fun node_value :: "yaml_node \<Rightarrow> string" where
  "node_value (YScalar s) = s"
| "node_value (YAlias anchor) = anchor"
| "node_value _ = ''''"

record StateTargetEntry =
  te_Pattern :: string
  te_StateRefs :: "string list"

record StateEnvironment =
  se_Name :: string
  se_Entries :: "StateTargetEntry list"

definition parse_entry :: "yaml_node \<times> yaml_node \<Rightarrow> StateTargetEntry" where
  "parse_entry kv =
     \<lparr>te_Pattern = node_value (fst kv),
      te_StateRefs = (case snd kv of YSequence items \<Rightarrow> map node_value items | _ \<Rightarrow> [])\<rparr>"

definition parse_environment :: "yaml_node \<times> yaml_node \<Rightarrow> StateEnvironment" where
  "parse_environment kv =
     \<lparr>se_Name = node_value (fst kv),
      se_Entries = (case snd kv of YMapping kvs \<Rightarrow> map parse_entry kvs | _ \<Rightarrow> [])\<rparr>"

definition ParseStateTopFile :: "(string \<Rightarrow> yaml_node option result) \<Rightarrow> string \<Rightarrow> StateEnvironment list result" where
  "ParseStateTopFile yaml_tree data =
     (case yaml_tree data of
        Inl e \<Rightarrow> Inl (''compiler: parse state top file: '' @ e)
      | Inr doc \<Rightarrow>
          Inr (case doc of Some (YMapping kvs) \<Rightarrow> map parse_environment kvs | _ \<Rightarrow> []))"

definition LoadStateTopFile ::
  "'w CompilerConfig \<Rightarrow> (string \<Rightarrow> yaml_node option result) \<Rightarrow> StateEnvironment list result" where
  "LoadStateTopFile cfg yaml_tree =
     (let path = path_join [cc_StatesDir cfg, ''top.zy''] in
      case cc_readFile cfg path of
        Inl e \<Rightarrow> Inl (''compiler: read state top file: '' @ e)
      | Inr content \<Rightarrow>
          (case cc_render cfg path content (cc_Facts cfg) (cc_Settings cfg) of
             Inl e \<Rightarrow> Inl (''compiler: render state top file: '' @ e)
           | Inr rendered \<Rightarrow> ParseStateTopFile yaml_tree rendered))"

text \<open>\<^verbatim>\<open>strings.SplitN(pattern, ":", 2)\<close>: the text before and after the first colon.\<close>

definition split_colon :: "string \<Rightarrow> (string \<times> string) option" where
  "split_colon s =
     (if CHR '':'' \<in> set s
      then Some (takeWhile (\<lambda>c. c \<noteq> CHR '':'') s, tl (dropWhile (\<lambda>c. c \<noteq> CHR '':'') s))
      else None)"

definition SimpleMatch :: "string \<Rightarrow> string \<Rightarrow> config \<Rightarrow> bool" where
  "SimpleMatch pattern peelID facts =
     (if pattern = ''*'' then True
      else case split_colon pattern of
        Some (key, val) \<Rightarrow>
          (case map_of facts key of
             Some factVal \<Rightarrow> sprint_v factVal = val
           | None \<Rightarrow> False)
      | None \<Rightarrow> (case glob_match pattern peelID of None \<Rightarrow> False | Some b \<Rightarrow> b))"

fun add_refs :: "string list \<Rightarrow> string list \<Rightarrow> string list" where
  "add_refs refs [] = refs"
| "add_refs refs (r # rs) = add_refs (if r \<in> set refs then refs else refs @ [r]) rs"

definition ResolveForPeel ::
  "(string \<Rightarrow> string \<Rightarrow> config \<Rightarrow> bool) \<Rightarrow> StateEnvironment list \<Rightarrow> string \<Rightarrow> config \<Rightarrow> string list" where
  "ResolveForPeel matches envs peelID facts =
     fold (\<lambda>env. fold (\<lambda>entry refs.
       if matches (te_Pattern entry) peelID facts then add_refs refs (te_StateRefs entry) else refs)
       (se_Entries env)) envs []"

definition Highstate ::
  "crange \<Rightarrow> 'w CompilerConfig \<Rightarrow> (string \<Rightarrow> yaml_node option result) \<Rightarrow> nat \<Rightarrow> string
    \<Rightarrow> 'w CompileResult result option" where
  "Highstate ro cfg yaml_tree n peelID =
     (case LoadStateTopFile cfg yaml_tree of
        Inl e \<Rightarrow> Some (Inl e)
      | Inr envs \<Rightarrow>
          (let refs = ResolveForPeel SimpleMatch envs peelID (cc_Facts cfg) in
           if refs = [] then Some (Inr \<lparr>co_States = [], co_Sources = []\<rparr>)
           else CompileMultiple ro cfg n refs))"

end
