(* ===== verification/CompilerLoad.thy ===== *)
theory CompilerLoad
  imports Compiler
begin

text \<open>
  Loading of state files (\<^verbatim>\<open>loadRecursive\<close> of \<^verbatim>\<open>src/pkg/state/compiler/compiler.go\<close>): the include
  relation between references, the invariant of the depth-first search, that the recursion ends when
  finitely many references are reachable, and what success and failure mean.
\<close>

definition includes_rel :: "'w CompilerConfig \<Rightarrow> (string \<times> string) set" where
  "includes_rel cfg = {(a, b). \<exists>p. loadAndParse cfg a = Inr p \<and> b \<in> set (pf_includes p)}"

lemma includes_relI:
  "loadAndParse cfg a = Inr p \<Longrightarrow> b \<in> set (pf_includes p) \<Longrightarrow> (a, b) \<in> includes_rel cfg"
  by (auto simp: includes_rel_def)

lemma includes_rel_Image: "loadAndParse cfg a = Inr p \<Longrightarrow> includes_rel cfg `` {a} = set (pf_includes p)"
  by (auto simp: includes_rel_def)

section \<open>Enough depth\<close>

lemma load_returns:
  assumes "finite R"
  shows "\<lbrakk>includes_rel cfg `` R \<subseteq> R; ref \<in> R; distinct stack; set stack \<subseteq> R; card R < n + length stack\<rbrakk>
      \<Longrightarrow> load_ref cfg n ref stack st \<noteq> None"
    and "\<lbrakk>includes_rel cfg `` R \<subseteq> R; set refs \<subseteq> R; distinct stack; set stack \<subseteq> R; card R < n + length stack\<rbrakk>
      \<Longrightarrow> load_refs cfg n refs stack st \<noteq> None"
proof (induction cfg n ref stack st and cfg n refs stack st rule: load_ref_load_refs.induct)
  case (1 cfg ref stack st)
  then show ?case using card_mono [OF assms "1.prems"(4)] distinct_card [OF "1.prems"(3)] by simp
next
  case (2 cfg n ref stack st)
  show ?case
  proof (cases "loadAndParse cfg ref")
    case (Inr p)
    have "set (pf_includes p) \<subseteq> R"
      using "2.prems"(1,2) includes_rel_Image [OF Inr] by blast
    then show ?thesis using "2.IH" [OF _ _ Inr] "2.prems" by (auto simp: Inr)
  qed auto
next
  case (4 cfg n ref refs stack st)
  then show ?case by (auto split: option.splits sum.splits)
qed auto

section \<open>The depth-first search\<close>

text \<open>
  The references that are loaded and no longer on the stack are finished: their includes are
  finished too, and among them there is no cycle.
\<close>

definition load_inv :: "'w CompilerConfig \<Rightarrow> string set \<Rightarrow> string list \<Rightarrow> load_state \<Rightarrow> bool" where
  "load_inv cfg R stack st \<longleftrightarrow>
     (let keys = m_keys (fst st); fin = set keys - set stack in
      distinct keys \<and> set stack \<subseteq> set keys \<and> set keys \<subseteq> R \<and>
      (\<forall>ref p. map_of (fst st) ref = Some p \<longrightarrow> loadAndParse cfg ref = Inr p) \<and>
      snd st = map (\<lambda>ref. ResolveToPath ref (cc_StatesDir cfg)) keys \<and>
      includes_rel cfg `` fin \<subseteq> fin \<and> acyclic (Restr (includes_rel cfg) fin))"

lemma closed_trancl: "(x, y) \<in> r\<^sup>+ \<Longrightarrow> x \<in> F \<Longrightarrow> r `` F \<subseteq> F \<Longrightarrow> (x, y) \<in> (Restr r F)\<^sup>+ \<and> y \<in> F"
  by (induction rule: trancl_induct) (auto intro: trancl.trancl_into_trancl)

lemma acyclic_insert:
  assumes "acyclic (Restr r F)" "r `` F \<subseteq> F" "a \<notin> F" "r `` {a} \<subseteq> F"
  shows "acyclic (Restr r (insert a F))"
proof (rule acyclicI, rule allI, rule notI)
  fix x
  assume "(x, x) \<in> (Restr r (insert a F))\<^sup>+"
  then have cyc: "(x, x) \<in> r\<^sup>+" and x: "x \<in> insert a F"
    by (auto intro: trancl_mono dest: tranclD)
  show False
  proof (cases "x \<in> F")
    case True
    then show False using closed_trancl [OF cyc True assms(2)] assms(1) by (auto simp: acyclic_def)
  next
    case False
    then have "x = a" using x by simp
    then obtain b where b: "(a, b) \<in> r" "(b, a) \<in> r\<^sup>*" using tranclD [OF cyc] by blast
    then have "b \<in> F" using assms(4) by blast
    then have "a \<in> F" using b(2) assms(2,3) closed_trancl [of b a r F] by (auto simp: rtrancl_eq_or_trancl)
    then show False using assms(3) by simp
  qed
qed


lemma keys_fresh: "map_of m k = None \<Longrightarrow> m_keys (m_set k v m) = m_keys m @ [k]"
  by (induction m) (auto split: if_splits)

lemma load_inv_push:
  assumes inv: "load_inv cfg R stack st" and new: "map_of (fst st) ref = None"
    and "ref \<in> R" and p: "loadAndParse cfg ref = Inr p"
  shows "load_inv cfg R (stack @ [ref])
    (m_set ref p (fst st), snd st @ [ResolveToPath ref (cc_StatesDir cfg)])"
proof -
  have notin: "ref \<notin> set (m_keys (fst st))" using new by (simp add: map_of_eq_None_iff)
  then have "set (m_keys (fst st) @ [ref]) - set (stack @ [ref]) = set (m_keys (fst st)) - set stack"
    by auto
  then show ?thesis
    using inv notin assms(3) p
    by (auto simp: load_inv_def Let_def keys_fresh [OF new] map_of_m_set)
qed

lemma load_inv_pop:
  assumes inv: "load_inv cfg R (stack @ [ref]) st" and "ref \<notin> set stack"
    and inc: "includes_rel cfg `` {ref} \<subseteq> set (m_keys (fst st)) - set (stack @ [ref])"
  shows "load_inv cfg R stack st \<and> ref \<in> set (m_keys (fst st)) - set stack"
proof -
  let ?F = "set (m_keys (fst st)) - set (stack @ [ref])"
  have mem: "ref \<in> set (m_keys (fst st)) - set stack" using assms by (auto simp: load_inv_def Let_def)
  then have eq: "set (m_keys (fst st)) - set stack = insert ref ?F" using assms(2) by auto
  have F: "includes_rel cfg `` ?F \<subseteq> ?F" "acyclic (Restr (includes_rel cfg) ?F)"
    using inv by (simp_all add: load_inv_def Let_def)
  have "acyclic (Restr (includes_rel cfg) (insert ref ?F))"
    by (rule acyclic_insert [OF F(2,1) _ inc]) simp
  moreover have "includes_rel cfg `` insert ref ?F \<subseteq> insert ref ?F" using F(1) inc by blast
  ultimately show ?thesis
    using inv mem unfolding load_inv_def Let_def eq by auto
qed

definition load_bad :: "'w CompilerConfig \<Rightarrow> string set \<Rightarrow> bool" where
  "load_bad cfg R \<longleftrightarrow> (\<exists>r \<in> R. isl (loadAndParse cfg r) \<or> (r, r) \<in> (includes_rel cfg)\<^sup>+)"

definition load_post ::
  "'w CompilerConfig \<Rightarrow> string set \<Rightarrow> string list \<Rightarrow> string set \<Rightarrow> load_state \<Rightarrow> load_state result \<Rightarrow> bool" where
  "load_post cfg R stack refs st res \<longleftrightarrow>
     (case res of
        Inl e \<Rightarrow> load_bad cfg R
      | Inr st' \<Rightarrow> load_inv cfg R stack st' \<and> refs \<subseteq> set (m_keys (fst st')) - set stack \<and>
          set (m_keys (fst st)) \<subseteq> set (m_keys (fst st')))"

lemma load_correct:
  shows "\<lbrakk>load_ref cfg n ref stack st = Some res; load_inv cfg R stack st; includes_rel cfg `` R \<subseteq> R;
      ref \<in> R; \<forall>s \<in> set stack. (s, ref) \<in> (includes_rel cfg)\<^sup>+\<rbrakk> \<Longrightarrow> load_post cfg R stack {ref} st res"
    and "\<lbrakk>load_refs cfg n refs stack st = Some res; load_inv cfg R stack st; includes_rel cfg `` R \<subseteq> R;
      set refs \<subseteq> R; \<forall>s \<in> set stack. \<forall>r \<in> set refs. (s, r) \<in> (includes_rel cfg)\<^sup>+\<rbrakk>
      \<Longrightarrow> load_post cfg R stack (set refs) st res"
proof (induction cfg n ref stack st and cfg n refs stack st arbitrary: res and res
    rule: load_ref_load_refs.induct)
  case (2 cfg n ref stack st)
  note prems = "2.prems"
  consider (cycle) "ref \<in> set stack"
    | (old) "ref \<notin> set stack" "map_of (fst st) ref \<noteq> None"
    | (bad) e where "ref \<notin> set stack" "map_of (fst st) ref = None" "loadAndParse cfg ref = Inl e"
    | (new) p where "ref \<notin> set stack" "map_of (fst st) ref = None" "loadAndParse cfg ref = Inr p"
    by (cases "loadAndParse cfg ref") auto
  then show ?case
  proof cases
    case cycle
    then have "load_bad cfg R" using prems(4,5) unfolding load_bad_def by blast
    then show ?thesis using prems(1) cycle by (auto simp: load_post_def)
  next
    case old
    then have "ref \<in> set (m_keys (fst st))" by (metis map_of_eq_None_iff set_map)
    then show ?thesis using old prems(1,2) by (auto simp: load_post_def simp del: set_map)
  next
    case bad
    then show ?thesis using prems by (force simp: load_post_def load_bad_def)
  next
    case new
    let ?st = "(m_set ref p (fst st), snd st @ [ResolveToPath ref (cc_StatesDir cfg)])"
    have inc: "includes_rel cfg `` {ref} = set (pf_includes p)" by (rule includes_rel_Image [OF new(3)])
    have run: "load_refs cfg n (pf_includes p) (stack @ [ref]) ?st = Some res"
      using prems(1) new by simp
    have path: "\<forall>s \<in> set (stack @ [ref]). \<forall>r \<in> set (pf_includes p). (s, r) \<in> (includes_rel cfg)\<^sup>+"
      using prems(5) inc by (auto intro: trancl_into_trancl)
    have "load_post cfg R (stack @ [ref]) (set (pf_includes p)) ?st res"
      using "2.IH" [OF new(1) _ new(3) run load_inv_push [OF prems(2) new(2) prems(4) new(3)] prems(3) _ path]
        new(2) prems(3,4) inc by blast
    then show ?thesis
    proof (cases res)
      case (Inr st')
      assume "load_post cfg R (stack @ [ref]) (set (pf_includes p)) ?st res"
      then have post: "load_inv cfg R (stack @ [ref]) st'"
          "includes_rel cfg `` {ref} \<subseteq> set (m_keys (fst st')) - set (stack @ [ref])"
          "set (m_keys (fst st)) \<subseteq> set (m_keys (fst st'))"
        unfolding load_post_def Inr sum.case inc fst_conv m_keys_m_set by blast+
      show ?thesis
        using load_inv_pop [OF post(1) new(1) post(2)] post(3)
        unfolding load_post_def Inr sum.case by blast
    qed (simp add: load_post_def)
  qed
next
  case (4 cfg n ref refs stack st)
  from "4.prems"(1) obtain r1 where r1: "load_ref cfg n ref stack st = Some r1"
    by (auto split: option.splits)
  have p1: "load_post cfg R stack {ref} st r1"
    using "4.IH"(1) [OF r1] "4.prems"(2-5) by simp
  show ?case
  proof (cases r1)
    case (Inl e)
    then show ?thesis using p1 r1 "4.prems"(1) by (auto simp: load_post_def)
  next
    case (Inr st1)
    then have run: "load_refs cfg n refs stack st1 = Some res" using r1 "4.prems"(1) by simp
    have "load_post cfg R stack (set refs) st1 res"
      using "4.IH"(2) [OF r1 Inr run] p1 "4.prems"(3-5) Inr by (simp add: load_post_def)
    then show ?thesis
      using p1 unfolding load_post_def Inr sum.case list.set by (cases res) (simp_all del: set_map, blast)
  qed
qed (auto simp: load_post_def)


lemma load_mono:
  shows "\<lbrakk>load_ref cfg n ref stack st = Some res; n \<le> m\<rbrakk> \<Longrightarrow> load_ref cfg m ref stack st = Some res"
    and "\<lbrakk>load_refs cfg n refs stack st = Some res; n \<le> m\<rbrakk> \<Longrightarrow> load_refs cfg m refs stack st = Some res"
proof (induction cfg n ref stack st and cfg n refs stack st arbitrary: res m and res m
    rule: load_ref_load_refs.induct)
  case (2 cfg n ref stack st)
  then obtain m' where m: "m = Suc m'" "n \<le> m'" by (metis Suc_le_D Suc_le_mono)
  show ?case
  proof (cases "ref \<in> set stack \<or> map_of (fst st) ref \<noteq> None")
    case True
    then show ?thesis using "2.prems"(1) m(1) by (auto split: if_splits)
  next
    case False
    show ?thesis
    proof (cases "loadAndParse cfg ref")
      case (Inl e)
      then show ?thesis using "2.prems"(1) False m(1) by simp
    next
      case (Inr p)
      then show ?thesis
        using "2.prems"(1) "2.IH" [OF _ _ Inr _ m(2)] False unfolding m(1) by simp
    qed
  qed
next
  case (4 cfg n ref refs stack st)
  obtain r1 where r1: "load_ref cfg n ref stack st = Some r1"
    using "4.prems"(1) by (cases "load_ref cfg n ref stack st") simp_all
  note m = "4.IH"(1) [OF r1 "4.prems"(2)]
  show ?case
  proof (cases r1)
    case (Inl e)
    then show ?thesis using "4.prems"(1) r1 m by auto
  next
    case (Inr st')
    then show ?thesis using "4.prems"(1) "4.IH"(2) [OF r1 Inr _ "4.prems"(2)] r1 m by simp
  qed
qed auto

section \<open>Loading as a whole\<close>

definition reach :: "'w CompilerConfig \<Rightarrow> string list \<Rightarrow> string set" where
  "reach cfg refs = (includes_rel cfg)\<^sup>* `` set refs"

lemma reach_closed: "includes_rel cfg `` reach cfg refs \<subseteq> reach cfg refs" "set refs \<subseteq> reach cfg refs"
  by (auto simp: reach_def intro: rtrancl_into_rtrancl)

lemma reach_least: "set refs \<subseteq> F \<Longrightarrow> includes_rel cfg `` F \<subseteq> F \<Longrightarrow> reach cfg refs \<subseteq> F"
  unfolding reach_def by (metis Image_closed_trancl Image_mono order_refl)

lemma load_empty: "load_inv cfg R [] ([], [])"
  by (simp add: load_inv_def acyclic_def)

lemma load_all:
  assumes "load_refs cfg n refs [] ([], []) = Some res"
  shows "load_post cfg (reach cfg refs) [] (set refs) ([], []) res"
  by (rule load_correct(2) [OF assms load_empty reach_closed]) simp

lemma load_success:
  assumes "load_refs cfg n refs [] ([], []) = Some (Inr (loaded, sources))"
  shows "set (m_keys loaded) = reach cfg refs" "distinct (m_keys loaded)"
    and "\<And>r p. map_of loaded r = Some p \<Longrightarrow> loadAndParse cfg r = Inr p"
    and "sources = map (\<lambda>r. ResolveToPath r (cc_StatesDir cfg)) (m_keys loaded)"
    and "acyclic (Restr (includes_rel cfg) (reach cfg refs))"
proof -
  note post = load_all [OF assms, unfolded load_post_def, simplified]
  have inv: "load_inv cfg (reach cfg refs) [] (loaded, sources)" and sub: "set refs \<subseteq> set (m_keys loaded)"
    using post by auto
  have "includes_rel cfg `` set (m_keys loaded) \<subseteq> set (m_keys loaded)"
    using inv by (simp add: load_inv_def Let_def)
  moreover have "set (m_keys loaded) \<subseteq> reach cfg refs" using inv by (simp add: load_inv_def Let_def)
  ultimately show keys: "set (m_keys loaded) = reach cfg refs"
    using reach_least [OF sub] by blast
  show "acyclic (Restr (includes_rel cfg) (reach cfg refs))"
    using inv unfolding keys [symmetric] by (simp add: load_inv_def Let_def)
qed (use load_all [OF assms] in \<open>auto simp: load_post_def load_inv_def Let_def\<close>)

lemma load_good_iff:
  assumes "load_refs cfg n refs [] ([], []) = Some res"
  shows "isl res \<longleftrightarrow> load_bad cfg (reach cfg refs)"
proof (cases res)
  case (Inl e)
  then show ?thesis using load_all [OF assms] by (simp add: load_post_def)
next
  case (Inr st)
  obtain loaded sources where st: "st = (loaded, sources)" by (cases st)
  note ok = load_success [OF assms [unfolded Inr st]]
  have "\<not> isl (loadAndParse cfg r)" if "r \<in> reach cfg refs" for r
    using that ok(1,3) by (metis isl_def map_of_eq_None_iff not_None_eq set_map sum.distinct(1))
  moreover have "(r, r) \<notin> (includes_rel cfg)\<^sup>+" if "r \<in> reach cfg refs" for r
    using closed_trancl [OF _ that reach_closed(1)] ok(5) by (auto simp: acyclic_def)
  ultimately show ?thesis using Inr by (auto simp: load_bad_def)
qed


lemma load_enough:
  assumes "finite (reach cfg refs)" "card (reach cfg refs) < n"
  obtains res where "\<And>m. card (reach cfg refs) < m \<Longrightarrow> load_refs cfg m refs [] ([], []) = Some res"
proof -
  let ?c = "Suc (card (reach cfg refs))"
  have "load_refs cfg ?c refs [] ([], []) \<noteq> None"
    by (rule load_returns(2) [OF assms(1) reach_closed]) simp_all
  then obtain res where "load_refs cfg ?c refs [] ([], []) = Some res" by blast
  then show thesis using load_mono(2) that by (metis Suc_leI)
qed

section \<open>Properties\<close>

text \<open>
  C23: loading ends. If finitely many references can be reached through includes, the recursion returns
  within a depth one above their number, cycles included, and a larger bound gives the same result:
  \<^verbatim>\<open>CompileMultiple\<close> always returns and \<open>n\<close> is no more than a device of the model.
\<close>
theorem compile_returns:
  assumes "finite (reach cfg refs)" "card (reach cfg refs) < n" "card (reach cfg refs) < m"
  shows "\<exists>out. CompileMultiple ro cfg n refs = Some out \<and> CompileMultiple ro cfg m refs = Some out"
proof -
  obtain res where res: "\<And>m. card (reach cfg refs) < m \<Longrightarrow> load_refs cfg m refs [] ([], []) = Some res"
    by (rule load_enough [OF assms(1,2)]) (rule that)
  show ?thesis by (cases res) (simp_all add: CompileMultiple_def res [OF assms(2)] res [OF assms(3)])
qed

text \<open>
  C22: loading succeeds exactly when every reachable file can be read, rendered and parsed and no include
  cycle is reachable. Then the loaded references are exactly the reachable ones, each is loaded
  once however many files include it, and the list of sources names their files in load order.
\<close>
theorem load_reachable:
  assumes "load_refs cfg n refs [] ([], []) = Some res"
  shows "((\<exists>st. res = Inr st) \<longleftrightarrow>
      (\<forall>r \<in> reach cfg refs. (\<exists>p. loadAndParse cfg r = Inr p) \<and> (r, r) \<notin> (includes_rel cfg)\<^sup>+)) \<and>
    (\<forall>loaded sources. res = Inr (loaded, sources) \<longrightarrow>
      set (m_keys loaded) = reach cfg refs \<and> distinct (m_keys loaded) \<and>
      (\<forall>(r, p) \<in> set loaded. loadAndParse cfg r = Inr p) \<and>
      sources = map (\<lambda>r. ResolveToPath r (cc_StatesDir cfg)) (m_keys loaded))"
proof (intro conjI allI impI)
  show "(\<exists>st. res = Inr st) \<longleftrightarrow>
      (\<forall>r \<in> reach cfg refs. (\<exists>p. loadAndParse cfg r = Inr p) \<and> (r, r) \<notin> (includes_rel cfg)\<^sup>+)"
    using load_good_iff [OF assms] unfolding load_bad_def by (metis isl_def sum.disc(2) sum.exhaust)
next
  fix loaded sources
  assume "res = Inr (loaded, sources)"
  note ok = load_success [OF assms [unfolded this]]
  show "\<forall>(r, p) \<in> set loaded. loadAndParse cfg r = Inr p" using ok(2,3) by auto
qed (use load_success [of cfg n refs] assms in blast)+


text \<open>Three files: \<open>top\<close> includes \<open>web\<close> and \<open>base\<close>, and \<open>web\<close> includes \<open>base\<close>.\<close>

definition demo_files :: "(string, config) gomap" where
  "demo_files =
     [(''/srv/top/init.zy'', [(''include'', GList [GStr ''web'', GStr ''base''])]),
      (''/srv/web/init.zy'', [(''include'', GList [GStr ''base''])]),
      (''/srv/base/init.zy'', [])]"

definition demo_compiler :: "nat CompilerConfig" where
  "demo_compiler =
     \<lparr>cc_StatesDir = ''/srv'',
      cc_readFile = (\<lambda>path. if map_of demo_files path = None then Inl ''no such file'' else Inr path),
      cc_render = (\<lambda>path content facts settings. Inr content),
      cc_yaml = (\<lambda>content. case map_of demo_files content of Some d \<Rightarrow> Inr d | None \<Rightarrow> Inl ''yaml''),
      cc_Registry = NewRegistry, cc_Facts = [], cc_Settings = [], cc_StarLoader = None, cc_Guards = None\<rparr>"

lemma demo_parse:
  "map_sum id pf_includes (loadAndParse demo_compiler ''top'') = Inr [''web'', ''base'']"
  "map_sum id pf_includes (loadAndParse demo_compiler ''web'') = Inr [''base'']"
  "map_sum id pf_includes (loadAndParse demo_compiler ''base'') = Inr []"
  by code_simp+

lemma demo_reach: "reach demo_compiler [''top''] \<subseteq> {''top'', ''web'', ''base''}"
proof (rule reach_least)
  show "includes_rel demo_compiler `` {''top'', ''web'', ''base''} \<subseteq> {''top'', ''web'', ''base''}"
    using demo_parse by (auto simp: includes_rel_def)
qed simp

theorem compile_returns_witness:
  "\<exists>out. CompileMultiple (\<lambda>ctx xs. xs) demo_compiler 4 [''top''] = Some out \<and>
     CompileMultiple (\<lambda>ctx xs. xs) demo_compiler 9 [''top''] = Some out"
proof -
  have fin: "finite (reach demo_compiler [''top''])" by (rule finite_subset [OF demo_reach]) simp
  have "card (reach demo_compiler [''top'']) \<le> 3" using card_mono [OF _ demo_reach] by simp
  then show ?thesis by (intro compile_returns fin) simp_all
qed

theorem load_reachable_witness:
  "reach demo_compiler [''top''] = {''top'', ''web'', ''base''}"
proof -
  have "map_option (map_sum id (\<lambda>st. m_keys (fst st))) (load_refs demo_compiler 4 [''top''] [] ([], [])) =
      Some (Inr [''top'', ''web'', ''base''])"
    by code_simp
  then obtain loaded sources where
    l: "load_refs demo_compiler 4 [''top''] [] ([], []) = Some (Inr (loaded, sources))"
      "m_keys loaded = [''top'', ''web'', ''base'']"
    by (cases "load_refs demo_compiler 4 [''top''] [] ([], [])") (auto simp: map_sum_def split: sum.splits)
  from load_reachable [OF l(1)] have "set (m_keys loaded) = reach demo_compiler [''top'']" by blast
  then show ?thesis by (simp add: l(2) del: set_map)
qed

end
