(* ===== verification/CompilerMergeProps.thy ===== *)
theory CompilerMergeProps
  imports CompilerMerge
begin

text \<open>
  What the merge of argument lists and the rewriting of inverse requisites do to the
  configuration that a module's builder finally sees.
\<close>

section \<open>Ranges\<close>

lemma cpermutes_set: "cpermutes ro \<Longrightarrow> set (ro ctx xs) = set xs"
  unfolding cpermutes_def by (metis mset_eq_setD)

lemma cpermutes_distinct: "cpermutes ro \<Longrightarrow> distinct (ro ctx xs) = distinct xs"
  unfolding cpermutes_def by (metis mset_eq_imp_distinct_iff)

lemma m_keys_ranged: "m_keys (ranged ro ctx m) = ro ctx (m_keys m)"
  by (simp add: ranged_def o_def)

lemma map_of_ranged:
  assumes "cpermutes ro"
  shows "map_of (ranged ro ctx m) = map_of m"
proof
  fix k
  have "map_of (map (\<lambda>k. (k, the (map_of m k))) xs) k =
      (if k \<in> set xs then Some (the (map_of m k)) else None)" for xs
    by (induction xs) auto
  then show "map_of (ranged ro ctx m) k = map_of m k"
    using cpermutes_set [OF assms, of ctx "m_keys m"] map_of_None_keys [of m k]
    by (cases "map_of m k") (simp_all add: ranged_def)
qed

lemma set_ranged:
  assumes "cpermutes ro" "distinct (m_keys m)"
  shows "set (ranged ro ctx m) = set m"
proof -
  have "distinct (m_keys (ranged ro ctx m))"
    using assms by (simp only: m_keys_ranged cpermutes_distinct)
  then show ?thesis
    using map_of_ranged [OF assms(1)] assms(2) map_of_inject_set by blast
qed

section \<open>Flattening and merging\<close>

text \<open>The values that a list of argument maps gives to a key, in order.\<close>

definition occurrences :: "string \<Rightarrow> args \<Rightarrow> gval list" where
  "occurrences k items = concat (map (\<lambda>item. map snd (filter (\<lambda>(k', v). k' = k) item)) items)"

lemma occurrences_simps [simp]:
  "occurrences k [] = []"
  "occurrences k (item # items) = map snd (filter (\<lambda>(k', v). k' = k) item) @ occurrences k items"
  "occurrences k (xs @ ys) = occurrences k xs @ occurrences k ys"
  by (simp_all add: occurrences_def)

definition newest :: "gval option \<Rightarrow> gval list \<Rightarrow> gval option" where
  "newest old vs = (if vs = [] then old else Some (last vs))"

lemma newest_simps [simp]:
  "newest old [] = old" "newest old [v] = Some v" "newest (newest old vs) ws = newest old (vs @ ws)"
  by (simp_all add: newest_def)

lemma newest_Cons: "newest (Some v) vs = newest old (v # vs)"
  by (simp add: newest_def)

lemma fold_set_last:
  "map_of (fold (\<lambda>(k, v). m_set k v) item m) k =
     newest (map_of m k) (map snd (filter (\<lambda>(k', v). k' = k) item))"
  by (induction item arbitrary: m) (auto simp: map_of_m_set newest_Cons)

lemma flatten_from:
  "map_of (fold (fold (\<lambda>(k, v). m_set k v)) items m) k =
     newest (map_of m k) (occurrences k items)"
  by (induction items arbitrary: m) (simp_all add: fold_set_last)

lemma map_of_flatten:
  "map_of (flattenArgsList items) k =
     newest None (occurrences k items)"
  by (simp add: flattenArgsList_def flatten_from)

definition combine :: "gval option \<Rightarrow> gval list \<Rightarrow> gval option" where
  "combine old vs =
     (case old of
        None \<Rightarrow> (case vs of [] \<Rightarrow> None | [v] \<Rightarrow> Some v | vs \<Rightarrow> Some (GList (concat (map as_list vs))))
      | Some v \<Rightarrow> (case vs of [] \<Rightarrow> Some v | vs \<Rightarrow> Some (GList (concat (map as_list (v # vs))))))"

lemma as_list_GList [simp]: "as_list (GList l) = l"
  by (simp add: as_list_def)

lemma combine_append: "combine (combine old vs) ws = combine old (vs @ ws)"
  by (cases old; cases vs; cases "tl vs"; cases ws)
    (auto simp: combine_def split: list.splits)

lemma merge_key_get:
  "map_of (merge_key (k, v) m) k' =
     (if k' \<noteq> k then map_of m k'
      else if k \<in> set requisiteKeys then combine (map_of m k) [v] else Some v)"
  by (auto simp: merge_key_def map_of_m_set combine_def split: option.splits)

lemma fold_merge_key_get:
  "map_of (fold merge_key item m) k =
     (if k \<in> set requisiteKeys then combine (map_of m k) (map snd (filter (\<lambda>(k', v). k' = k) item))
      else newest (map_of m k) (map snd (filter (\<lambda>(k', v). k' = k) item)))"
proof (induction item arbitrary: m)
  case Nil
  then show ?case by (auto simp: combine_def split: option.splits)
next
  case (Cons kv item)
  obtain k' v where kv: "kv = (k', v)" by fastforce
  show ?case
  proof (cases "k \<in> set requisiteKeys")
    case True
    then show ?thesis
      using Cons.IH [of "merge_key kv m"] combine_append [of "map_of m k" "[v]"]
      by (auto simp: kv merge_key_get)
  next
    case False
    then show ?thesis
      using Cons.IH [of "merge_key kv m"] by (auto simp: kv merge_key_get newest_Cons)
  qed
qed

lemma merge_items_get:
  "map_of (merge_items items m) k =
     (if k \<in> set requisiteKeys then combine (map_of m k) (occurrences k items)
      else newest (map_of m k) (occurrences k items))"
proof (induction items arbitrary: m)
  case Nil
  then show ?case by (auto simp: merge_items_def combine_def split: option.splits)
next
  case (Cons item items)
  have "merge_items (item # items) m = merge_items items (fold merge_key item m)"
    by (simp add: merge_items_def)
  with Cons.IH [of "fold merge_key item m"] show ?case
    by (simp add: fold_merge_key_get combine_append)
qed

lemma merge_items_distinct: "distinct (m_keys m) \<Longrightarrow> distinct (m_keys (merge_items items m))"
proof -
  have one: "distinct (m_keys m) \<Longrightarrow> distinct (m_keys (fold merge_key item m))" for item and m :: config
    by (induction item arbitrary: m)
      (auto simp: merge_key_def distinct_m_set split: option.splits)
  show "distinct (m_keys m) \<Longrightarrow> distinct (m_keys (merge_items items m))"
    unfolding merge_items_def by (induction items arbitrary: m) (simp_all add: one)
qed

lemma occurrences_singletons:
  "distinct (m_keys m) \<Longrightarrow> occurrences k (map (\<lambda>(k, v). [(k, v)]) m) = (case map_of m k of None \<Rightarrow> [] | Some v \<Rightarrow> [v])"
proof (induction m)
  case (Cons kv m)
  obtain k' v where kv: "kv = (k', v)" by fastforce
  have "map_of m k = None" if "k = k'"
    using Cons.prems that by (simp add: kv map_of_eq_None_iff)
  with Cons show ?case by (auto simp: kv)
qed simp

lemma flatten_merge:
  assumes "cpermutes ro"
  shows "map_of (flattenArgsList (mergeArgsList ro ctx base overlay)) k =
    (if k \<in> set requisiteKeys then combine None (occurrences k (base @ overlay))
     else newest None (occurrences k (base @ overlay)))"
proof -
  let ?m = "merge_items overlay (merge_items base [])"
  have d: "distinct (m_keys ?m)" by (intro merge_items_distinct) simp
  have "distinct (m_keys (ranged ro (''merge'' # ctx) ?m))"
    unfolding m_keys_ranged cpermutes_distinct [OF assms] by (rule d)
  from occurrences_singletons [OF this]
  have "map_of (flattenArgsList (mergeArgsList ro ctx base overlay)) k = map_of ?m k"
    by (auto simp: mergeArgsList_def map_of_flatten map_of_ranged [OF assms] split: option.splits)
  also have "\<dots> = (if k \<in> set requisiteKeys then combine None (occurrences k (base @ overlay))
     else newest None (occurrences k (base @ overlay)))"
    by (simp add: merge_items_get combine_append)
  finally show ?thesis .
qed

text \<open>
  C19: the merge of two argument lists of a state (duplicate state ids, extend). In the configuration the
  module finally sees, a key that is not a requisite has the value given last, the overlay's if it gives
  one; a requisite key that is given once keeps its value, and one that is given several times has the
  concatenation, in order, of those values that are lists. The order in which Go ranges over the
  maps does not matter.
\<close>
theorem merge_args_semantics:
  assumes "cpermutes ro" and "vs = occurrences k (base @ overlay)"
  shows "map_of (flattenArgsList (mergeArgsList ro ctx base overlay)) k =
    (if vs = [] then None
     else if k \<notin> set requisiteKeys \<or> length vs = 1 then Some (last vs)
     else Some (GList (concat (map as_list vs))))"
  unfolding flatten_merge [OF assms(1)] assms(2) [symmetric]
  by (cases vs; cases "tl vs") (auto simp: newest_def combine_def)

theorem merge_args_semantics_witness:
  "map_of (flattenArgsList (mergeArgsList (\<lambda>ctx xs. rev xs) []
      [[(''require'', GList [GStr ''a:b''])], [(''mode'', GInt 1)]]
      [[(''mode'', GInt 2)], [(''require'', GList [GStr ''c:d''])]])) ''require'' =
   Some (GList [GStr ''a:b'', GStr ''c:d''])"
proof -
  have "cpermutes (\<lambda>ctx xs. rev xs)" by (simp add: cpermutes_def)
  from merge_args_semantics [OF this refl, of "[]"] show ?thesis
    by (simp add: requisiteKeys_def)
qed

text \<open>
  C20: a requisite given as a single value and not as a list, which the parser of requisites accepts, is lost
  as soon as the state is merged with another declaration of the same requisite: only the
  overlay's list is left.
\<close>
theorem merge_loses_scalar_requisite:
  assumes "cpermutes ro"
  shows "parseReqList (flattenArgsList (mergeArgsList ro ctx [[(''require'', GStr r)]]
      [[(''require'', GList l)]])) ''require'' = ParseReqEntries (GList l) \<and>
    parseReqList (flattenArgsList [[(''require'', GStr r)]]) ''require'' = [r]"
proof -
  have "map_of (flattenArgsList (mergeArgsList ro ctx [[(''require'', GStr r)]]
      [[(''require'', GList l)]])) ''require'' = Some (GList l)"
    unfolding flatten_merge [OF assms] by (simp add: requisiteKeys_def combine_def as_list_def)
  then show ?thesis
    by (simp add: parseReqList_def get_any_def flattenArgsList_def ParseReqEntries_def req_entry_def)
qed

theorem merge_loses_scalar_requisite_witness:
  "parseReqList (flattenArgsList (mergeArgsList (\<lambda>ctx xs. xs) [] [[(''require'', GStr ''a:b'')]]
      [[(''require'', GList [GStr ''c:d''])]])) ''require'' = [''c:d'']"
proof -
  have "cpermutes (\<lambda>ctx xs. xs)" by (simp add: cpermutes_def)
  from merge_loses_scalar_requisite [OF this, of "[]" "''a:b''" "[GStr ''c:d'']"] show ?thesis
    by (simp add: ParseReqEntries_def req_entry_def)
qed

end
