(* ===== verification/CompilerRequisites.thy ===== *)
theory CompilerRequisites
  imports CompilerMergeProps
begin

text \<open>
  What \<^verbatim>\<open>transformRequisites\<close> of \<^verbatim>\<open>src/pkg/state/compiler/requisites.go\<close> does to the requisites
  of the compiled states: every inverse requisite arrives at its target, and nothing else changes.
\<close>

section \<open>Argument lists\<close>

text \<open>
  \<open>lk\<close> is the first value an argument list gives to a key. In a well-formed list, where no key
  occurs twice, it is the value of the flattened configuration.
\<close>

definition lk :: "args \<Rightarrow> string \<Rightarrow> gval option" where
  "lk args k = map_of (concat args) k"

definition ent :: "args \<Rightarrow> string \<Rightarrow> string list" where
  "ent args k = ParseReqEntries (case lk args k of None \<Rightarrow> GNil | Some v \<Rightarrow> v)"

definition wf_args :: "args \<Rightarrow> bool" where
  "wf_args args \<longleftrightarrow> distinct (m_keys (concat args))"

lemma ent_lk: "lk args k = lk args' k \<Longrightarrow> ent args k = ent args' k"
  by (simp add: ent_def)

lemma filter_key_distinct:
  "distinct (m_keys m) \<Longrightarrow>
     map snd (filter (\<lambda>(k', v). k' = k) m) = (case map_of m k of None \<Rightarrow> [] | Some v \<Rightarrow> [v])"
proof (induction m)
  case (Cons kv m)
  obtain k' v where kv: "kv = (k', v)" by fastforce
  have "map_of m k = None" if "k = k'"
    using Cons.prems that by (simp add: kv map_of_eq_None_iff)
  with Cons show ?case by (auto simp: kv)
qed simp

lemma flatten_wf:
  assumes "wf_args args"
  shows "map_of (flattenArgsList args) k = lk args k"
proof -
  have "occurrences k args = map snd (filter (\<lambda>(k', v). k' = k) (concat args))"
    by (induction args) simp_all
  then show ?thesis
    using filter_key_distinct [of "concat args" k] assms
    by (auto simp: map_of_flatten wf_args_def lk_def newest_def split: option.splits)
qed

lemma parseReqList_flatten:
  "wf_args args \<Longrightarrow> parseReqList (flattenArgsList args) k = ent args k"
  by (simp add: parseReqList_def get_any_def flatten_wf ent_def)

section \<open>Injecting a requisite\<close>

definition inj_args :: "string \<Rightarrow> string list \<Rightarrow> args \<Rightarrow> args" where
  "inj_args key refs args =
     (case inject_args key refs args of
        Some args' \<Rightarrow> args'
      | None \<Rightarrow> args @ [[(key, GList (toAnySlice refs))]])"

lemma ParseReqEntries_append:
  "ParseReqEntries (GList (toAnyList v @ toAnySlice refs)) = ParseReqEntries v @ refs"
proof -
  have "concat (map (req_entry \<circ> GStr) refs) = refs"
    by (induction refs) (simp_all add: req_entry_def)
  then show ?thesis
    by (cases v) (simp_all add: ParseReqEntries_def toAnyList_def toAnySlice_def)
qed

lemma m_keys_m_set_mem: "k \<in> set (m_keys m) \<Longrightarrow> m_keys (m_set k v m) = m_keys m"
  by (induction m) auto

lemma inject_args_None: "inject_args key refs args = None \<longleftrightarrow> lk args key = None"
  by (induction args) (auto simp: lk_def map_add_def split: option.splits)

lemma inject_args_Some:
  "inject_args key refs args = Some args' \<Longrightarrow> \<exists>v. lk args key = Some v \<and>
     map_of (concat args') = (map_of (concat args))(key \<mapsto> GList (toAnyList v @ toAnySlice refs)) \<and>
     m_keys (concat args') = m_keys (concat args)"
proof (induction args arbitrary: args')
  case (Cons arg args)
  show ?case
  proof (cases "map_of arg key")
    case None
    then obtain args'' where a: "inject_args key refs args = Some args''" "args' = arg # args''"
      using Cons.prems by auto
    from Cons.IH [OF a(1)] None show ?thesis
      by (auto simp: a(2) lk_def map_add_def fun_eq_iff split: option.splits)
  next
    case (Some v)
    then have mem: "key \<in> set (m_keys arg)" by (metis map_of_None_keys option.distinct(1))
    from Some Cons.prems show ?thesis
      by (auto simp: lk_def m_keys_m_set_mem [OF mem] map_of_m_set map_add_def fun_eq_iff
          split: option.splits)
  qed
qed simp

lemma lk_inj:
  "lk (inj_args key refs args) k =
     (if k = key then Some (GList (toAnyList (case lk args key of None \<Rightarrow> GNil | Some v \<Rightarrow> v) @
                               toAnySlice refs))
      else lk args k)"
proof (cases "inject_args key refs args")
  case None
  then have "lk args key = None" by (simp add: inject_args_None)
  with None show ?thesis by (auto simp: inj_args_def lk_def toAnyList_def map_add_def split: option.splits)
next
  case (Some args')
  from inject_args_Some [OF this] Some show ?thesis by (auto simp: inj_args_def lk_def)
qed

lemma ent_inj: "ent (inj_args key refs args) k = ent args k @ (if k = key then refs else [])"
  by (simp add: ent_def lk_inj ParseReqEntries_append)

lemma wf_inj:
  assumes "wf_args args"
  shows "wf_args (inj_args key refs args)"
proof (cases "inject_args key refs args")
  case None
  then have "map_of (concat args) key = None" by (simp add: inject_args_None lk_def)
  then have "key \<notin> set (m_keys (concat args))" using map_of_None_keys by metis
  with None assms show ?thesis by (simp add: inj_args_def wf_args_def)
next
  case (Some args')
  from inject_args_Some [OF this] assms show ?thesis by (auto simp: inj_args_def wf_args_def Some)
qed

section \<open>The map of states\<close>

definition wf_keys :: "mergedStateMap \<Rightarrow> bool" where
  "wf_keys st \<longleftrightarrow> distinct (m_keys st) \<and> (\<forall>ident modules. map_of st ident = Some modules \<longrightarrow> distinct (m_keys modules))"

definition wf_states :: "mergedStateMap \<Rightarrow> bool" where
  "wf_states st \<longleftrightarrow> wf_keys st \<and> (\<forall>ident mdl. wf_args (args_of st ident mdl))"

lemma args_of_set_args:
  "args_of (set_args i m args st) i' m' = (if i' = i \<and> m' = m then args else args_of st i' m')"
  by (auto simp: args_of_def set_args_def map_of_m_set split: option.splits)

lemma wf_keys_set_args: "wf_keys st \<Longrightarrow> wf_keys (set_args i m args st)"
  by (auto simp: wf_keys_def set_args_def distinct_m_set map_of_m_set split: option.splits if_splits)

lemma injectRequisite_args:
  "injectRequisite i m key refs st = set_args i m (inj_args key refs (args_of st i m)) st"
  by (simp add: injectRequisite_def inj_args_def Let_def split: option.splits)

lemma wf_injectRequisite: "wf_states st \<Longrightarrow> wf_states (injectRequisite i m key refs st)"
  by (auto simp: wf_states_def injectRequisite_args wf_keys_set_args args_of_set_args wf_inj)

lemma inject_all_entries:
  assumes "inject_all what es st = Inr st'"
  shows "ent (args_of st' i m) k = ent (args_of st i m) k @
      concat (map (\<lambda>(t, key, src). if key = k \<and> splitRef t = Inr (i, m) then [src] else []) es)"
    and "k \<notin> (fst \<circ> snd) ` set es \<Longrightarrow> lk (args_of st' i m) k = lk (args_of st i m) k"
    and "wf_states st \<Longrightarrow> wf_states st'"
  using assms
proof (induction es arbitrary: st)
  case (Cons e es)
  obtain t key src where e: "e = (t, key, src)" by (cases e) auto
  case 1
  then obtain tID tMod where sp: "splitRef t = Inr (tID, tMod)"
    and rest: "inject_all what es (injectRequisite tID tMod key [src] st) = Inr st'"
    by (auto simp: e split: sum.splits)
  show ?case
    using Cons.IH(1) [OF rest] sp
    by (auto simp: e injectRequisite_args args_of_set_args ent_inj)
next
  case (Cons e es)
  obtain t key src where e: "e = (t, key, src)" by (cases e) auto
  case 2
  then obtain tID tMod where sp: "splitRef t = Inr (tID, tMod)"
    and rest: "inject_all what es (injectRequisite tID tMod key [src] st) = Inr st'"
    by (auto simp: e split: sum.splits)
  show ?case
    using Cons.IH(2) [OF _ rest] 2(1) by (auto simp: e injectRequisite_args args_of_set_args lk_inj)
next
  case (Cons e es)
  obtain t key src where e: "e = (t, key, src)" by (cases e) auto
  case 3
  then obtain tID tMod where sp: "splitRef t = Inr (tID, tMod)"
    and rest: "inject_all what es (injectRequisite tID tMod key [src] st) = Inr st'"
    by (auto simp: e split: sum.splits)
  show ?case
    using Cons.IH(3) [OF wf_injectRequisite rest] 3(1) by simp
qed simp_all

lemma inject_all_Inr_iff:
  "(\<exists>st'. inject_all what es st = Inr st') \<longleftrightarrow> (\<forall>(t, key, src) \<in> set es. CHR '':'' \<in> set t)"
  by (induction what es st rule: inject_all.induct) (auto simp: splitRef_def Let_def)

section \<open>Step 1: aliases\<close>

definition alias_at :: "nat \<Rightarrow> args \<Rightarrow> args" where
  "alias_at j args =
     (case map_of (args ! j) ''listen'' of
        None \<Rightarrow> args
      | Some v \<Rightarrow> inj_args ''watch'' (ParseReqEntries v) (args[j := m_del ''listen'' (args ! j)]))"

definition alias_args :: "args \<Rightarrow> args" where
  "alias_args args = fold alias_at [0..<length args] args"

lemma alias_arg_args:
  "args_of (alias_arg i m j (''listen'', ''watch'') st) i' m' =
     (if i' = i \<and> m' = m then alias_at j (args_of st i m) else args_of st i' m')"
  by (auto simp: alias_arg_def alias_at_def Let_def injectRequisite_args args_of_set_args
      split: option.splits)

lemma wf_keys_alias_arg: "wf_keys st \<Longrightarrow> wf_keys (alias_arg i m j ks st)"
  by (auto simp: alias_arg_def Let_def injectRequisite_args wf_keys_set_args split: option.splits)

lemma alias_fold_args:
  "args_of (fold (\<lambda>j. fold (alias_arg i m j) sameStateAlias) js st) i' m' =
     (if i' = i \<and> m' = m then fold alias_at js (args_of st i m) else args_of st i' m')"
  by (induction js arbitrary: st) (auto simp: sameStateAlias_def alias_arg_args)

text \<open>The positions of a wf list: at most one map has the key.\<close>

lemma lk_None_nth: "lk args k = None \<Longrightarrow> j < length args \<Longrightarrow> map_of (args ! j) k = None"
proof -
  assume "lk args k = None" "j < length args"
  moreover from this have "set (args ! j) \<subseteq> set (concat args)" using nth_mem by fastforce
  ultimately show ?thesis by (auto simp: lk_def map_of_eq_None_iff simp del: set_concat)
qed

lemma distinct_middle:
  assumes "distinct (m_keys (a @ b @ c))"
  shows "k \<in> set (m_keys b) \<Longrightarrow> k \<notin> set (m_keys a)" "k \<in> set (m_keys b) \<Longrightarrow> k \<notin> set (m_keys c)"
    and "distinct (m_keys (a @ m_del k b @ c))"
proof -
  have "set (m_keys (m_del k b)) \<subseteq> set (m_keys b)" by (auto simp: AList.delete_eq)
  then show "distinct (m_keys (a @ m_del k b @ c))"
    using assms distinct_m_del [of b k] by (auto simp del: set_map)
qed (use assms in auto)

lemma concat_update:
  "j < length args \<Longrightarrow> concat (args[j := x]) = concat (take j args) @ x @ concat (drop (Suc j) args)"
  by (simp add: upd_conv_take_nth_drop)

lemma wf_args_nth:
  assumes "wf_args args" "j < length args" "map_of (args ! j) k = Some v"
  shows "lk args k = Some v"
    and "lk (args[j := m_del k (args ! j)]) k' = (if k' = k then None else lk args k')"
    and "wf_args (args[j := m_del k (args ! j)])"
proof -
  have split: "concat args = concat (take j args) @ args ! j @ concat (drop (Suc j) args)"
    using concat_update [OF assms(2), of "args ! j"] by simp
  have k: "k \<in> set (m_keys (args ! j))" using assms(3) by (metis map_of_None_keys option.distinct(1))
  have d: "distinct (m_keys (concat (take j args) @ args ! j @ concat (drop (Suc j) args)))"
    using assms(1) unfolding wf_args_def split [symmetric] .
  have out: "k \<notin> set (m_keys (concat (take j args)))" "k \<notin> set (m_keys (concat (drop (Suc j) args)))"
    using distinct_middle(1,2) [OF d k] .
  then have none: "map_of (concat (take j args)) k = None" "map_of (concat (drop (Suc j) args)) k = None"
    by (metis map_of_None_keys)+
  show "lk args k = Some v"
    unfolding lk_def split using none assms(3) by (simp add: map_add_def)
  show "lk (args[j := m_del k (args ! j)]) k' = (if k' = k then None else lk args k')"
    unfolding lk_def concat_update [OF assms(2)] split using none
    by (simp add: map_add_def map_of_m_del split: option.split)
  show "wf_args (args[j := m_del k (args ! j)])"
    unfolding wf_args_def concat_update [OF assms(2)] by (rule distinct_middle(3) [OF d])
qed

definition aliased :: "args \<Rightarrow> args \<Rightarrow> bool" where
  "aliased args a \<longleftrightarrow> wf_args a \<and> lk a ''listen'' = None \<and>
     ent a ''watch'' = ent args ''watch'' @ ent args ''listen'' \<and>
     (\<forall>k. k \<noteq> ''listen'' \<longrightarrow> k \<noteq> ''watch'' \<longrightarrow> lk a k = lk args k)"

lemma alias_at_None: "map_of (args ! j) ''listen'' = None \<Longrightarrow> alias_at j args = args"
  by (simp add: alias_at_def)

lemma alias_at_fires:
  assumes "wf_args args" "j < length args" "map_of (args ! j) ''listen'' = Some v"
  shows "aliased args (alias_at j args) \<and> length args \<le> length (alias_at j args)"
proof -
  note del = wf_args_nth [OF assms]
  have "ent (args[j := m_del ''listen'' (args ! j)]) ''watch'' = ent args ''watch''"
    by (rule ent_lk) (simp add: del(2))
  moreover have "ent args ''listen'' = ParseReqEntries v" by (simp add: ent_def del(1))
  moreover have "length as \<le> length (inj_args key refs as)" for as key refs
  proof -
    have "inject_args key refs as = Some bs \<Longrightarrow> length bs = length as" for bs
      by (induction as arbitrary: bs) (auto split: option.splits)
    then show ?thesis by (auto simp: inj_args_def split: option.splits)
  qed
  then have "length args \<le> length (alias_at j args)"
    using assms(3) by (metis alias_at_def length_list_update option.simps(5))
  ultimately show ?thesis
    using assms(3) del(3)
    by (simp add: aliased_def alias_at_def wf_inj lk_inj ent_inj del(2))
qed

lemma alias_fold_inv:
  assumes "wf_args args" "set js \<subseteq> {..<length args}"
  defines "a \<equiv> fold alias_at js args"
  shows "length args \<le> length a \<and>
    (a = args \<and> (\<forall>j \<in> set js. map_of (args ! j) ''listen'' = None) \<or> aliased args a)"
  using assms(2) unfolding a_def
proof (induction js rule: rev_induct)
  case (snoc j js)
  let ?a = "fold alias_at js args"
  have j: "j < length args" and ih: "length args \<le> length ?a"
    "?a = args \<and> (\<forall>j \<in> set js. map_of (args ! j) ''listen'' = None) \<or> aliased args ?a"
    using snoc by auto
  from ih(2) show ?case
  proof
    assume a: "?a = args \<and> (\<forall>j \<in> set js. map_of (args ! j) ''listen'' = None)"
    show ?thesis
    proof (cases "map_of (args ! j) ''listen''")
      case None
      then show ?thesis using a by (simp add: alias_at_None)
    next
      case (Some v)
      with alias_at_fires [OF assms(1) j Some] a show ?thesis by simp
    qed
  next
    assume a: "aliased args ?a"
    then have "map_of (?a ! j) ''listen'' = None"
      using lk_None_nth [of ?a "''listen''" j] j ih(1) by (simp add: aliased_def)
    then show ?thesis using a ih(1) by (simp add: alias_at_None)
  qed
qed simp

lemma alias_args_aliased:
  assumes "wf_args args"
  shows "aliased args (alias_args args)"
proof -
  have "alias_args args = args \<and> (\<forall>j < length args. map_of (args ! j) ''listen'' = None) \<or>
      aliased args (alias_args args)"
    using alias_fold_inv [OF assms, of "[0..<length args]"]
    by (simp add: alias_args_def lessThan_atLeast0 Ball_def)
  then show ?thesis
  proof
    assume a: "alias_args args = args \<and> (\<forall>j < length args. map_of (args ! j) ''listen'' = None)"
    then have "\<forall>arg \<in> set args. ''listen'' \<notin> fst ` set arg"
      by (metis in_set_conv_nth map_of_eq_None_iff)
    then have "lk args ''listen'' = None" by (auto simp: lk_def map_of_eq_None_iff)
    with a assms show ?thesis by (simp add: aliased_def ent_def ParseReqEntries_def)
  qed
qed

lemma fold_pairs_args:
  assumes "distinct (map fst ps)"
    and f: "\<And>p n st q. args_of (f (p, n) st) (fst q) (snd q) =
      (if q = p then g n (args_of st (fst p) (snd p)) else args_of st (fst q) (snd q))"
  shows "args_of (fold f ps st) i m =
    (case map_of ps (i, m) of None \<Rightarrow> args_of st i m | Some n \<Rightarrow> g n (args_of st i m))"
  using assms(1)
proof (induction ps arbitrary: st)
  case (Cons pn ps)
  obtain p n where pn: "pn = (p, n)" by fastforce
  have "map_of ps p = None" using Cons.prems by (simp add: pn map_of_eq_None_iff)
  then show ?case
    using Cons f [of p n st "(i, m)"] by (auto simp: pn split: option.splits)
qed simp

lemma fold_concat_map: "fold f (concat (map h xs)) = fold (\<lambda>x. fold f (h x)) xs"
  by (induction xs) auto

text \<open>All pairs of a state id and a module, in the order a nested range visits them.\<close>

definition pairs :: "crange \<Rightarrow> string \<Rightarrow> mergedStateMap \<Rightarrow> ((string \<times> string) \<times> args) list" where
  "pairs ro site st = concat (map (\<lambda>(ident, modules).
     map (\<lambda>(mdl, args). ((ident, mdl), args)) (ranged ro [site, ident] modules)) (ranged ro [site] st))"

lemma map_of_tagged:
  "map_of (map (\<lambda>(mdl, args). ((ident, mdl), args)) l) (i, m) = (if i = ident then map_of l m else None)"
  by (induction l) auto

lemma nested_pairs:
  assumes "distinct (map fst xs)" "\<And>i mods. map_of xs i = Some mods \<Longrightarrow> distinct (m_keys (R i mods))"
  shows "distinct (map fst (concat (map (\<lambda>(i, mods). map (\<lambda>(m, a). ((i, m), a)) (R i mods)) xs))) \<and>
    map_of (concat (map (\<lambda>(i, mods). map (\<lambda>(m, a). ((i, m), a)) (R i mods)) xs)) (i, m) =
      (case map_of xs i of None \<Rightarrow> None | Some mods \<Rightarrow> map_of (R i mods) m)"
  using assms
proof (induction xs)
  case (Cons x xs)
  obtain i' mods' where x: "x = (i', mods')" by fastforce
  have none: "map_of xs i' = None" using Cons.prems(1) by (simp add: x map_of_eq_None_iff)
  have "distinct (m_keys (R i' mods'))" using Cons.prems(2) [of i' mods'] by (simp add: x)
  then have "distinct (map fst (map (\<lambda>(m, a). ((i', m), a)) (R i' mods')))"
    using distinct_map [of "Pair i'" "m_keys (R i' mods')"]
    by (simp add: o_def case_prod_unfold inj_on_def)
  moreover have "distinct (m_keys (R i mods))"
    if "map_of xs i = Some mods" for i mods
    using Cons.prems(2) [of i mods] none that by (cases "i = i'") (simp_all add: x)
  moreover have "fst ` set (concat (map (\<lambda>(i, mods). map (\<lambda>(m, a). ((i, m), a)) (R i mods)) xs)) \<inter>
      fst ` set (map (\<lambda>(m, a). ((i', m), a)) (R i' mods')) = {}"
    using none by (force simp: map_of_eq_None_iff)
  ultimately show ?case
    using Cons none by (auto simp: x map_of_tagged map_add_def split: option.splits)
qed simp

lemma map_of_pairs:
  assumes "cpermutes ro" "wf_keys st"
  shows "distinct (map fst (pairs ro site st))"
    and "map_of (pairs ro site st) (i, m) = (case map_of st i of None \<Rightarrow> None | Some mods \<Rightarrow> map_of mods m)"
proof -
  have d: "distinct (map fst (ranged ro [site] st))"
    unfolding m_keys_ranged cpermutes_distinct [OF assms(1)] using assms(2) by (simp add: wf_keys_def)
  have inner: "distinct (m_keys (ranged ro [site, i] mods))"
    if "map_of (ranged ro [site] st) i = Some mods" for i mods
    unfolding m_keys_ranged cpermutes_distinct [OF assms(1)]
    using that assms(2) by (simp add: map_of_ranged [OF assms(1)] wf_keys_def)
  note np = nested_pairs [where R = "\<lambda>i. ranged ro [site, i]", OF d inner]
  show "distinct (map fst (pairs ro site st))"
    using np unfolding pairs_def by blast
  show "map_of (pairs ro site st) (i, m) = (case map_of st i of None \<Rightarrow> None | Some mods \<Rightarrow> map_of mods m)"
    using np unfolding pairs_def by (simp add: map_of_ranged [OF assms(1)] split: option.split)
qed

lemma alias_step_args:
  assumes "cpermutes ro" "wf_keys st"
  shows "args_of (alias_step ro st) i m = alias_args (args_of st i m)" and "wf_keys (alias_step ro st)"
proof -
  let ?f = "\<lambda>((i, m), args). fold (\<lambda>j. fold (alias_arg i m j) sameStateAlias) [0..<length args]"
  have step: "alias_step ro st = fold ?f (pairs ro ''alias'' st) st"
    unfolding alias_step_def pairs_def fold_concat_map
    by (intro fold_cong) (auto simp: fold_map o_def case_prod_unfold)
  have "args_of (fold ?f (pairs ro ''alias'' st) st) i m =
      (case map_of (pairs ro ''alias'' st) (i, m) of None \<Rightarrow> args_of st i m
       | Some args \<Rightarrow> fold alias_at [0..<length args] (args_of st i m))"
    by (rule fold_pairs_args [OF map_of_pairs(1) [OF assms],
          where g = "\<lambda>args. fold alias_at [0..<length args]"])
      (auto simp: alias_fold_args split: prod.splits)
  also have "\<dots> = alias_args (args_of st i m)"
    unfolding map_of_pairs(2) [OF assms] by (auto simp: args_of_def alias_args_def split: option.splits)
  finally show "args_of (alias_step ro st) i m = alias_args (args_of st i m)" by (simp add: step)
  have inner: "wf_keys s \<Longrightarrow> wf_keys (fold (\<lambda>j. fold (alias_arg i m j) sameStateAlias) js s)" for i m js s
    by (induction js arbitrary: s) (simp_all add: sameStateAlias_def wf_keys_alias_arg)
  have "wf_keys s \<Longrightarrow> wf_keys (fold ?f ps s)" for ps s
    by (induction ps arbitrary: s) (auto simp: inner)
  then show "wf_keys (alias_step ro st)" using step assms(2) by simp
qed

section \<open>Steps 2 and 3: collecting and injecting\<close>

lemma concat_map_concat: "concat (map g (concat xss)) = concat (map (\<lambda>xs. concat (map g xs)) xss)"
  by (induction xss) simp_all

lemma in_concat_map: "x \<in> set (concat (map g xs)) \<longleftrightarrow> (\<exists>y \<in> set xs. x \<in> set (g y))"
  by auto

lemma opt_list_mem: "x \<in> set (case v of None \<Rightarrow> [] | Some y \<Rightarrow> h y) \<longleftrightarrow> (\<exists>y. v = Some y \<and> x \<in> set (h y))"
  by (cases v) auto

lemma set_collect_args:
  assumes "cpermutes ro" "wf_keys st"
  shows "x \<in> set (collect_args ro site f st) \<longleftrightarrow>
    (\<exists>i m. \<exists>j < length (args_of st i m).
       x \<in> set (f [site, i, m, nat_dec j] (m @ '':'' @ i) (args_of st i m ! j)))"
proof -
  let ?h = "\<lambda>i m args j. f [site, i, m, nat_dec j] (m @ '':'' @ i) (args ! j)"
  let ?g = "\<lambda>((i, m), args). concat (map (?h i m args) [0..<length args])"
  have eq: "collect_args ro site f st = concat (map ?g (pairs ro site st))"
    unfolding collect_args_def pairs_def concat_map_concat map_map
    by (intro arg_cong [where f = concat] map_cong refl) (auto simp: o_def case_prod_unfold)
  have "x \<in> set (collect_args ro site f st) \<longleftrightarrow>
      (\<exists>i m args. ((i, m), args) \<in> set (pairs ro site st) \<and> (\<exists>j < length args. x \<in> set (?h i m args j)))"
    unfolding eq in_concat_map Bex_def split_paired_Ex case_prod_conv set_upt atLeastLessThan_iff
    by blast
  moreover have "((i, m), args) \<in> set (pairs ro site st) \<longleftrightarrow>
      (case map_of st i of None \<Rightarrow> None | Some mods \<Rightarrow> map_of mods m) = Some args" for i m args
    using map_of_pairs [OF assms, of site] by (metis map_of_eq_Some_iff)
  moreover have "(\<exists>args. (case map_of st i of None \<Rightarrow> None | Some mods \<Rightarrow> map_of mods m) = Some args \<and> P args)
      \<longleftrightarrow> P (args_of st i m)" if "\<not> P []" for i m P
    using that by (auto simp: args_of_def split: option.splits)
  ultimately show ?thesis by simp
qed

lemma lk_Some_iff:
  assumes "wf_args args"
  shows "lk args k = Some v \<longleftrightarrow> (\<exists>j < length args. map_of (args ! j) k = Some v)"
proof
  assume "lk args k = Some v"
  then show "\<exists>j < length args. map_of (args ! j) k = Some v"
    unfolding lk_def
  proof (induction args)
    case (Cons a args)
    then show ?case
      by (cases "map_of a k") (auto simp: map_add_def intro: exI [of _ 0] exI [of _ "Suc _"])
  qed simp
next
  assume "\<exists>j < length args. map_of (args ! j) k = Some v"
  then show "lk args k = Some v" using wf_args_nth(1) [OF assms] by blast
qed

definition declares :: "mergedStateMap \<Rightarrow> string \<Rightarrow> string \<Rightarrow> string \<Rightarrow> bool" where
  "declares st key src t \<longleftrightarrow> (\<exists>i m. src = m @ '':'' @ i \<and> t \<in> set (ent (args_of st i m) key))"

lemma ent_mem: "t \<in> set (ent args k) \<longleftrightarrow> (\<exists>v. lk args k = Some v \<and> t \<in> set (ParseReqEntries v))"
  by (auto simp: ent_def ParseReqEntries_def split: option.splits)

lemma collect_declares:
  assumes "cpermutes ro" "wf_states st"
    and "\<And>ctx src arg x. x \<in> set (f ctx src arg) \<longleftrightarrow>
      (\<exists>v. map_of arg k = Some v \<and> g src v x)"
  shows "x \<in> set (collect_args ro site f st) \<longleftrightarrow>
    (\<exists>i m v. lk (args_of st i m) k = Some v \<and> g (m @ '':'' @ i) v x)"
proof -
  have keys: "wf_keys st" and wf: "\<And>i m. wf_args (args_of st i m)"
    using assms(2) by (auto simp: wf_states_def)
  show ?thesis
    unfolding set_collect_args [OF assms(1) keys] assms(3) lk_Some_iff [OF wf] by blast
qed

definition inverse_edges :: "crange \<Rightarrow> mergedStateMap \<Rightarrow> (string \<times> string \<times> string) list" where
  "inverse_edges ro st = concat (map (\<lambda>p. map (\<lambda>t. (t, inv_fwdKey p, inv_srcRef p)) (inv_targets p))
     (collect_args ro ''inverse'' (arg_inverse ro) st))"

lemma set_inverse_edges:
  assumes "cpermutes ro" "wf_states st"
  shows "(t, key, src) \<in> set (inverse_edges ro st) \<longleftrightarrow>
    (\<exists>inK. (inK, key) \<in> set inverseForward \<and> declares st inK src t)"
proof -
  have keys: "wf_keys st" and wf: "\<And>i m. wf_args (args_of st i m)"
    using assms(2) by (auto simp: wf_states_def)
  have d: "distinct (m_keys inverseForward)" by code_simp
  have inv: "p \<in> set (arg_inverse ro ctx src arg) \<longleftrightarrow>
      (\<exists>inK fwd v. (inK, fwd) \<in> set inverseForward \<and> map_of arg inK = Some v \<and>
         p = \<lparr>inv_fwdKey = fwd, inv_srcRef = src, inv_targets = ParseReqEntries v\<rparr>)" for p ctx src arg
    unfolding arg_inverse_def in_concat_map set_ranged [OF assms(1) d] Bex_def split_paired_Ex
      case_prod_conv opt_list_mem list.set insert_iff empty_iff by blast
  have "(t, key, src) \<in> set (inverse_edges ro st) \<longleftrightarrow>
      (\<exists>i m inK v. \<exists>j < length (args_of st i m). (inK, key) \<in> set inverseForward \<and>
         map_of (args_of st i m ! j) inK = Some v \<and> src = m @ '':'' @ i \<and> t \<in> set (ParseReqEntries v))"
  proof -
    have "(t, key, src) \<in> set (inverse_edges ro st) \<longleftrightarrow>
        (\<exists>p \<in> set (collect_args ro ''inverse'' (arg_inverse ro) st).
           key = inv_fwdKey p \<and> src = inv_srcRef p \<and> t \<in> set (inv_targets p))"
      by (auto simp: inverse_edges_def)
    also have "\<dots> \<longleftrightarrow> (\<exists>i m inK v. \<exists>j < length (args_of st i m). (inK, key) \<in> set inverseForward \<and>
         map_of (args_of st i m ! j) inK = Some v \<and> src = m @ '':'' @ i \<and> t \<in> set (ParseReqEntries v))"
      (is "_ \<longleftrightarrow> ?rhs")
    proof
      assume "\<exists>p \<in> set (collect_args ro ''inverse'' (arg_inverse ro) st).
           key = inv_fwdKey p \<and> src = inv_srcRef p \<and> t \<in> set (inv_targets p)"
      then obtain p i m j inK fwd v where p: "j < length (args_of st i m)" "(inK, fwd) \<in> set inverseForward"
        "map_of (args_of st i m ! j) inK = Some v" "key = inv_fwdKey p" "src = inv_srcRef p"
        "t \<in> set (inv_targets p)"
        "p = \<lparr>inv_fwdKey = fwd, inv_srcRef = m @ '':'' @ i, inv_targets = ParseReqEntries v\<rparr>"
        unfolding set_collect_args [OF assms(1) keys] inv Bex_def by (elim exE conjE)
      have "key = fwd" "src = m @ '':'' @ i" "t \<in> set (ParseReqEntries v)" using p(4-7) by simp_all
      with p(1-3) show ?rhs by blast
    next
      assume ?rhs
      then obtain i m inK v j where "j < length (args_of st i m)" "(inK, key) \<in> set inverseForward"
        "map_of (args_of st i m ! j) inK = Some v" "src = m @ '':'' @ i" "t \<in> set (ParseReqEntries v)"
        by (elim exE conjE)
      then show "\<exists>p \<in> set (collect_args ro ''inverse'' (arg_inverse ro) st).
           key = inv_fwdKey p \<and> src = inv_srcRef p \<and> t \<in> set (inv_targets p)"
        unfolding Bex_def set_collect_args [OF assms(1) keys] inv
        by (intro exI [of _ "\<lparr>inv_fwdKey = key, inv_srcRef = src, inv_targets = ParseReqEntries v\<rparr>"] conjI)
          (blast, simp_all)
    qed
    finally show ?thesis .
  qed
  also have "\<dots> \<longleftrightarrow> (\<exists>inK. (inK, key) \<in> set inverseForward \<and> declares st inK src t)"
    unfolding declares_def ent_mem lk_Some_iff [OF wf] by blast
  finally show ?thesis .
qed

lemma set_prereq_edges:
  assumes "cpermutes ro" "wf_states st"
  shows "(t, key, src) \<in> set (collect_args ro ''prereq'' arg_prereq st) \<longleftrightarrow>
    key = ''require'' \<and> declares st ''prereq'' src t"
proof -
  have "x \<in> set (arg_prereq ctx src arg) \<longleftrightarrow> (\<exists>v. map_of arg ''prereq'' = Some v \<and>
      (\<exists>t \<in> set (ParseReqEntries v). x = (t, ''require'', src)))" for x ctx src arg
    by (cases "map_of arg ''prereq''") (auto simp: arg_prereq_def)
  from collect_declares [where g = "\<lambda>src v x. \<exists>t \<in> set (ParseReqEntries v). x = (t, ''require'', src)",
      OF assms this]
  show ?thesis by (auto simp: declares_def ent_mem)
qed

lemma drop_inverse_filter: "drop_inverse arg = filter (\<lambda>(k, v). k \<notin> set (m_keys inverseForward)) arg"
proof -
  have "fold m_del ks arg = filter (\<lambda>(k, v). k \<notin> set ks) arg" for ks
    by (induction ks arbitrary: arg) (auto simp: AList.delete_eq filter_id_conv conj_commute intro: filter_cong)
  then show ?thesis by (simp add: drop_inverse_def)
qed

lemma map_of_filter_key: "map_of (filter (\<lambda>(k, v). P k) m) k = (if P k then map_of m k else None)"
  by (induction m) auto

lemma args_of_map_args: "args_of (map_args f st) i m = map f (args_of st i m)"
proof -
  have 1: "map_of (map (\<lambda>(mdl, args). (mdl, map f args)) mods) m = map_option (map f) (map_of mods m)"
    for mods :: module_map by (induction mods) auto
  have "map_of (map_args f st) i =
      map_option (map (\<lambda>(mdl, args). (mdl, map f args))) (map_of st i)"
    unfolding map_args_def by (induction st) auto
  with 1 show ?thesis by (auto simp: args_of_def split: option.splits)
qed

lemma wf_keys_map_args: "wf_keys st \<Longrightarrow> wf_keys (map_args f st)"
proof -
  assume wf: "wf_keys st"
  have 1: "m_keys (map (\<lambda>(mdl, args). (mdl, map f args)) mods) = m_keys mods" for mods :: module_map
    by (induction mods) auto
  have 2: "map_of (map_args f st) i =
      map_option (map (\<lambda>(mdl, args). (mdl, map f args))) (map_of st i)" for i
    unfolding map_args_def by (induction st) auto
  have "m_keys (map_args f st) = m_keys st" unfolding map_args_def by (induction st) auto
  moreover have "distinct (m_keys modules)"
    if some: "map_of (map_args f st) ident = Some modules" for ident modules
  proof -
    obtain mods where "map_of st ident = Some mods"
      and mods: "modules = map (\<lambda>(mdl, args). (mdl, map f args)) mods"
      using some unfolding 2 by auto
    with wf show ?thesis unfolding mods 1 by (simp add: wf_keys_def)
  qed
  ultimately show ?thesis using wf by (simp add: wf_keys_def)
qed

lemma drop_inverse_args:
  "lk (map drop_inverse args) k = (if k \<in> set (m_keys inverseForward) then None else lk args k)"
  "wf_args args \<Longrightarrow> wf_args (map drop_inverse args)"
proof -
  have c: "concat (map drop_inverse args) =
      filter (\<lambda>(k, v). k \<notin> set (m_keys inverseForward)) (concat args)"
    by (simp add: drop_inverse_filter [abs_def] filter_concat comp_def)
  show "lk (map drop_inverse args) k = (if k \<in> set (m_keys inverseForward) then None else lk args k)"
    unfolding lk_def c by (simp add: map_of_filter_key)
  show "wf_args args \<Longrightarrow> wf_args (map drop_inverse args)"
    unfolding wf_args_def c by (rule distinct_map_filter)
qed

section \<open>The whole transformation\<close>

lemma inverseForward_eq:
  "inverseForward = [(''listen_in'', ''watch''), (''require_in'', ''require''), (''watch_in'', ''watch''),
     (''onchanges_in'', ''onchanges''), (''onfail_in'', ''onfail''), (''prereq_in'', ''prereq'')]"
  by code_simp

lemma alias_step_facts:
  assumes "cpermutes ro" "wf_states st"
  shows "wf_states (alias_step ro st)" and "aliased (args_of st i m) (args_of (alias_step ro st) i m)"
proof -
  have keys: "wf_keys st" and wf: "\<And>i m. wf_args (args_of st i m)"
    using assms(2) by (auto simp: wf_states_def)
  note al = alias_args_aliased [OF wf, folded alias_step_args(1) [OF assms(1) keys]]
  show "aliased (args_of st i m) (args_of (alias_step ro st) i m)" by (rule al)
  show "wf_states (alias_step ro st)"
    unfolding wf_states_def using al alias_step_args(2) [OF assms(1) keys] by (simp add: aliased_def)
qed

lemma inject_all_set:
  assumes "inject_all what es st = Inr st'"
  shows "set (ent (args_of st' i m) k) =
    set (ent (args_of st i m) k) \<union> {src. \<exists>t. (t, k, src) \<in> set es \<and> splitRef t = Inr (i, m)}"
proof -
  have "set (concat (map (\<lambda>(t, key, src). if key = k \<and> splitRef t = Inr (i, m) then [src] else []) es)) =
      {src. \<exists>t. (t, k, src) \<in> set es \<and> splitRef t = Inr (i, m)}"
    by (induction es) (auto split: if_splits)
  then show ?thesis unfolding inject_all_entries(1) [OF assms] set_append by simp
qed

text \<open>The requisite that reaches the state \<open>(i, m)\<close> from the state \<open>src\<close> through the key \<open>inK\<close>.\<close>

definition reaches :: "mergedStateMap \<Rightarrow> string \<Rightarrow> string \<Rightarrow> string \<Rightarrow> string set" where
  "reaches st inK i m = {src. \<exists>t. declares st inK src t \<and> splitRef t = Inr (i, m)}"

lemma declares_mono:
  "(\<And>i m. set (ent (args_of st' i m) k') = set (ent (args_of st i m) k)) \<Longrightarrow>
     declares st' k' src t = declares st k src t"
  by (simp add: declares_def)

lemma transform_stages:
  assumes "cpermutes ro" "wf_states st" "transformRequisites ro st = Inr st'"
  obtains st2 where "inject_all ''inverse requisite'' (inverse_edges ro (alias_step ro st))
      (map_args drop_inverse (alias_step ro st)) = Inr st2"
    "inject_all ''prereq'' (collect_args ro ''prereq'' arg_prereq st2) st2 = Inr st'"
    "wf_states (map_args drop_inverse (alias_step ro st))" "wf_states st2" "wf_states st'"
proof -
  let ?st1 = "alias_step ro st"
  note al = alias_step_facts [OF assms(1,2)]
  have wf1: "wf_states (map_args drop_inverse ?st1)"
    using al(1) unfolding wf_states_def by (simp add: wf_keys_map_args args_of_map_args drop_inverse_args(2))
  obtain st2 where st2: "inverse_step ro ?st1 = Inr st2" "prereq_step ro st2 = Inr st'"
    using assms(3) by (auto simp: transformRequisites_def split: sum.splits)
  note st2' = st2(1) [unfolded inverse_step_def Let_def, folded inverse_edges_def]
  note st3' = st2(2) [unfolded prereq_step_def]
  note wf2 = inject_all_entries(3) [OF st2' wf1]
  show thesis
    by (rule that [OF st2' st3' wf1 wf2 inject_all_entries(3) [OF st3' wf2]])
qed

lemma stage1_ent:
  assumes "cpermutes ro" "wf_states st"
  shows "k \<notin> {''listen'', ''watch''} \<Longrightarrow> ent (args_of (alias_step ro st) i m) k = ent (args_of st i m) k"
    and "ent (args_of (alias_step ro st) i m) ''watch'' =
      ent (args_of st i m) ''watch'' @ ent (args_of st i m) ''listen''"
    and "lk (args_of (alias_step ro st) i m) ''listen'' = None"
  using alias_step_facts(2) [OF assms, of i m] by (auto simp: aliased_def intro: ent_lk)

lemma transform_edges:
  assumes "cpermutes ro" "wf_states st" "transformRequisites ro st = Inr st'"
  shows "set (ent (args_of st' i m) k) =
    (if k \<in> insert ''listen'' (set (m_keys inverseForward)) then {} else set (ent (args_of st i m) k)) \<union>
    (if k = ''watch'' then set (ent (args_of st i m) ''listen'') else {}) \<union>
    (\<Union>inK \<in> {inK. (inK, k) \<in> set inverseForward}. reaches st inK i m) \<union>
    (if k = ''require''
     then reaches st ''prereq'' i m \<union>
       {src. \<exists>t i' m'. src = m' @ '':'' @ i' \<and> t \<in> reaches st ''prereq_in'' i' m' \<and> splitRef t = Inr (i, m)}
     else {})"
proof -
  obtain st2 where st2: "inject_all ''inverse requisite'' (inverse_edges ro (alias_step ro st))
      (map_args drop_inverse (alias_step ro st)) = Inr st2"
    and st3: "inject_all ''prereq'' (collect_args ro ''prereq'' arg_prereq st2) st2 = Inr st'"
    and wf2: "wf_states st2" by (rule transform_stages [OF assms])
  let ?st1 = "alias_step ro st"
  note s1 = stage1_ent [OF assms(1,2)]
  have decl1: "declares ?st1 inK src t = declares st inK src t" if "inK \<in> set (m_keys inverseForward)" for inK src t
    using that by (intro declares_mono) (auto simp: s1(1) inverseForward_eq)
  have e1: "ent (args_of (map_args drop_inverse ?st1) i m) k =
      (if k \<in> set (m_keys inverseForward) then [] else ent (args_of ?st1 i m) k)" for i m k
    by (simp add: args_of_map_args ent_def drop_inverse_args(1) ParseReqEntries_def)
  have mem: "(inK, k) \<in> set inverseForward \<Longrightarrow> inK \<in> set (m_keys inverseForward)" for inK k by force
  have r1: "{src. \<exists>t. (t, k, src) \<in> set (inverse_edges ro ?st1) \<and> splitRef t = Inr (i, m)} =
      (\<Union>inK \<in> {inK. (inK, k) \<in> set inverseForward}. reaches st inK i m)" for i m k
  proof -
    have "(t, k, src) \<in> set (inverse_edges ro ?st1) \<longleftrightarrow>
        (\<exists>inK. (inK, k) \<in> set inverseForward \<and> declares st inK src t)" for t src
      unfolding set_inverse_edges [OF assms(1) alias_step_facts(1) [OF assms(1,2)]]
      using decl1 [OF mem] by (intro ex_cong1 conj_cong refl)
    then show ?thesis unfolding reaches_def by blast
  qed
  have e2: "set (ent (args_of st2 i m) k) =
      set (if k \<in> set (m_keys inverseForward) then [] else ent (args_of ?st1 i m) k) \<union>
      (\<Union>inK \<in> {inK. (inK, k) \<in> set inverseForward}. reaches st inK i m)" for i m k
    unfolding inject_all_set [OF st2] e1 r1 ..
  have pr: "declares st2 ''prereq'' src t \<longleftrightarrow> declares st ''prereq'' src t \<or>
      (\<exists>i' m'. src = m' @ '':'' @ i' \<and> t \<in> reaches st ''prereq_in'' i' m')" for src t
  proof -
    have "{inK. (inK, ''prereq'') \<in> set inverseForward} = {''prereq_in''}"
      "''prereq'' \<notin> set (m_keys inverseForward)" by (auto simp: inverseForward_eq)
    then have "set (ent (args_of st2 i m) ''prereq'') =
        set (ent (args_of st i m) ''prereq'') \<union> reaches st ''prereq_in'' i m" for i m
      unfolding e2 by (simp add: s1(1))
    then show ?thesis unfolding declares_def by blast
  qed
  have r2: "{src. \<exists>t. (t, k, src) \<in> set (collect_args ro ''prereq'' arg_prereq st2) \<and> splitRef t = Inr (i, m)} =
      (if k = ''require''
       then reaches st ''prereq'' i m \<union>
         {src. \<exists>t i' m'. src = m' @ '':'' @ i' \<and> t \<in> reaches st ''prereq_in'' i' m' \<and> splitRef t = Inr (i, m)}
       else {})"
    unfolding set_prereq_edges [OF assms(1) wf2] pr reaches_def by (cases "k = ''require''"; simp; blast)
  have e3: "set (if k \<in> set (m_keys inverseForward) then [] else ent (args_of ?st1 i m) k) =
      (if k \<in> insert ''listen'' (set (m_keys inverseForward)) then {} else set (ent (args_of st i m) k)) \<union>
      (if k = ''watch'' then set (ent (args_of st i m) ''listen'') else {})"
  proof (cases "k = ''listen'' \<or> k = ''watch''")
    case True
    then show ?thesis using s1(2,3) by (auto simp: inverseForward_eq ent_def ParseReqEntries_def)
  next
    case False
    then show ?thesis using s1(1) [of k] by auto
  qed
  show ?thesis unfolding inject_all_set [OF st3] r2 e2 e3 by blast
qed

lemma edge_keys:
  assumes "cpermutes ro" "wf_states st"
  shows "(fst \<circ> snd) ` set (inverse_edges ro st) \<subseteq> snd ` set inverseForward"
    and "(fst \<circ> snd) ` set (collect_args ro ''prereq'' arg_prereq st) \<subseteq> {''require''}"
proof -
  show "(fst \<circ> snd) ` set (inverse_edges ro st) \<subseteq> snd ` set inverseForward"
  proof
    fix k assume "k \<in> (fst \<circ> snd) ` set (inverse_edges ro st)"
    then obtain t src where "(t, k, src) \<in> set (inverse_edges ro st)" by auto
    then show "k \<in> snd ` set inverseForward"
      unfolding set_inverse_edges [OF assms] by force
  qed
  show "(fst \<circ> snd) ` set (collect_args ro ''prereq'' arg_prereq st) \<subseteq> {''require''}"
  proof
    fix k assume "k \<in> (fst \<circ> snd) ` set (collect_args ro ''prereq'' arg_prereq st)"
    then obtain t src where "(t, k, src) \<in> set (collect_args ro ''prereq'' arg_prereq st)" by auto
    then show "k \<in> {''require''}" unfolding set_prereq_edges [OF assms] by simp
  qed
qed

lemma transform_other_keys:
  assumes "cpermutes ro" "wf_states st" "transformRequisites ro st = Inr st'"
    "k \<notin> set requisiteKeys" "k \<noteq> ''prereq''"
  shows "lk (args_of st' i m) k =
    (if k \<in> insert ''listen'' (set (m_keys inverseForward)) then None else lk (args_of st i m) k)"
proof -
  obtain st2 where st2: "inject_all ''inverse requisite'' (inverse_edges ro (alias_step ro st))
      (map_args drop_inverse (alias_step ro st)) = Inr st2"
    and st3: "inject_all ''prereq'' (collect_args ro ''prereq'' arg_prereq st2) st2 = Inr st'"
    and wf2: "wf_states st2" by (rule transform_stages [OF assms(1-3)])
  have k: "k \<notin> snd ` set inverseForward" "k \<noteq> ''require''" "k \<noteq> ''watch''"
    using assms(4,5) by (auto simp: inverseForward_eq requisiteKeys_def)
  have "lk (args_of st' i m) k = lk (args_of st2 i m) k"
    using inject_all_entries(2) [OF st3] edge_keys(2) [OF assms(1) wf2] k(2) by blast
  also have "\<dots> = lk (args_of (map_args drop_inverse (alias_step ro st)) i m) k"
    using inject_all_entries(2) [OF st2] edge_keys(1) [OF assms(1) alias_step_facts(1) [OF assms(1,2)]] k(1)
    by blast
  also have "\<dots> = (if k \<in> set (m_keys inverseForward) then None else lk (args_of (alias_step ro st) i m) k)"
    by (simp add: args_of_map_args drop_inverse_args(1))
  also have "\<dots> = (if k \<in> insert ''listen'' (set (m_keys inverseForward)) then None else lk (args_of st i m) k)"
    using alias_step_facts(2) [OF assms(1,2), of i m] k(3) by (auto simp: aliased_def)
  finally show ?thesis .
qed

lemma transform_succeeds:
  assumes "cpermutes ro" "wf_states st"
  shows "(\<exists>st'. transformRequisites ro st = Inr st') \<longleftrightarrow>
    (\<forall>inK \<in> insert ''prereq'' (set (m_keys inverseForward)). \<forall>src t. declares st inK src t \<longrightarrow> CHR '':'' \<in> set t)"
proof -
  let ?st1 = "alias_step ro st" and ?st1' = "map_args drop_inverse (alias_step ro st)"
  note s1 = stage1_ent [OF assms] and wf1 = alias_step_facts(1) [OF assms]
  have decl: "declares ?st1 inK src t = declares st inK src t"
    if "inK \<in> insert ''prereq'' (set (m_keys inverseForward))" for inK src t
    using that by (intro declares_mono) (auto simp: s1(1) inverseForward_eq)
  have inv: "(\<exists>st2. inverse_step ro ?st1 = Inr st2) \<longleftrightarrow>
      (\<forall>inK \<in> set (m_keys inverseForward). \<forall>src t. declares st inK src t \<longrightarrow> CHR '':'' \<in> set t)"
  proof -
    have "(\<exists>st2. inverse_step ro ?st1 = Inr st2) \<longleftrightarrow>
        (\<forall>t key src. (t, key, src) \<in> set (inverse_edges ro ?st1) \<longrightarrow> CHR '':'' \<in> set t)"
      unfolding inverse_step_def Let_def inverse_edges_def [symmetric] inject_all_Inr_iff by auto
    also have "\<dots> \<longleftrightarrow> (\<forall>inK \<in> set (m_keys inverseForward). \<forall>src t. declares ?st1 inK src t \<longrightarrow> CHR '':'' \<in> set t)"
      unfolding set_inverse_edges [OF assms(1) wf1] by force
    finally show ?thesis using decl by simp
  qed
  show ?thesis
  proof (cases "inverse_step ro ?st1")
    case (Inl e)
    then show ?thesis using inv by (auto simp: transformRequisites_def)
  next
    case (Inr st2)
    have st2: "inject_all ''inverse requisite'' (inverse_edges ro ?st1) ?st1' = Inr st2"
      using Inr unfolding inverse_step_def Let_def inverse_edges_def [symmetric] .
    have "wf_states ?st1'"
      using wf1 unfolding wf_states_def by (simp add: wf_keys_map_args args_of_map_args drop_inverse_args(2))
    note wf2 = inject_all_entries(3) [OF st2 this]
    have "(\<exists>st'. prereq_step ro st2 = Inr st') \<longleftrightarrow> (\<forall>src t. declares st2 ''prereq'' src t \<longrightarrow> CHR '':'' \<in> set t)"
      unfolding prereq_step_def inject_all_Inr_iff using set_prereq_edges [OF assms(1) wf2] by force
    moreover have "declares st2 ''prereq'' src t \<longleftrightarrow> declares st ''prereq'' src t \<or>
        (\<exists>i m. src = m @ '':'' @ i \<and> (\<exists>t'. (t', ''prereq'', t) \<in> set (inverse_edges ro ?st1) \<and> splitRef t' = Inr (i, m)))"
      for src t
    proof -
      have e: "ent (args_of ?st1' i m) ''prereq'' = ent (args_of st i m) ''prereq''" for i m
      proof -
        have "ent (args_of ?st1' i m) ''prereq'' = ent (args_of ?st1 i m) ''prereq''"
          by (rule ent_lk) (simp add: args_of_map_args drop_inverse_args(1) inverseForward_eq)
        then show ?thesis by (simp add: s1(1))
      qed
      show ?thesis unfolding declares_def inject_all_set [OF st2] e Un_iff mem_Collect_eq by blast
    qed
    moreover have "CHR '':'' \<in> set src" if "(t', key, src) \<in> set (inverse_edges ro ?st1)" for t' key src
      using that unfolding set_inverse_edges [OF assms(1) wf1] declares_def by auto
    ultimately have "(\<exists>st'. prereq_step ro st2 = Inr st') \<longleftrightarrow> (\<forall>src t. declares st ''prereq'' src t \<longrightarrow> CHR '':'' \<in> set t)"
      by blast
    then show ?thesis using inv Inr by (auto simp: transformRequisites_def)
  qed
qed

section \<open>Properties\<close>

text \<open>The requisites under \<open>key\<close> that the builder of module \<open>m\<close> for the state \<open>i\<close> parses.\<close>

definition reqs :: "mergedStateMap \<Rightarrow> string \<Rightarrow> string \<Rightarrow> string \<Rightarrow> string set" where
  "reqs st i m key = set (parseReqList (flattenArgsList (args_of st i m)) key)"

text \<open>
  \<open>asks st inK i m\<close>: the references \<open>module:id\<close> of the states that name the state \<open>i\<close> of module
  \<open>m\<close> in their list \<open>inK\<close>.
\<close>

definition asks :: "mergedStateMap \<Rightarrow> string \<Rightarrow> string \<Rightarrow> string \<Rightarrow> string set" where
  "asks st inK i m =
     {m' @ '':'' @ i' |i' m'. \<exists>t \<in> reqs st i' m' inK. splitRef t = Inr (i, m)}"

lemma reqs_ent: "wf_states st \<Longrightarrow> reqs st i m k = set (ent (args_of st i m) k)"
  by (simp add: reqs_def parseReqList_flatten wf_states_def)

lemma asks_reaches: "wf_states st \<Longrightarrow> asks st inK i m = reaches st inK i m"
  by (auto simp: asks_def reaches_def declares_def reqs_ent)


definition demo_states :: mergedStateMap where
  "demo_states =
     [(''web'', [(''pkg.installed'', [[(''require_in'', GList [GMap [(''service'', GStr ''nginx'')]])]])]),
      (''nginx'', [(''service.running'', [[(''enable'', GBool True)]])])]"

lemma wf_demo_states: "wf_states demo_states"
  by (auto simp: wf_states_def wf_keys_def wf_args_def args_of_def demo_states_def split: option.splits if_splits)


text \<open>
  The rest of the configuration. \<^verbatim>\<open>transformRequisites\<close> removes the inverse lists and listen from every state
  and leaves every key that is neither a requisite nor prereq as it was. It fails exactly
  when some inverse list or prereq names a target that has no colon.
\<close>
theorem transform_requisites_frame:
  assumes "cpermutes ro" "wf_states st"
  shows "((\<exists>st'. transformRequisites ro st = Inr st') \<longleftrightarrow>
      (\<forall>inK \<in> insert ''prereq'' (set (m_keys inverseForward)).
         \<forall>i m. \<forall>t \<in> reqs st i m inK. CHR '':'' \<in> set t)) \<and>
    (\<forall>st' k i m. transformRequisites ro st = Inr st' \<longrightarrow> k \<notin> insert ''prereq'' (set requisiteKeys) \<longrightarrow>
      map_of (flattenArgsList (args_of st' i m)) k =
        (if k \<in> insert ''listen'' (set (m_keys inverseForward)) then None
         else map_of (flattenArgsList (args_of st i m)) k))"
proof (intro conjI allI impI)
  have "(\<forall>src t. declares st inK src t \<longrightarrow> CHR '':'' \<in> set t) \<longleftrightarrow>
      (\<forall>i m. \<forall>t \<in> reqs st i m inK. CHR '':'' \<in> set t)" for inK
    unfolding declares_def reqs_ent [OF assms(2)] by blast
  then show "(\<exists>st'. transformRequisites ro st = Inr st') \<longleftrightarrow>
      (\<forall>inK \<in> insert ''prereq'' (set (m_keys inverseForward)).
         \<forall>i m. \<forall>t \<in> reqs st i m inK. CHR '':'' \<in> set t)"
    unfolding transform_succeeds [OF assms] by simp
next
  fix st' k i m
  assume st': "transformRequisites ro st = Inr st'" and k: "k \<notin> insert ''prereq'' (set requisiteKeys)"
  have "wf_states st'" by (rule transform_stages [OF assms st'])
  then have "wf_args (args_of st' i m)" "wf_args (args_of st i m)"
    using assms(2) by (simp_all add: wf_states_def)
  then show "map_of (flattenArgsList (args_of st' i m)) k =
        (if k \<in> insert ''listen'' (set (m_keys inverseForward)) then None
         else map_of (flattenArgsList (args_of st i m)) k)"
    using transform_other_keys [OF assms st', of k i m] k by (simp add: flatten_wf)
qed

theorem transform_requisites_frame_witness:
  "\<exists>st'. transformRequisites (\<lambda>ctx xs. xs) demo_states = Inr st' \<and>
     map_of (flattenArgsList (args_of st' ''nginx'' ''service.running'')) ''enable'' = Some (GBool True) \<and>
     map_of (flattenArgsList (args_of st' ''web'' ''pkg.installed'')) ''require_in'' = None"
proof -
  have ro: "cpermutes (\<lambda>ctx xs. xs)" by (simp add: cpermutes_def)
  have "\<not> isl (transformRequisites (\<lambda>ctx xs. xs) demo_states)" by code_simp
  then obtain st' where st': "transformRequisites (\<lambda>ctx xs. xs) demo_states = Inr st'"
    by (cases "transformRequisites (\<lambda>ctx xs. xs) demo_states") auto
  have "map_of (flattenArgsList (args_of demo_states ''nginx'' ''service.running'')) ''enable'' = Some (GBool True)"
    by (simp add: demo_states_def args_of_def flattenArgsList_def)
  with transform_requisites_frame [OF ro wf_demo_states] st' show ?thesis
    by (simp add: requisiteKeys_def inverseForward_eq)
qed


end
