(* ===== verification/TestModules.thy ===== *)
theory TestModules
  imports Registry
begin

text \<open>
  The \<^verbatim>\<open>test.*\<close> state modules of \<^verbatim>\<open>src/pkg/state/modules/test\<close>, complete with builder, check,
  apply and revert, and the contract every builder of a state module keeps: the name of a state is
  \<open>module:id\<close> and its requisites are those of its configuration. The decoder of module parameters
  (\<^verbatim>\<open>modschema\<close>) is an argument of the builders; it answers with the value of the module's own
  parameters.
\<close>

record test_params =
  tp_Result :: bool
  tp_Changes :: bool
  tp_Comment :: string

type_synonym test_decoder = "string \<Rightarrow> string \<Rightarrow> config \<Rightarrow> test_params result"

definition no_change :: ApplyResult where
  "no_change = \<lparr>ar_Changed = False, ar_Diff = '''', ar_Details = []\<rparr>"

definition check_answer :: "bool \<Rightarrow> 'w \<Rightarrow> CheckResult result \<times> 'w" where
  "check_answer b w = (Inr \<lparr>cr_NeedsChange = b, cr_Diff = ''''\<rparr>, w)"

definition plain_state ::
  "string \<Rightarrow> Requisites \<Rightarrow> bool \<Rightarrow> ApplyResult result \<Rightarrow> 'w State" where
  "plain_state name rq needs result =
     \<lparr>st_Name = name, st_Reqs = rq, st_Check = check_answer needs, st_Apply = Pair result,
      st_Revert = Pair (Inr no_change), st_Order = None, st_RetrySpec = None, st_FailHard = None,
      st_PrereqTargets = None\<rparr>"

definition decoded ::
  "test_decoder \<Rightarrow> string \<Rightarrow> bool \<Rightarrow> (test_params \<Rightarrow> ApplyResult result) \<Rightarrow> 'w Builder" where
  "decoded decode mdl needs result ident cfg =
     (case decode mdl ident cfg of
        Inl e \<Rightarrow> Inl (mdl @ '': '' @ e)
      | Inr p \<Rightarrow> Inr (plain_state (mdl @ '':'' @ ident) (ParseRequisites cfg) needs (result p)))"

definition TestPing_Apply :: "test_params \<Rightarrow> ApplyResult result" where
  "TestPing_Apply p = Inr \<lparr>ar_Changed = False, ar_Diff = '''', ar_Details = [(''result'', ''true'')]\<rparr>"

definition NewTestPingBuilder :: "test_decoder \<Rightarrow> 'w Builder" where
  "NewTestPingBuilder decode = decoded decode ''test.ping'' True TestPing_Apply"

definition TestNop_Apply :: "test_params \<Rightarrow> ApplyResult result" where
  "TestNop_Apply p = Inr \<lparr>ar_Changed = False, ar_Diff = '''', ar_Details = [(''result'', ''true'')]\<rparr>"

definition NewTestNopBuilder :: "test_decoder \<Rightarrow> 'w Builder" where
  "NewTestNopBuilder decode = decoded decode ''test.nop'' False TestNop_Apply"

definition TestFailWithoutChanges_Apply :: "test_params \<Rightarrow> ApplyResult result" where
  "TestFailWithoutChanges_Apply p =
     (let msg = (if tp_Comment p = '''' then ''failure without changes'' else tp_Comment p)
      in Inl (''test.fail_without_changes: '' @ msg))"

definition NewTestFailWithoutChangesBuilder :: "test_decoder \<Rightarrow> 'w Builder" where
  "NewTestFailWithoutChangesBuilder decode =
     decoded decode ''test.fail_without_changes'' True TestFailWithoutChanges_Apply"

definition TestSucceedWithChanges_Apply :: "test_params \<Rightarrow> ApplyResult result" where
  "TestSucceedWithChanges_Apply p =
     Inr \<lparr>ar_Changed = True, ar_Diff = ''test.succeed_with_changes: reported changes'',
          ar_Details = (''result'', ''true'') #
            (if tp_Comment p = '''' then [] else [(''comment'', tp_Comment p)])\<rparr>"

definition NewTestSucceedWithChangesBuilder :: "test_decoder \<Rightarrow> 'w Builder" where
  "NewTestSucceedWithChangesBuilder decode =
     decoded decode ''test.succeed_with_changes'' True TestSucceedWithChanges_Apply"

definition TestConfigurableTestState_Apply :: "test_params \<Rightarrow> ApplyResult result" where
  "TestConfigurableTestState_Apply p =
     (if \<not> tp_Result p
      then let msg = (if tp_Comment p = '''' then ''configured failure'' else tp_Comment p)
           in Inl (''test.configurable_test_state: '' @ msg)
      else Inr \<lparr>ar_Changed = tp_Changes p, ar_Diff = ''test.configurable_test_state: applied'',
                ar_Details = (''result'', ''true'') #
                  (if tp_Comment p = '''' then [] else [(''comment'', tp_Comment p)])\<rparr>)"

definition NewTestConfigurableTestStateBuilder :: "test_decoder \<Rightarrow> 'w Builder" where
  "NewTestConfigurableTestStateBuilder decode =
     decoded decode ''test.configurable_test_state'' True TestConfigurableTestState_Apply"

section \<open>Registration\<close>

text \<open>
  A row of the table of built-in modules, with its builder already resolved. A malformed row makes
  \<^verbatim>\<open>RegisterAll\<close> panic; the model then answers with the message.
\<close>

record 'w Registration =
  rg_Name :: string
  rg_Spec :: "Spec option"
  rg_Build :: "'w Builder"

fun RegisterAll :: "'w Registration list \<Rightarrow> 'w Registry \<Rightarrow> 'w Registry result" where
  "RegisterAll [] reg = Inr reg"
| "RegisterAll (r # rows) reg =
     (case rg_Spec r of
        None \<Rightarrow> RegisterAll rows (Register (rg_Name r) (rg_Build r) reg)
      | Some spec \<Rightarrow>
          if sp_Module spec \<noteq> rg_Name r
          then Inl (''modules: registration '' @ quote_q (rg_Name r) @ '' has spec for module '' @
                    quote_q (sp_Module spec))
          else (case RegisterSpec (Some spec) (Some (rg_Build r)) reg of
                  Inl e \<Rightarrow> Inl (''modules: register spec '' @ rg_Name r @ '': '' @ e)
                | Inr reg' \<Rightarrow> RegisterAll rows reg'))"

definition test_row :: "string \<Rightarrow> ParamInfo list \<Rightarrow> 'w Builder \<Rightarrow> 'w Registration" where
  "test_row name params b =
     \<lparr>rg_Name = name,
      rg_Spec = Some \<lparr>sp_Module = name, sp_Info = \<lparr>mi_OpenParams = False, mi_Params = params\<rparr>\<rparr>,
      rg_Build = b\<rparr>"

definition param :: "string \<Rightarrow> ParamInfo" where
  "param name = \<lparr>fi_Name = name, fi_Aliases = [], fi_Primary = False\<rparr>"

definition test_rows :: "test_decoder \<Rightarrow> 'w Registration list" where
  "test_rows decode =
     [test_row ''test.ping'' [] (NewTestPingBuilder decode),
      test_row ''test.nop'' [] (NewTestNopBuilder decode),
      test_row ''test.fail_without_changes'' [param ''comment''] (NewTestFailWithoutChangesBuilder decode),
      test_row ''test.succeed_with_changes'' [param ''comment''] (NewTestSucceedWithChangesBuilder decode),
      test_row ''test.configurable_test_state'' [param ''result'', param ''changes'', param ''comment'']
        (NewTestConfigurableTestStateBuilder decode)]"

section \<open>The contract of builders\<close>

definition keeps_contract :: "string \<Rightarrow> 'w Builder \<Rightarrow> bool" where
  "keeps_contract mdl b \<longleftrightarrow>
     (\<forall>ident cfg s. b ident cfg = Inr s \<longrightarrow> st_Name s = mdl @ '':'' @ ident \<and> st_Reqs s = ParseRequisites cfg)"

text \<open>A registry whose builders all keep the contract; what the compiler proofs rely on.\<close>

locale builders =
  fixes build :: "string \<Rightarrow> string \<Rightarrow> config \<Rightarrow> 'w State result"
  assumes built_name: "build mdl ident cfg = Inr s \<Longrightarrow> st_Name s = mdl @ '':'' @ ident"
    and built_reqs: "build mdl ident cfg = Inr s \<Longrightarrow> st_Reqs s = ParseRequisites cfg"

definition registry_ok :: "'w Registry \<Rightarrow> bool" where
  "registry_ok reg \<longleftrightarrow> (\<forall>(mdl, b) \<in> set (r_builders reg). keeps_contract mdl b)"

lemma registry_ok_builders:
  assumes "registry_ok reg"
  shows "builders (Build reg)"
proof
  fix mdl ident cfg s
  assume "Build reg mdl ident cfg = Inr s"
  then obtain b where "map_of (r_builders reg) mdl = Some b" "b ident cfg = Inr s"
    by (auto simp: Build_def split: option.splits)
  then have "keeps_contract mdl b" using assms map_of_SomeD by (fastforce simp: registry_ok_def)
  then show "st_Name s = mdl @ '':'' @ ident" "st_Reqs s = ParseRequisites cfg"
    using \<open>b ident cfg = Inr s\<close> by (simp_all add: keeps_contract_def)
qed

lemma registry_ok_new: "registry_ok NewRegistry"
  by (simp add: registry_ok_def NewRegistry_def)

lemma registry_ok_m_set:
  "registry_ok reg \<Longrightarrow> keeps_contract n b \<Longrightarrow>
     registry_ok (reg\<lparr>r_builders := m_set n b (r_builders reg), r_specs := sp\<rparr>)"
  using set_m_set [of n b "r_builders reg"] by (auto simp: registry_ok_def)

lemma registry_ok_RegisterAll:
  "\<lbrakk>RegisterAll rows reg = Inr reg'; registry_ok reg;
    \<forall>r \<in> set rows. keeps_contract (rg_Name r) (rg_Build r)\<rbrakk> \<Longrightarrow> registry_ok reg'"
proof (induction rows reg rule: RegisterAll.induct)
  case (2 r rows reg)
  show ?case
  proof (cases "rg_Spec r")
    case None
    then show ?thesis using 2 by (simp add: Register_def registry_ok_m_set)
  next
    case (Some spec)
    then obtain reg1 where r1: "sp_Module spec = rg_Name r"
      "RegisterSpec (Some spec) (Some (rg_Build r)) reg = Inr reg1" "RegisterAll rows reg1 = Inr reg'"
      using "2.prems"(1) by (auto split: if_splits sum.splits)
    then have "registry_ok reg1"
      using "2.prems"(2,3) by (auto simp: RegisterSpec_def registry_ok_m_set split: if_splits)
    then show ?thesis using "2.IH"(2) [OF Some _ r1(2,3)] r1(1) "2.prems"(3) by simp
  qed
qed simp

lemma decoded_contract: "keeps_contract mdl (decoded decode mdl needs result)"
  by (auto simp: keeps_contract_def decoded_def plain_state_def split: sum.splits)

lemma test_rows_contract:
  "\<forall>r \<in> set (test_rows decode). keeps_contract (rg_Name r) (rg_Build r)"
  by (simp add: test_rows_def test_row_def decoded_contract NewTestPingBuilder_def NewTestNopBuilder_def
      NewTestFailWithoutChangesBuilder_def NewTestSucceedWithChangesBuilder_def
      NewTestConfigurableTestStateBuilder_def)

definition test_registry :: "test_decoder \<Rightarrow> 'w Registry" where
  "test_registry decode = (case RegisterAll (test_rows decode) NewRegistry of Inr reg \<Rightarrow> reg | Inl e \<Rightarrow> NewRegistry)"

lemma test_registry_ok: "registry_ok (test_registry decode)"
  using registry_ok_RegisterAll [OF _ registry_ok_new test_rows_contract]
  by (auto simp: test_registry_def registry_ok_new split: sum.splits)

interpretation test_builders: builders "Build (test_registry decode)" for decode
  by (rule registry_ok_builders [OF test_registry_ok])

end
