(* ===== verification/CompilerBuild.thy ===== *)
theory CompilerBuild
  imports CompilerLoad CompilerRequisites TestModules
begin

text \<open>
  From the merged state map to states (the build loop of \<^verbatim>\<open>CompileMultiple\<close> in
  \<^verbatim>\<open>src/pkg/state/compiler/compiler.go\<close>): which states are built, under which names and with which
  requisites, \<^verbatim>\<open>names\<close> lists included.
\<close>

section \<open>Building a list\<close>

lemma build_list_ok:
  "build_list f xs = Inr ys \<Longrightarrow> ys = concat (map (\<lambda>x. projr (f x)) xs) \<and> (\<forall>x \<in> set xs. \<not> isl (f x))"
proof (induction xs arbitrary: ys)
  case (Cons x xs)
  then obtain zs zs' where "f x = Inr zs" "build_list f xs = Inr zs'" "ys = zs @ zs'"
    by (cases "f x"; cases "build_list f xs") auto
  then show ?case using Cons.IH by simp
qed simp

lemma build_list_set:
  assumes "build_list f xs = Inr ys"
  shows "y \<in> set ys \<longleftrightarrow> (\<exists>x \<in> set xs. \<exists>zs. f x = Inr zs \<and> y \<in> set zs)"
proof -
  note ok = build_list_ok [OF assms]
  have "y \<in> set ys \<longleftrightarrow> (\<exists>x \<in> set xs. y \<in> set (projr (f x)))" using ok by simp
  also have "\<dots> \<longleftrightarrow> (\<exists>x \<in> set xs. \<exists>zs. f x = Inr zs \<and> y \<in> set zs)"
    using ok by (metis sum.sel(2) sum.collapse(2))
  finally show ?thesis .
qed

text \<open>An entry of the map: a state id and one of its modules.\<close>

definition entry :: "mergedStateMap \<Rightarrow> string \<Rightarrow> string \<Rightarrow> args \<Rightarrow> bool" where
  "entry st i m as \<longleftrightarrow> (\<exists>ms. map_of st i = Some ms \<and> map_of ms m = Some as)"

lemma entry_args: "entry st i m as \<Longrightarrow> args_of st i m = as"
  by (auto simp: entry_def args_of_def)

lemma args_entry: "args_of st i m \<noteq> [] \<Longrightarrow> entry st i m (args_of st i m)"
  by (auto simp: entry_def args_of_def split: option.splits)

lemma build_states_set:
  assumes "cpermutes ro" "wf_keys st" "build_states ro reg guards st = Inr states"
  shows "s \<in> set states \<longleftrightarrow>
    (\<exists>i m as ss. entry st i m as \<and> build_module reg guards i (m, as) = Inr ss \<and> s \<in> set ss)"
proof -
  let ?f = "\<lambda>(i, ms). build_list (build_module reg guards i) (ranged ro [''build'', i] ms)"
  have d: "distinct (m_keys st)" "\<And>i ms. map_of st i = Some ms \<Longrightarrow> distinct (m_keys ms)"
    using assms(2) by (auto simp: wf_keys_def)
  have st: "(i, ms) \<in> set (ranged ro [''build''] st) \<longleftrightarrow> map_of st i = Some ms" for i ms
    using set_ranged [OF assms(1) d(1)] d(1) by simp
  have ms: "(m, as) \<in> set (ranged ro [''build'', i] ms) \<longleftrightarrow> map_of ms m = Some as"
    if "map_of st i = Some ms" for i ms m as
    using set_ranged [OF assms(1) d(2) [OF that]] d(2) [OF that] by simp
  have run: "build_list ?f (ranged ro [''build''] st) = Inr states"
    using assms(3) by (simp add: build_states_def)
  have all: "\<exists>zs. ?f (i, ms) = Inr zs" if "map_of st i = Some ms" for i ms
  proof -
    have "(i, ms) \<in> set (ranged ro [''build''] st)" using st that by blast
    then have "\<not> isl (?f (i, ms))" using build_list_ok [OF run] by blast
    then show ?thesis by (cases "?f (i, ms)") (simp_all del: split_conv)
  qed
  have one: "(\<exists>zs. ?f (i, ms) = Inr zs \<and> s \<in> set zs) \<longleftrightarrow>
      (\<exists>m as ss. map_of ms m = Some as \<and> build_module reg guards i (m, as) = Inr ss \<and> s \<in> set ss)"
    if im: "map_of st i = Some ms" for i ms
  proof -
    obtain zs where zs: "?f (i, ms) = Inr zs" using all [OF im] by blast
    then have "s \<in> set zs \<longleftrightarrow>
        (\<exists>x \<in> set (ranged ro [''build'', i] ms). \<exists>ss. build_module reg guards i x = Inr ss \<and> s \<in> set ss)"
      by (intro build_list_set) simp
    then show ?thesis unfolding zs Bex_def split_paired_Ex ms [OF im] by simp
  qed
  have "s \<in> set states \<longleftrightarrow> (\<exists>i ms. map_of st i = Some ms \<and> (\<exists>zs. ?f (i, ms) = Inr zs \<and> s \<in> set zs))"
    unfolding build_list_set [OF run] Bex_def split_paired_Ex st ..
  then show ?thesis using one unfolding entry_def by blast
qed


section \<open>Single states and names lists\<close>

lemma WrapAttributes_same [simp]:
  "st_Name (WrapAttributes s a g) = st_Name s" "st_Reqs (WrapAttributes s a g) = st_Reqs s"
  by (simp_all add: WrapAttributes_def)

lemma buildOne_facts:
  assumes "builders (Build reg)" "buildOne reg guards m i c = Inr s"
  shows "st_Name s = m @ '':'' @ i" "st_Reqs s = ParseRequisites c"
  using assms(2) builders.built_name [OF assms(1)] builders.built_reqs [OF assms(1)]
  by (auto simp: buildOne_def split: sum.splits)

lemma build_names_each:
  "build_names reg guards i m key c names = Inr ss \<Longrightarrow>
     list_all2 (\<lambda>n s. buildOne reg guards m n (name_instance (fst key) (snd key) c n) = Inr s) names ss"
proof (induction names arbitrary: ss)
  case (Cons n names)
  then obtain s ss' where "buildOne reg guards m n (name_instance (fst key) (snd key) c n) = Inr s"
    "build_names reg guards i m key c names = Inr ss'" "ss = s # ss'"
    by (cases "build_names reg guards i m key c names") (auto split: sum.splits)
  then show ?case using Cons.IH by simp
qed simp

lemma map_of_fold_del: "map_of (fold m_del ks m) k = (if k \<in> set ks then None else map_of m k)"
  by (induction ks arbitrary: m) (auto simp: map_of_m_del)

lemma name_instance_lookup:
  "map_of (name_instance key al c n) k =
     (if k = key then Some (GStr n) else if k = namesKey \<or> k \<in> set al then None else map_of c k)"
  by (simp add: name_instance_def map_of_m_set map_of_fold_del map_of_m_del)

lemma build_module_names:
  assumes "builders (Build reg)" "build_module reg guards i (m, as) = Inr ss"
  shows "map st_Name ss =
    map (\<lambda>n. m @ '':'' @ n) (case expandNames (flattenArgsList as) of None \<Rightarrow> [i] | Some names \<Rightarrow> names)"
proof (cases "expandNames (flattenArgsList as)")
  case None
  then show ?thesis
    using assms buildOne_facts [OF assms(1)] by (auto simp: build_module_def split: sum.splits)
next
  case (Some names)
  then have "build_names reg guards i m (namesInjectKey reg m) (flattenArgsList as) names = Inr ss"
    using assms(2) by (simp add: build_module_def)
  from build_names_each [OF this] have "list_all2 (\<lambda>n s. st_Name s = m @ '':'' @ n) names ss"
    by (rule list_all2_mono) (rule buildOne_facts(1) [OF assms(1)])
  then have "map st_Name ss = map (\<lambda>n. m @ '':'' @ n) names" by (induction rule: list_all2_induct) auto
  then show ?thesis by (simp add: Some)
qed

lemma build_states_entry:
  assumes "cpermutes ro" "wf_keys st" "build_states ro reg guards st = Inr states" and "entry st i m as"
  shows "\<exists>ss. build_module reg guards i (m, as) = Inr ss"
proof -
  obtain ms where ms: "map_of st i = Some ms" "map_of ms m = Some as" using assms(4) by (auto simp: entry_def)
  have d: "distinct (m_keys st)" "distinct (m_keys ms)" using assms(2) ms(1) by (auto simp: wf_keys_def)
  have mem: "(i, ms) \<in> set (ranged ro [''build''] st)" "(m, as) \<in> set (ranged ro [''build'', i] ms)"
    using map_of_SomeD [OF ms(1)] map_of_SomeD [OF ms(2)]
    unfolding set_ranged [OF assms(1) d(1)] set_ranged [OF assms(1) d(2)] .
  let ?f = "\<lambda>(i, ms). build_list (build_module reg guards i) (ranged ro [''build'', i] ms)"
  have "\<not> isl (?f (i, ms))"
    using build_list_ok [of ?f "ranged ro [''build''] st" states] assms(3) mem(1)
    unfolding build_states_def by blast
  then obtain zs where "build_list (build_module reg guards i) (ranged ro [''build'', i] ms) = Inr zs"
    by (cases "?f (i, ms)") simp_all
  then have "\<not> isl (build_module reg guards i (m, as))" using build_list_ok mem(2) by blast
  then show ?thesis by (cases "build_module reg guards i (m, as)") simp_all
qed

lemma build_plain_entry:
  assumes "cpermutes ro" "wf_keys st" "builders (Build reg)" "build_states ro reg guards st = Inr states"
    and "entry st i m as" "expandNames (flattenArgsList as) = None"
  obtains s where "s \<in> set states" "st_Name s = m @ '':'' @ i"
    "st_Reqs s = ParseRequisites (flattenArgsList as)"
proof -
  obtain ss where "build_module reg guards i (m, as) = Inr ss"
    using build_states_entry [OF assms(1,2,4,5)] by blast
  then obtain s where s: "build_module reg guards i (m, as) = Inr [s]"
      "buildOne reg guards m i (flattenArgsList as) = Inr s"
    using assms(6) by (auto simp: build_module_def split: sum.splits)
  then have "s \<in> set states"
    unfolding build_states_set [OF assms(1,2,4)] using assms(5) by (intro exI conjI) auto
  then show thesis using that buildOne_facts [OF assms(3) s(2)] by blast
qed

section \<open>References and top files\<close>

lemma splitRef_parts:
  assumes "CHR '':'' \<notin> set i"
  shows "splitRef (m @ '':'' @ i) = Inr (i, m)"
proof -
  have "takeWhile (\<lambda>c. c \<noteq> CHR '':'') (rev i @ [CHR '':''] @ rev m) = rev i"
    using assms by (subst takeWhile_append2) auto
  then show ?thesis by (simp add: splitRef_def Let_def)
qed

lemma splitRef_no_colon:
  assumes "splitRef r = Inr (i, m)"
  shows "r = m @ '':'' @ i" "CHR '':'' \<notin> set i"
proof -
  let ?P = "\<lambda>c. c \<noteq> CHR '':''"
  have c: "CHR '':'' \<in> set (rev r)" and i: "i = rev (takeWhile ?P (rev r))"
    and m: "m = take (length r - Suc (length i)) r"
    using assms by (auto simp: splitRef_def Let_def split: if_splits)
  show "CHR '':'' \<notin> set i" using i by (auto dest: set_takeWhileD)
  obtain ys where ys: "dropWhile ?P (rev r) = CHR '':'' # ys"
    using c by (cases "dropWhile ?P (rev r)") (auto simp: dropWhile_eq_Cons_conv)
  have "rev r = takeWhile ?P (rev r) @ CHR '':'' # ys" using ys by (metis takeWhile_dropWhile_id)
  then have "rev (rev r) = rev ys @ '':'' @ i" unfolding i by (metis append.assoc rev.simps(2) rev_append)
  then have r: "r = rev ys @ '':'' @ i" by simp
  then have "m = rev ys" using m by simp
  then show "r = m @ '':'' @ i" using r by simp
qed

lemma add_refs_append: "add_refs refs (xs @ ys) = add_refs (add_refs refs xs) ys"
  by (induction xs arbitrary: refs) auto

lemma add_refs_Nil: "add_refs [] rs = rev (remdups (rev rs))"
proof (induction rs rule: rev_induct)
  case (snoc r rs)
  have "set (add_refs [] rs) = set rs" using snoc by simp
  then show ?case using snoc by (simp add: add_refs_append)
qed simp

section \<open>Properties\<close>



definition demo_decoder :: test_decoder where
  "demo_decoder mdl ident cfg = Inr \<lparr>tp_Result = True, tp_Changes = True, tp_Comment = ''''\<rparr>"

definition demo_registry :: "nat Registry" where
  "demo_registry = test_registry demo_decoder"

definition demo_merged :: mergedStateMap where
  "demo_merged =
     [(''web'', [(''test.ping'', [[(''require'', GList [GStr ''test.nop:x''])]])]),
      (''all'', [(''test.nop'', [[(''names'', GList [GStr ''x'', GStr ''y''])], [(''comment'', GStr ''c'')]])])]"

lemma wf_demo_merged: "wf_keys demo_merged"
  by (auto simp: wf_keys_def demo_merged_def split: if_splits)

lemma demo_registry_ok: "registry_ok demo_registry"
  unfolding demo_registry_def by (rule test_registry_ok)

lemma demo_built:
  obtains states where "build_states (\<lambda>ctx xs. rev xs) demo_registry None demo_merged = Inr states"
    "map st_Name states = [''test.nop:x'', ''test.nop:y'', ''test.ping:web'']"
proof -
  have "map_sum id (map st_Name) (build_states (\<lambda>ctx xs. rev xs) demo_registry None demo_merged) =
      Inr [''test.nop:x'', ''test.nop:y'', ''test.ping:web'']"
    by code_simp
  then show thesis
    using that by (cases "build_states (\<lambda>ctx xs. rev xs) demo_registry None demo_merged") auto
qed


text \<open>
  A names list. It builds, in the order of the list, one state per name, whose id is the name and whose
  configuration gives the name to the parameter the module takes it from (its primary parameter, or
  \<open>name\<close>), without the list itself and without the aliases of that parameter, and is otherwise the
  configuration written in the file.
\<close>
theorem names_expansion:
  assumes "expandNames (flattenArgsList as) = Some names" "build_module reg guards i (m, as) = Inr ss"
    and "namesInjectKey reg m = (key, aliases)"
  shows "list_all2 (\<lambda>n s. \<exists>c. buildOne reg guards m n c = Inr s \<and>
      (\<forall>k. map_of c k = (if k = key then Some (GStr n) else if k = ''names'' \<or> k \<in> set aliases then None
                         else map_of (flattenArgsList as) k))) names ss"
proof -
  have "build_names reg guards i m (key, aliases) (flattenArgsList as) names = Inr ss"
    using assms by (simp add: build_module_def)
  note each = build_names_each [OF this]
  have "namesKey = ''names''" by code_simp
  then show ?thesis
    using each by (rule_tac list_all2_mono [OF each]) (auto simp: name_instance_lookup)
qed

theorem names_expansion_witness:
  "\<exists>ss. build_module demo_registry None ''all''
       (''test.nop'', [[(''names'', GList [GStr ''x'', GStr ''y''])], [(''comment'', GStr ''c'')]]) = Inr ss \<and>
     length ss = 2"
proof -
  let ?as = "[[(''names'', GList [GStr ''x'', GStr ''y''])], [(''comment'', GStr ''c'')]]"
  have n: "expandNames (flattenArgsList ?as) = Some [''x'', ''y'']" by code_simp
  have "\<not> isl (build_module demo_registry None ''all'' (''test.nop'', ?as))" by code_simp
  then obtain ss where ss: "build_module demo_registry None ''all'' (''test.nop'', ?as) = Inr ss"
    by (cases "build_module demo_registry None ''all'' (''test.nop'', ?as)") auto
  obtain key al where "namesInjectKey demo_registry ''test.nop'' = (key, al)" by fastforce
  from names_expansion [OF n ss this] have "length ss = 2" by (auto dest: list_all2_lengthD)
  then show ?thesis using ss by blast
qed

text \<open>
  C25: references. A reference \<open>module:id\<close> splits back into its parts exactly when the id has no colon, and
  every reference that can be split is put together again by its parts. (An id with a colon in it, such
  as a URL, cannot be the target of an inverse requisite: the text up to its last colon
  is taken for the module.)
\<close>
theorem reference_roundtrip:
  "(splitRef (m @ '':'' @ i) = Inr (i, m)) = (CHR '':'' \<notin> set i) \<and>
   (splitRef r = Inr (i', m') \<longrightarrow> m' @ '':'' @ i' = r)"
  using splitRef_parts [of i m] splitRef_no_colon [of "m @ '':'' @ i" i m] splitRef_no_colon(1) [of r i' m']
  by metis

theorem reference_roundtrip_witness:
  "splitRef ''pkg.installed:nginx'' = Inr (''nginx'', ''pkg.installed'') \<and>
   ''pkg.installed'' @ '':'' @ ''nginx'' = ''pkg.installed:nginx''"
proof
  show s: "splitRef ''pkg.installed:nginx'' = Inr (''nginx'', ''pkg.installed'')" by code_simp
  show "''pkg.installed'' @ '':'' @ ''nginx'' = ''pkg.installed:nginx''"
    using reference_roundtrip [of "''pkg''" "''x''" "''pkg.installed:nginx''" "''nginx''" "''pkg.installed''"] s
    by blast
qed

text \<open>
  The top file. The references for a peel are those of all entries whose pattern matches it, in the
  order of the file, each kept at its first occurrence only.
\<close>
theorem resolve_for_peel:
  "ResolveForPeel matches envs peelID facts =
     rev (remdups (rev (concat (map te_StateRefs
       (filter (\<lambda>entry. matches (te_Pattern entry) peelID facts) (concat (map se_Entries envs)))))))"
proof -
  let ?m = "\<lambda>e :: StateTargetEntry. matches (te_Pattern e) peelID facts"
  let ?step = "\<lambda>e refs. if ?m e then add_refs refs (te_StateRefs e) else refs"
  have flat: "fold (\<lambda>env. fold ?step (se_Entries env)) envs refs = fold ?step (concat (map se_Entries envs)) refs" for refs
    by (induction envs arbitrary: refs) auto
  have "fold ?step es refs = add_refs refs (concat (map te_StateRefs (filter ?m es)))" for es refs
    by (induction es arbitrary: refs) (auto simp: add_refs_append)
  then show ?thesis by (simp add: ResolveForPeel_def flat add_refs_Nil)
qed

end
