(* ===== verification/PeelID.thy ===== *)
theory PeelID
  imports GoPath
begin

text \<open>
  Peel ids: the functions of \<^verbatim>\<open>src/pkg/enroll/verify.go\<close> that check an id, derive one from a host
  name, show one to a human and adapt a target pattern to the encoding of dots.
\<close>

definition maxPeelIDLength :: nat where
  "maxPeelIDLength = 128"

definition isAlnum :: "char \<Rightarrow> bool" where
  "isAlnum c \<longleftrightarrow> (CHR ''a'' \<le> c \<and> c \<le> CHR ''z'') \<or> (CHR ''A'' \<le> c \<and> c \<le> CHR ''Z'') \<or>
     (CHR ''0'' \<le> c \<and> c \<le> CHR ''9'')"

definition isPeelIDByte :: "char \<Rightarrow> bool" where
  "isPeelIDByte c \<longleftrightarrow> isAlnum c \<or> c = CHR ''_'' \<or> c = CHR ''-''"

text \<open>\<^verbatim>\<open>^[a-zA-Z0-9][a-zA-Z0-9_-]*$\<close>\<close>

definition peelIDRegex :: "string \<Rightarrow> bool" where
  "peelIDRegex s \<longleftrightarrow> (case s of [] \<Rightarrow> False | c # cs \<Rightarrow> isAlnum c \<and> list_all isPeelIDByte cs)"

definition ValidatePeelID :: "string \<Rightarrow> string option" where
  "ValidatePeelID peelID =
     (if peelID = '''' then Some ''enroll: peel ID is required''
      else if length peelID > maxPeelIDLength
      then Some (''enroll: peel ID exceeds maximum length of '' @ nat_dec maxPeelIDLength @ '' characters'')
      else if has_prefix peelID ''_''
      then Some (''enroll: peel ID must not start with '' @ [CHR 0x27] @ ''_'' @ [CHR 0x27] @
        '' (reserved for trusted event origins such as _master and _admin)'')
      else if list_ex (\<lambda>c. c \<in> set ''.*>'') peelID
      then Some (''enroll: peel ID must not contain '' @ [CHR 0x27] @ ''.'' @ [CHR 0x27] @ '', '' @
        [CHR 0x27] @ ''*'' @ [CHR 0x27] @ '', or '' @ [CHR 0x27] @ ''>'' @ [CHR 0x27] @
        '' (peel IDs become NATS subject tokens)'')
      else if \<not> peelIDRegex peelID
      then Some ''enroll: peel ID contains invalid characters (must match ^[a-zA-Z0-9][a-zA-Z0-9_-]*$)''
      else None)"

definition peelIDDotSub :: char where
  "peelIDDotSub = CHR ''_''"

definition sanitize_byte :: "char \<Rightarrow> char" where
  "sanitize_byte c =
     (if isPeelIDByte c then c else if c = CHR ''.'' then peelIDDotSub else CHR ''-'')"

definition SanitizePeelID :: "string \<Rightarrow> string" where
  "SanitizePeelID raw =
     take maxPeelIDLength (dropWhile (\<lambda>c. c = CHR ''-'' \<or> c = CHR ''_'') (map sanitize_byte raw))"

definition DisplayPeelID :: "string \<Rightarrow> string" where
  "DisplayPeelID ident =
     (if ident = '''' \<or> hd ident = CHR ''_'' \<or> CHR ''_'' \<notin> set ident then ident
      else if ValidatePeelID ident \<noteq> None then ident
      else map (\<lambda>c. if c = CHR ''_'' then CHR ''.'' else c) ident)"

text \<open>The part of a pattern up to the bracket that closes a class, or all of it, and the rest.\<close>

fun class_scan :: "string \<Rightarrow> string \<times> string" where
  "class_scan [] = ([], [])"
| "class_scan (c # cs) =
     (if c = CHR '']'' then ([c], cs)
      else if c = CHR 0x5C then
        (case cs of
           [] \<Rightarrow> ([c], [])
         | d # ds \<Rightarrow> (case class_scan ds of (inside, rest) \<Rightarrow> (c # d # inside, rest)))
      else (case class_scan cs of (inside, rest) \<Rightarrow> (c # inside, rest)))"

definition class_head :: "string \<Rightarrow> string" where
  "class_head cs =
     (let neg = (case cs of c # _ \<Rightarrow> if c = CHR ''!'' \<or> c = CHR ''^'' then [c] else [] | [] \<Rightarrow> []);
          rest = drop (length neg) cs
      in neg @ (case rest of c # _ \<Rightarrow> if c = CHR '']'' then [c] else [] | [] \<Rightarrow> []))"

definition class_split :: "string \<Rightarrow> string \<times> string" where
  "class_split cs =
     (case class_scan (drop (length (class_head cs)) cs) of
        (inside, rest) \<Rightarrow> (class_head cs @ inside, rest))"

lemma class_scan_append: "class_scan cs = (inside, rest) \<Longrightarrow> inside @ rest = cs"
  by (induction cs arbitrary: inside rest rule: class_scan.induct)
    (auto split: if_splits list.splits prod.splits)

lemma class_scan_length: "length (snd (class_scan cs)) \<le> length cs"
  using class_scan_append [of cs] by (cases "class_scan cs") auto

lemma class_split_length: "(inside, rest) = class_split cs \<Longrightarrow> length rest < Suc (length cs)"
  using class_scan_length [of "drop (length (class_head cs)) cs"]
  by (auto simp: class_split_def split: prod.splits)

function (sequential) SanitizeGlobDots :: "string \<Rightarrow> string" where
  "SanitizeGlobDots [] = []"
| "SanitizeGlobDots (c # cs) =
     (if c = CHR 0x5C \<and> cs \<noteq> [] then c # hd cs # SanitizeGlobDots (tl cs)
      else if c = CHR ''['' then
        (case class_split cs of (inside, rest) \<Rightarrow> c # inside @ SanitizeGlobDots rest)
      else if c = CHR ''.'' then peelIDDotSub # SanitizeGlobDots cs
      else c # SanitizeGlobDots cs)"
  by pat_completeness auto
termination
  by (relation "measure length") (auto simp: neq_Nil_conv class_split_length)


section \<open>Sanitized ids are valid\<close>

lemma isPeelIDByte_sanitize: "isPeelIDByte (sanitize_byte c)"
  by (simp add: sanitize_byte_def isPeelIDByte_def peelIDDotSub_def)

lemma peel_byte_cases: "isPeelIDByte c \<Longrightarrow> c \<noteq> CHR ''-'' \<Longrightarrow> c \<noteq> CHR ''_'' \<Longrightarrow> isAlnum c"
  by (simp add: isPeelIDByte_def)

lemma special_not_peel: "c \<in> set ''.*>'' \<Longrightarrow> \<not> isPeelIDByte c"
  by (auto simp: isPeelIDByte_def isAlnum_def)

lemma ValidatePeelID_iff:
  "ValidatePeelID s = None \<longleftrightarrow> length s \<le> maxPeelIDLength \<and> peelIDRegex s"
proof (cases s)
  case (Cons c cs)
  have "\<not> list_ex (\<lambda>c. c \<in> set ''.*>'') s" if "peelIDRegex s"
  proof -
    have "list_all isPeelIDByte s" using that by (simp add: Cons peelIDRegex_def isPeelIDByte_def)
    then show ?thesis using special_not_peel unfolding list_ex_iff list_all_iff by blast
  qed
  moreover have "\<not> has_prefix s ''_''" if "peelIDRegex s"
    using that by (auto simp: Cons peelIDRegex_def isAlnum_def)
  ultimately show ?thesis by (auto simp: ValidatePeelID_def Cons)
qed (simp add: ValidatePeelID_def peelIDRegex_def)

lemma list_all_dropWhile: "list_all P xs \<Longrightarrow> list_all P (dropWhile Q xs)"
  by (induction xs) auto

lemma sanitize_valid: "SanitizePeelID raw = [] \<or> ValidatePeelID (SanitizePeelID raw) = None"
proof -
  let ?Q = "\<lambda>c. c = CHR ''-'' \<or> c = CHR ''_''"
  let ?d = "dropWhile ?Q (map sanitize_byte raw)"
  have all: "list_all isPeelIDByte ?d"
    by (intro list_all_dropWhile) (simp add: list_all_iff isPeelIDByte_sanitize)
  have "peelIDRegex (take maxPeelIDLength ?d)" if "take maxPeelIDLength ?d \<noteq> []"
  proof (cases ?d)
    case (Cons c cs)
    then have "\<not> ?Q c" unfolding dropWhile_eq_Cons_conv by blast
    then have "isAlnum c" using all Cons by (intro peel_byte_cases) auto
    moreover have "take maxPeelIDLength (c # cs) = c # take 127 cs" by (simp add: maxPeelIDLength_def)
    ultimately show ?thesis
      using all unfolding Cons by (auto simp: peelIDRegex_def list_all_iff dest: in_set_takeD)
  qed (use that in simp)
  then show ?thesis by (auto simp: ValidatePeelID_iff SanitizePeelID_def)
qed

lemma sanitize_fixed:
  assumes "ValidatePeelID s = None"
  shows "SanitizePeelID s = s"
proof -
  have v: "length s \<le> maxPeelIDLength" "peelIDRegex s" using assms by (simp_all add: ValidatePeelID_iff)
  then obtain c cs where s: "s = c # cs" "isAlnum c" "list_all isPeelIDByte cs"
    by (cases s) (auto simp: peelIDRegex_def)
  have "map sanitize_byte s = s"
    using s by (auto simp: sanitize_byte_def isPeelIDByte_def list_all_iff intro: map_idI)
  moreover have "c \<noteq> CHR ''-''" "c \<noteq> CHR ''_''" using s(2) by (auto simp: isAlnum_def)
  ultimately show ?thesis using v(1) s(1) by (simp add: SanitizePeelID_def)
qed

section \<open>Host names\<close>

text \<open>
  A host name as the sources understand it: labels of letters, digits and hyphens, joined by dots,
  beginning with a letter or digit, and short enough not to be cut.
\<close>

definition hostname :: "string \<Rightarrow> bool" where
  "hostname h \<longleftrightarrow> length h \<le> maxPeelIDLength \<and>
     (case h of [] \<Rightarrow> False
      | c # cs \<Rightarrow> isAlnum c \<and> list_all (\<lambda>c. isAlnum c \<or> c = CHR ''-'' \<or> c = CHR ''.'') cs)"

definition encode_dots :: "string \<Rightarrow> string" where
  "encode_dots h = map (\<lambda>c. if c = CHR ''.'' then CHR ''_'' else c) h"

lemma dot_facts: "\<not> isAlnum (CHR ''.'')" "\<not> isAlnum (CHR ''_'')" "\<not> isAlnum (CHR ''-'')"
  "\<not> isAlnum (CHR ''*'')" "\<not> isAlnum (CHR ''?'')" "\<not> isAlnum (CHR ''['')" "\<not> isAlnum (CHR 0x5C)"
  by (simp_all add: isAlnum_def)

lemma sanitize_hostname:
  assumes "hostname h"
  shows "SanitizePeelID h = encode_dots h"
proof -
  obtain c cs where h: "h = c # cs" "isAlnum c" "list_all (\<lambda>c. isAlnum c \<or> c = CHR ''-'' \<or> c = CHR ''.'') cs"
    "length h \<le> maxPeelIDLength"
    using assms by (cases h) (auto simp: hostname_def)
  have "map sanitize_byte h = encode_dots h"
    unfolding encode_dots_def
    using h by (intro map_cong refl) (auto simp: sanitize_byte_def isPeelIDByte_def peelIDDotSub_def list_all_iff dot_facts)
  moreover have "encode_dots h = c # encode_dots cs" "c \<noteq> CHR ''-''" "c \<noteq> CHR ''_''"
    using h(1,2) dot_facts by (auto simp: encode_dots_def)
  ultimately have "dropWhile (\<lambda>c. c = CHR ''-'' \<or> c = CHR ''_'') (map sanitize_byte h) = encode_dots h"
    by (simp only: dropWhile.simps) simp
  then show ?thesis using h(4) by (simp add: SanitizePeelID_def encode_dots_def)
qed

lemma hostname_chars:
  "hostname h \<Longrightarrow> c \<in> set h \<Longrightarrow> isAlnum c \<or> c = CHR ''-'' \<or> c = CHR ''.''"
  by (cases h) (auto simp: hostname_def list_all_iff)

lemma decode_encode:
  assumes "hostname h"
  shows "map (\<lambda>c. if c = CHR ''_'' then CHR ''.'' else c) (encode_dots h) = h"
proof -
  have "CHR ''_'' \<notin> set h" using hostname_chars [OF assms, of "CHR ''_''"] dot_facts by auto
  then show ?thesis by (auto simp: encode_dots_def intro!: map_idI)
qed

lemma display_sanitize:
  assumes "hostname h"
  shows "DisplayPeelID (SanitizePeelID h) = h"
proof -
  have ne: "encode_dots h \<noteq> []" "hd (encode_dots h) \<noteq> CHR ''_''"
    using assms dot_facts by (cases h; auto simp: hostname_def encode_dots_def)+
  have v: "ValidatePeelID (encode_dots h) = None"
    using sanitize_valid [of h] ne(1) by (simp add: sanitize_hostname [OF assms])
  have "encode_dots h = h" if "CHR ''_'' \<notin> set (encode_dots h)"
    using decode_encode [OF assms] that map_idI [of "encode_dots h" "\<lambda>c. if c = CHR ''_'' then CHR ''.'' else c"]
    by metis
  then show ?thesis
    using ne v decode_encode [OF assms] by (auto simp: sanitize_hostname [OF assms] DisplayPeelID_def)
qed


lemma sanitize_glob_plain: "glob_plain s \<Longrightarrow> SanitizeGlobDots s = encode_dots s"
  by (induction s) (auto simp: glob_plain_def encode_dots_def peelIDDotSub_def)

lemma hostname_plain:
  assumes "hostname h"
  shows "glob_plain h" "glob_plain (encode_dots h)"
proof -
  have "c \<notin> {CHR ''*'', CHR ''?'', CHR ''['', CHR 0x5C}" if "c \<in> set h" for c
    using hostname_chars [OF assms that] dot_facts by auto
  then show "glob_plain h" "glob_plain (encode_dots h)"
    by (auto simp: glob_plain_def encode_dots_def)
qed

lemma hostname_glob: "hostname h \<Longrightarrow> glob_match (SanitizeGlobDots h) s = Some (s = SanitizePeelID h)"
  by (simp add: sanitize_glob_plain hostname_plain sanitize_hostname glob_match_plain)

section \<open>Properties\<close>

text \<open>
  C31: derived ids. \<^verbatim>\<open>SanitizePeelID\<close> gives either nothing or an id that \<^verbatim>\<open>ValidatePeelID\<close> accepts, and
  leaves valid ids alone; and a valid id is one token of a NATS subject: it has no dot and no wildcard, and
  it does not begin with the underscore of the reserved origins.
\<close>
theorem peel_ids_valid:
  "(SanitizePeelID raw = '''' \<or> ValidatePeelID (SanitizePeelID raw) = None) \<and>
   (ValidatePeelID s = None \<longrightarrow>
      SanitizePeelID s = s \<and> s \<noteq> '''' \<and> hd s \<noteq> CHR ''_'' \<and> set s \<inter> set ''.*> '' = {})"
proof (intro conjI impI)
  assume "ValidatePeelID s = None"
  then have "peelIDRegex s" by (simp add: ValidatePeelID_iff)
  then obtain c cs where s: "s = c # cs" "isAlnum c" "list_all isPeelIDByte s"
    by (cases s) (auto simp: peelIDRegex_def isPeelIDByte_def)
  show "s \<noteq> ''''" "hd s \<noteq> CHR ''_''" using s(1,2) dot_facts by auto
  have "\<not> isPeelIDByte c" if "c \<in> set ''.*> ''" for c
    using that by (auto simp: isPeelIDByte_def isAlnum_def)
  then show "set s \<inter> set ''.*> '' = {}" using s(3) unfolding list_all_iff by blast
qed (use sanitize_valid sanitize_fixed in auto)

theorem peel_ids_valid_witness:
  "ValidatePeelID ''web01_pl'' = None \<and> SanitizePeelID ''web01_pl'' = ''web01_pl''"
proof -
  have "ValidatePeelID ''web01_pl'' = None" by code_simp
  with peel_ids_valid [of "''x''" "''web01_pl''"] show ?thesis by blast
qed

text \<open>
  Host names survive the encoding. The id of a host name, shown to a human, is the host name again, so
  two host names never share an id; and the host name used as a target pattern, dots and
  all, matches exactly that id.
\<close>
theorem hostname_ids:
  assumes "hostname h"
  shows "DisplayPeelID (SanitizePeelID h) = h \<and>
    glob_match (SanitizeGlobDots h) peelID = Some (peelID = SanitizePeelID h)"
  using display_sanitize [OF assms] hostname_glob [OF assms] by simp

theorem hostname_ids_witness:
  "SanitizePeelID ''web01.pl'' = ''web01_pl'' \<and> DisplayPeelID ''web01_pl'' = ''web01.pl''"
proof -
  have "hostname ''web01.pl''" "SanitizePeelID ''web01.pl'' = ''web01_pl''" by code_simp+
  with hostname_ids [of "''web01.pl''" "''x''"] show ?thesis by simp
qed

end
