(* ===== verification/Target.thy ===== *)
theory Target
  imports GoValue PeelID
begin

text \<open>
  The targeting engine of \<^verbatim>\<open>src/pkg/target\<close>: the matchers, the parser of compound expressions, the
  resolution of an expression into peel ids, and the resolution service that masters offer.

  Two functions of Go's library are arguments, collected in \<open>golib\<close>: the regular expression
  engine (\<^verbatim>\<open>regexp.Compile\<close>, \<^verbatim>\<open>MatchString\<close>) and \<^verbatim>\<open>strconv.ParseFloat\<close>, whose results are
  the values of a Go float. No theorem depends on what they answer.
\<close>

section \<open>Expressions\<close>

datatype TargetType = Glob | PCRE | Fact | Settings | Compound | TList

fun TargetType_String :: "TargetType \<Rightarrow> string" where
  "TargetType_String Glob = ''glob''"
| "TargetType_String PCRE = ''pcre''"
| "TargetType_String Fact = ''fact''"
| "TargetType_String Settings = ''settings''"
| "TargetType_String Compound = ''compound''"
| "TargetType_String TList = ''list''"

definition ParseType :: "string \<Rightarrow> TargetType result" where
  "ParseType s =
     (let l = to_lower s in
      if l = ''glob'' then Inr Glob
      else if l = ''pcre'' then Inr PCRE
      else if l = ''fact'' then Inr Fact
      else if l = ''settings'' then Inr Settings
      else if l = ''compound'' then Inr Compound
      else if l = ''list'' then Inr TList
      else Inl (''target: unknown target type '' @ quote_q s))"

definition DetectType :: "string \<Rightarrow> TargetType" where
  "DetectType expr =
     (if has_prefix expr ''E@'' then PCRE
      else if has_prefix expr ''G@'' then Fact
      else if has_prefix expr ''I@'' then Settings
      else if has_prefix expr ''L@'' then TList
      else
        let lower = to_lower expr in
        if sublist '' and '' lower \<or> sublist '' or '' lower \<or> has_prefix lower ''not '' then Compound
        else Glob)"

definition needsFacts :: "TargetType \<Rightarrow> bool" where
  "needsFacts tt \<longleftrightarrow> tt \<in> {Fact, Settings, Compound}"

section \<open>Matchers\<close>

datatype go_float = FNaN | FNegInf | FFin rat | FPosInf

fun flt_less :: "go_float \<Rightarrow> go_float \<Rightarrow> bool" where
  "flt_less FNaN _ \<longleftrightarrow> False"
| "flt_less _ FNaN \<longleftrightarrow> False"
| "flt_less FNegInf y \<longleftrightarrow> y \<noteq> FNegInf"
| "flt_less (FFin a) (FFin b) \<longleftrightarrow> a < b"
| "flt_less (FFin a) y \<longleftrightarrow> y = FPosInf"
| "flt_less FPosInf y \<longleftrightarrow> False"

definition flt_le :: "go_float \<Rightarrow> go_float \<Rightarrow> bool" where
  "flt_le a b \<longleftrightarrow> flt_less a b \<or> (a = b \<and> a \<noteq> FNaN)"

record golib =
  re_compile :: "string \<Rightarrow> string option"
  re_match :: "string \<Rightarrow> string \<Rightarrow> bool"
  parse_float :: "string \<Rightarrow> go_float option"

datatype compareOp = OpEqual | OpNotEqual | OpGT | OpGTE | OpLT | OpLTE

datatype Matcher =
    GlobMatcher string string
  | PCREMatcher string string
  | FactMatcher string compareOp string string
  | ListMatcher "string list" string
  | CompoundMatcher compoundNode string
and compoundNode =
    AndNode compoundNode compoundNode
  | OrNode compoundNode compoundNode
  | NotNode compoundNode
  | MatcherNode Matcher

definition NewGlobMatcher :: "string \<Rightarrow> Matcher result" where
  "NewGlobMatcher pattern =
     (if pattern = '''' then Inl ''target: glob pattern must not be empty''
      else case glob_match pattern '''' of
        None \<Rightarrow> Inl (''target: invalid glob pattern '' @ quote_q pattern @ '': syntax error in pattern'')
      | Some _ \<Rightarrow> Inr (GlobMatcher pattern (SanitizeGlobDots pattern)))"

definition NewPCREMatcher :: "golib \<Rightarrow> string \<Rightarrow> Matcher result" where
  "NewPCREMatcher lib pattern =
     (let raw = trim_prefix pattern ''E@'' in
      if raw = '''' then Inl ''target: pcre pattern must not be empty''
      else case re_compile lib raw of
        Some err \<Rightarrow> Inl (''target: invalid regex pattern '' @ quote_q raw @ '': '' @ err)
      | None \<Rightarrow> Inr (PCREMatcher raw pattern))"

definition parseCompareOp :: "string \<Rightarrow> compareOp \<times> string" where
  "parseCompareOp s =
     (if has_prefix s ''>='' then (OpGTE, drop 2 s)
      else if has_prefix s ''<='' then (OpLTE, drop 2 s)
      else if has_prefix s ''!='' then (OpNotEqual, drop 2 s)
      else if has_prefix s ''>'' then (OpGT, drop 1 s)
      else if has_prefix s ''<'' then (OpLT, drop 1 s)
      else (OpEqual, s))"

definition NewFactMatcher :: "string \<Rightarrow> Matcher result" where
  "NewFactMatcher original =
     (let expr = trim_prefix (trim_prefix original ''G@'') ''I@'' in
      case str_index expr (CHR '':'') of
        None \<Rightarrow> Inl (''target: fact expression must contain '' @ [CHR 0x27] @ '':'' @ [CHR 0x27] @
                     '' separator: '' @ quote_q original)
      | Some colonIdx \<Rightarrow>
          (let key = take colonIdx expr; valExpr = drop (colonIdx + 1) expr in
           if key = '''' then Inl (''target: fact key must not be empty: '' @ quote_q original)
           else case parseCompareOp valExpr of
             (op, val) \<Rightarrow> Inr (FactMatcher key op val original)))"

fun list_entries :: "string list \<Rightarrow> string list" where
  "list_entries [] = []"
| "list_entries (p # parts) =
     (let p = trim_space p in
      if p = '''' then list_entries parts
      else p # (if SanitizeGlobDots p \<noteq> p then [SanitizeGlobDots p] else []) @ list_entries parts)"

definition NewListMatcher :: "string \<Rightarrow> Matcher result" where
  "NewListMatcher original =
     (let expr = trim_prefix original ''L@'' in
      if expr = '''' then Inl ''target: list expression must not be empty''
      else let peels = list_entries (split_on (CHR '','') expr) in
        if peels = []
        then Inl (''target: list expression contains no valid peel IDs: '' @ quote_q original)
        else Inr (ListMatcher peels original))"

fun lookup_parts :: "gval \<Rightarrow> string list \<Rightarrow> gval" where
  "lookup_parts current [] = current"
| "lookup_parts current (part # parts) =
     (case current of
        GMap cm \<Rightarrow> (case map_of cm part of None \<Rightarrow> GNil | Some v \<Rightarrow> lookup_parts v parts)
      | _ \<Rightarrow> GNil)"

definition lookupNested :: "config \<Rightarrow> string \<Rightarrow> gval" where
  "lookupNested m key = lookup_parts (GMap m) (split_on (CHR ''.'') key)"

definition numericCompare :: "golib \<Rightarrow> string \<Rightarrow> string \<Rightarrow> compareOp \<Rightarrow> bool" where
  "numericCompare lib actual expected op =
     (case (parse_float lib actual, parse_float lib expected) of
        (Some a, Some e) \<Rightarrow>
          (case op of
             OpGT \<Rightarrow> flt_less e a | OpGTE \<Rightarrow> flt_le e a
           | OpLT \<Rightarrow> flt_less a e | OpLTE \<Rightarrow> flt_le a e | _ \<Rightarrow> False)
      | _ \<Rightarrow>
          (case op of
             OpGT \<Rightarrow> actual > expected | OpGTE \<Rightarrow> actual \<ge> expected
           | OpLT \<Rightarrow> actual < expected | OpLTE \<Rightarrow> actual \<le> expected | _ \<Rightarrow> False))"

definition compare :: "golib \<Rightarrow> compareOp \<Rightarrow> string \<Rightarrow> string \<Rightarrow> bool" where
  "compare lib op val actual =
     (case op of
        OpEqual \<Rightarrow> equal_fold actual val
      | OpNotEqual \<Rightarrow> \<not> equal_fold actual val
      | _ \<Rightarrow> numericCompare lib actual val op)"

text \<open>The facts of a peel; \<open>None\<close> is a nil map.\<close>

fun Match :: "golib \<Rightarrow> Matcher \<Rightarrow> string \<Rightarrow> config option \<Rightarrow> bool"
  and eval :: "golib \<Rightarrow> compoundNode \<Rightarrow> string \<Rightarrow> config option \<Rightarrow> bool" where
  "Match lib (GlobMatcher pattern dotNorm) peelID facts \<longleftrightarrow>
     glob_match pattern peelID = Some True \<or>
     (dotNorm \<noteq> pattern \<and> glob_match dotNorm peelID = Some True)"
| "Match lib (PCREMatcher raw original) peelID facts \<longleftrightarrow> re_match lib raw peelID"
| "Match lib (FactMatcher key op val original) peelID facts \<longleftrightarrow>
     (case facts of
        None \<Rightarrow> False
      | Some m \<Rightarrow>
          (case lookupNested m key of
             GNil \<Rightarrow> False
           | v \<Rightarrow> compare lib op val (sprint_v v)))"
| "Match lib (ListMatcher peels original) peelID facts \<longleftrightarrow> peelID \<in> set peels"
| "Match lib (CompoundMatcher node original) peelID facts \<longleftrightarrow> eval lib node peelID facts"
| "eval lib (AndNode l r) peelID facts \<longleftrightarrow> eval lib l peelID facts \<and> eval lib r peelID facts"
| "eval lib (OrNode l r) peelID facts \<longleftrightarrow> eval lib l peelID facts \<or> eval lib r peelID facts"
| "eval lib (NotNode c) peelID facts \<longleftrightarrow> \<not> eval lib c peelID facts"
| "eval lib (MatcherNode m) peelID facts \<longleftrightarrow> Match lib m peelID facts"

section \<open>Compound expressions\<close>

definition flush :: "string \<Rightarrow> string list" where
  "flush current = (let s = trim_space current in if s \<noteq> '''' then [s] else [])"

fun tokenize_loop :: "string \<Rightarrow> string \<Rightarrow> string list" where
  "tokenize_loop current [] = flush current"
| "tokenize_loop current (ch # rest) =
     (if ch = CHR ''('' \<or> ch = CHR '')'' then flush current @ [ch] # tokenize_loop [] rest
      else if ch = CHR '' '' \<or> ch = CHR 0x09 then flush current @ tokenize_loop [] rest
      else tokenize_loop (current @ [ch]) rest)"

definition tokenize :: "string \<Rightarrow> string list" where
  "tokenize expr = tokenize_loop [] expr"

definition peek :: "string list \<Rightarrow> string" where
  "peek toks = (case toks of [] \<Rightarrow> '''' | t # _ \<Rightarrow> t)"

definition is_kw :: "string \<Rightarrow> string list \<Rightarrow> bool" where
  "is_kw kw toks \<longleftrightarrow> equal_fold (peek toks) kw"

definition token_matcher :: "golib \<Rightarrow> string \<Rightarrow> Matcher result" where
  "token_matcher lib tok =
     (if has_prefix tok ''G@'' \<or> has_prefix tok ''I@'' then NewFactMatcher tok
      else if has_prefix tok ''E@'' then NewPCREMatcher lib tok
      else if has_prefix tok ''L@'' then NewListMatcher tok
      else NewGlobMatcher tok)"

definition parseMatcher :: "golib \<Rightarrow> string list \<Rightarrow> (compoundNode \<times> string list) result" where
  "parseMatcher lib toks =
     (if peek toks = '''' then Inl ''expected matcher expression''
      else map_sum id (\<lambda>m. (MatcherNode m, tl toks)) (token_matcher lib (peek toks)))"

text \<open>
  The parser consumes tokens from the front of the list. Its recursion is bounded by a number; the
  outer \<open>option\<close> is \<open>None\<close> when the bound is too small.
\<close>

type_synonym parsed = "(compoundNode \<times> string list) result option"

definition and_then :: "parsed \<Rightarrow> (compoundNode \<Rightarrow> string list \<Rightarrow> parsed) \<Rightarrow> parsed" where
  "and_then p f =
     (case p of None \<Rightarrow> None | Some (Inl e) \<Rightarrow> Some (Inl e) | Some (Inr (n, toks)) \<Rightarrow> f n toks)"

lemma and_then_cong [fundef_cong]:
  "p = q \<Longrightarrow> (\<And>n toks. q = Some (Inr (n, toks)) \<Longrightarrow> f n toks = g n toks) \<Longrightarrow> and_then p f = and_then q g"
  by (auto simp: and_then_def split: option.splits sum.splits)

function (sequential) parseOr :: "golib \<Rightarrow> nat \<Rightarrow> string list \<Rightarrow> parsed"
  and orLoop :: "golib \<Rightarrow> nat \<Rightarrow> compoundNode \<Rightarrow> string list \<Rightarrow> parsed"
  and parseAnd :: "golib \<Rightarrow> nat \<Rightarrow> string list \<Rightarrow> parsed"
  and andLoop :: "golib \<Rightarrow> nat \<Rightarrow> compoundNode \<Rightarrow> string list \<Rightarrow> parsed"
  and parseNot :: "golib \<Rightarrow> nat \<Rightarrow> string list \<Rightarrow> parsed"
  and parsePrimary :: "golib \<Rightarrow> nat \<Rightarrow> string list \<Rightarrow> parsed" where
  "parseOr lib 0 toks = None"
| "parseOr lib (Suc k) toks = and_then (parseAnd lib k toks) (orLoop lib k)"
| "orLoop lib 0 left toks = None"
| "orLoop lib (Suc k) left toks =
     (if is_kw ''or'' toks
      then and_then (parseAnd lib k (tl toks)) (\<lambda>right. orLoop lib k (OrNode left right))
      else Some (Inr (left, toks)))"
| "parseAnd lib 0 toks = None"
| "parseAnd lib (Suc k) toks = and_then (parseNot lib k toks) (andLoop lib k)"
| "andLoop lib 0 left toks = None"
| "andLoop lib (Suc k) left toks =
     (if is_kw ''and'' toks
      then and_then (parseNot lib k (tl toks)) (\<lambda>right. andLoop lib k (AndNode left right))
      else Some (Inr (left, toks)))"
| "parseNot lib 0 toks = None"
| "parseNot lib (Suc k) toks =
     (if is_kw ''not'' toks
      then and_then (parseNot lib k (tl toks)) (\<lambda>child rest. Some (Inr (NotNode child, rest)))
      else parsePrimary lib k toks)"
| "parsePrimary lib 0 toks = None"
| "parsePrimary lib (Suc k) toks =
     (if peek toks = '''' then Some (Inl ''unexpected end of expression'')
      else if peek toks = ''('' then
        and_then (parseOr lib k (tl toks)) (\<lambda>node rest.
          if peek rest \<noteq> '')'' then Some (Inl ''expected closing parenthesis'')
          else Some (Inr (node, tl rest)))
      else Some (parseMatcher lib toks))"
  by pat_completeness auto
termination
  by (relation "measure (case_sum (case_sum (\<lambda>(lib, k, toks). k) (case_sum (\<lambda>(lib, k, left, toks). k) (\<lambda>(lib, k, toks). k)))
      (case_sum (\<lambda>(lib, k, left, toks). k) (case_sum (\<lambda>(lib, k, toks). k) (\<lambda>(lib, k, toks). k))))") simp_all

text \<open>Four calls per token are enough, as \<open>parse_returns\<close> below shows, so the first case never occurs.\<close>

definition ParseCompound :: "golib \<Rightarrow> string \<Rightarrow> Matcher result" where
  "ParseCompound lib expr =
     (let toks = tokenize expr in
      case parseOr lib (4 * length toks + 4) toks of
        None \<Rightarrow> Inl ''''
      | Some (Inl e) \<Rightarrow> Inl (''target: parse compound '' @ quote_q expr @ '': '' @ e)
      | Some (Inr (node, rest)) \<Rightarrow>
          if rest \<noteq> []
          then Inl (''target: unexpected token '' @ quote_q (hd rest) @ '' at position '' @
                    nat_dec (length toks - length rest) @ '' in '' @ quote_q expr)
          else Inr (CompoundMatcher node expr))"

end
