(* ===== verification/TargetParse.thy ===== *)
theory TargetParse
  imports Target
begin

text \<open>
  The parser of compound expressions (\<^verbatim>\<open>src/pkg/target/compound.go\<close>) accepts exactly the grammar its
  comment gives, with the tree the grammar assigns, and always returns.
\<close>

section \<open>The documented grammar\<close>

text \<open>
  A token is a matcher unless it is an opening parenthesis or the word \<open>not\<close>: at a place where an operand
  is expected even \<open>and\<close>, \<open>or\<close> and a closing parenthesis are read as patterns.
\<close>

inductive g_or :: "golib \<Rightarrow> string list \<Rightarrow> compoundNode \<Rightarrow> bool"
  and g_and :: "golib \<Rightarrow> string list \<Rightarrow> compoundNode \<Rightarrow> bool"
  and g_not :: "golib \<Rightarrow> string list \<Rightarrow> compoundNode \<Rightarrow> bool"
  and g_primary :: "golib \<Rightarrow> string list \<Rightarrow> compoundNode \<Rightarrow> bool"
  for lib :: golib where
  or_one: "g_and lib ts n \<Longrightarrow> g_or lib ts n"
| or_more: "g_or lib ts l \<Longrightarrow> equal_fold w ''or'' \<Longrightarrow> g_and lib ts' r \<Longrightarrow> g_or lib (ts @ w # ts') (OrNode l r)"
| and_one: "g_not lib ts n \<Longrightarrow> g_and lib ts n"
| and_more: "g_and lib ts l \<Longrightarrow> equal_fold w ''and'' \<Longrightarrow> g_not lib ts' r \<Longrightarrow> g_and lib (ts @ w # ts') (AndNode l r)"
| not_not: "equal_fold w ''not'' \<Longrightarrow> g_not lib ts n \<Longrightarrow> g_not lib (w # ts) (NotNode n)"
| not_primary: "g_primary lib ts n \<Longrightarrow> g_not lib ts n"
| paren: "g_or lib ts n \<Longrightarrow> g_primary lib (''('' # ts @ ['')'']) n"
| matcher: "t \<noteq> '''' \<Longrightarrow> t \<noteq> ''('' \<Longrightarrow> \<not> equal_fold t ''not'' \<Longrightarrow> token_matcher lib t = Inr m \<Longrightarrow>
    g_primary lib [t] (MatcherNode m)"

section \<open>Soundness\<close>

text \<open>\<open>sound G p toks\<close>: if the parse \<open>p\<close> of \<open>toks\<close> succeeds, it consumed tokens that \<open>G\<close> derives its tree from.\<close>

definition sound :: "(string list \<Rightarrow> compoundNode \<Rightarrow> bool) \<Rightarrow> parsed \<Rightarrow> string list \<Rightarrow> bool" where
  "sound G p toks \<longleftrightarrow> (\<forall>n rest. p = Some (Inr (n, rest)) \<longrightarrow> (\<exists>ts. toks = ts @ rest \<and> G ts n))"

lemma sound_bind:
  assumes "sound G p toks" "\<And>l ts mid. G ts l \<Longrightarrow> sound (\<lambda>ts'. G' (ts @ ts')) (f l mid) mid"
  shows "sound G' (and_then p f) toks"
  unfolding sound_def
proof (intro allI impI)
  fix n rest
  assume "and_then p f = Some (Inr (n, rest))"
  then obtain l mid where l: "p = Some (Inr (l, mid))" "f l mid = Some (Inr (n, rest))"
    by (auto simp: and_then_def split: option.splits sum.splits)
  then obtain ts where ts: "toks = ts @ mid" "G ts l" using assms(1) by (auto simp: sound_def)
  then obtain ts' where "mid = ts' @ rest" "G' (ts @ ts') n"
    using assms(2) l(2) unfolding sound_def by blast
  then show "\<exists>ts. toks = ts @ rest \<and> G' ts n" using ts(1) by auto
qed

lemma sound_return: "G [] n \<Longrightarrow> sound G (Some (Inr (n, toks))) toks"
  by (simp add: sound_def)

lemma sound_skip: "sound (\<lambda>ts. G (w # ts)) p toks \<Longrightarrow> sound G p (w # toks)"
  by (auto simp: sound_def)

lemma sound_error: "sound G None toks" "sound G (Some (Inl e)) toks"
  by (simp_all add: sound_def)

lemma sound_mono: "sound G p toks \<Longrightarrow> (\<And>ts n. G ts n \<Longrightarrow> G' ts n) \<Longrightarrow> sound G' p toks"
  by (auto simp: sound_def)

lemma is_kw_Cons: "is_kw kw toks \<Longrightarrow> kw \<noteq> '''' \<Longrightarrow> \<exists>w rest. toks = w # rest \<and> equal_fold w kw"
  by (cases toks) (auto simp: is_kw_def peek_def equal_fold_def to_lower_def)

lemma peek_Cons: "peek toks = t \<Longrightarrow> t \<noteq> '''' \<Longrightarrow> toks = t # tl toks"
  by (cases toks) (auto simp: peek_def)

lemma parseMatcher_sound:
  assumes "peek toks \<noteq> ''(''" "\<not> is_kw ''not'' toks"
  shows "sound (g_primary lib) (Some (parseMatcher lib toks)) toks"
proof (cases "token_matcher lib (peek toks)")
  case (Inr m)
  have "g_primary lib [peek toks] (MatcherNode m)" if "peek toks \<noteq> ''''"
    using that Inr assms by (intro matcher) (simp_all add: is_kw_def)
  then show ?thesis
    using peek_Cons [OF refl, of toks] Inr
    by (auto simp: sound_def parseMatcher_def intro!: exI [of _ "[peek toks]"])
qed (auto simp: sound_def parseMatcher_def)

lemma parse_sound:
  shows "sound (g_or lib) (parseOr lib k toks) toks"
    and "g_or lib ts0 l \<Longrightarrow> sound (\<lambda>ts. g_or lib (ts0 @ ts)) (orLoop lib k l toks) toks"
    and "sound (g_and lib) (parseAnd lib k toks) toks"
    and "g_and lib ts0 l \<Longrightarrow> sound (\<lambda>ts. g_and lib (ts0 @ ts)) (andLoop lib k l toks) toks"
    and "sound (g_not lib) (parseNot lib k toks) toks"
    and "\<not> is_kw ''not'' toks \<Longrightarrow> sound (g_primary lib) (parsePrimary lib k toks) toks"
proof (induction k arbitrary: toks l ts0)
  case (Suc k)
  {
    case 1
    show ?case by (auto intro!: sound_bind [OF Suc(3)] Suc(2) or_one)
  next
    case 2
    show ?case
    proof (cases "is_kw ''or'' toks")
      case True
      then obtain w more where w: "toks = w # more" "equal_fold w ''or''" using is_kw_Cons by blast
      show ?thesis
        using True 2 w(2) Suc(2) [OF or_more, of ts0 l w]
        by (auto simp: w(1) intro!: sound_skip sound_bind [OF Suc(3)])
    qed (use 2 in \<open>auto intro: sound_return\<close>)
  next
    case 3
    show ?case by (auto intro!: sound_bind [OF Suc(5)] Suc(4) and_one)
  next
    case 4
    show ?case
    proof (cases "is_kw ''and'' toks")
      case True
      then obtain w more where w: "toks = w # more" "equal_fold w ''and''" using is_kw_Cons by blast
      show ?thesis
        using True 4 w(2) Suc(4) [OF and_more, of ts0 l w]
        by (auto simp: w(1) intro!: sound_skip sound_bind [OF Suc(5)])
    qed (use 4 in \<open>auto intro: sound_return\<close>)
  next
    case 5
    show ?case
    proof (cases "is_kw ''not'' toks")
      case True
      then obtain w more where w: "toks = w # more" "equal_fold w ''not''" using is_kw_Cons by blast
      then show ?thesis
        using True not_not [OF w(2)] by (auto simp: w(1) intro!: sound_skip sound_bind [OF Suc(5)] sound_return)
    qed (auto intro: sound_mono [OF Suc(6)] not_primary)
  next
    case 6
    show ?case
    proof (cases "peek toks = ''(''")
      case True
      have "sound (\<lambda>ts'. g_primary lib (''('' # ts @ ts'))
          (if peek mid \<noteq> '')'' then Some (Inl ''expected closing parenthesis'') else Some (Inr (l, tl mid))) mid"
        if "g_or lib ts l" for ts l mid
        using paren [OF that] peek_Cons [of mid "'')''"] by (auto simp: sound_def intro!: exI [of _ "['')'']"])
      moreover obtain more where "toks = ''('' # more" using peek_Cons [OF True] by blast
      ultimately show ?thesis by (auto simp: peek_def intro!: sound_skip sound_bind [OF Suc(1)])
    qed (use 6 in \<open>auto simp: sound_error parseMatcher_sound\<close>)
  }
qed (simp_all add: sound_error)


section \<open>Termination\<close>

lemma grammar_nonempty:
  "(g_or lib ts1 n1 \<longrightarrow> ts1 \<noteq> []) \<and> (g_and lib ts2 n2 \<longrightarrow> ts2 \<noteq> []) \<and>
   (g_not lib ts3 n3 \<longrightarrow> ts3 \<noteq> []) \<and> (g_primary lib ts4 n4 \<longrightarrow> ts4 \<noteq> [])"
  by (rule g_or_g_and_g_not_g_primary.induct) auto

lemma parse_consumes:
  "parseAnd lib k toks = Some (Inr (n, rest)) \<Longrightarrow> length rest < length toks"
  "parseNot lib k toks = Some (Inr (n, rest)) \<Longrightarrow> length rest < length toks"
  using parse_sound(3) [of lib k toks] parse_sound(5) [of lib k toks] grammar_nonempty [of lib]
  by (fastforce simp: sound_def)+

lemma and_then_returns:
  "p \<noteq> None \<Longrightarrow> (\<And>n toks. p = Some (Inr (n, toks)) \<Longrightarrow> f n toks \<noteq> None) \<Longrightarrow> and_then p f \<noteq> None"
  by (auto simp: and_then_def split: option.splits sum.splits)

lemma is_kw_length: "is_kw kw toks \<Longrightarrow> kw \<noteq> '''' \<Longrightarrow> length toks = Suc (length (tl toks))"
  using is_kw_Cons [of kw toks] by auto

lemma parse_returns:
  shows "4 * length toks + 4 \<le> k \<Longrightarrow> parseOr lib k toks \<noteq> None"
    and "4 * length toks + 1 \<le> k \<Longrightarrow> orLoop lib k l toks \<noteq> None"
    and "4 * length toks + 3 \<le> k \<Longrightarrow> parseAnd lib k toks \<noteq> None"
    and "4 * length toks + 1 \<le> k \<Longrightarrow> andLoop lib k l toks \<noteq> None"
    and "4 * length toks + 2 \<le> k \<Longrightarrow> parseNot lib k toks \<noteq> None"
    and "4 * length toks + 1 \<le> k \<Longrightarrow> parsePrimary lib k toks \<noteq> None"
proof (induction k arbitrary: toks l)
  case (Suc k)
  {
    case 1
    show ?case
      unfolding parseOr.simps
      by (intro and_then_returns Suc(3) Suc(2)) (use 1 in \<open>auto dest: parse_consumes\<close>)
  next
    case 2
    have "and_then (parseAnd lib k (tl toks)) (\<lambda>right. orLoop lib k (OrNode l right)) \<noteq> None" if "is_kw ''or'' toks"
      by (intro and_then_returns Suc(3) Suc(2)) (use 2 is_kw_length [OF that, simplified] in \<open>auto dest: parse_consumes\<close>)
    then show ?case by simp
  next
    case 3
    show ?case
      unfolding parseAnd.simps
      by (intro and_then_returns Suc(5) Suc(4)) (use 3 in \<open>auto dest: parse_consumes\<close>)
  next
    case 4
    have "and_then (parseNot lib k (tl toks)) (\<lambda>right. andLoop lib k (AndNode l right)) \<noteq> None" if "is_kw ''and'' toks"
      by (intro and_then_returns Suc(5) Suc(4)) (use 4 is_kw_length [OF that, simplified] in \<open>auto dest: parse_consumes\<close>)
    then show ?case by simp
  next
    case 5
    have "and_then (parseNot lib k (tl toks)) (\<lambda>child rest. Some (Inr (NotNode child, rest))) \<noteq> None" if "is_kw ''not'' toks"
      by (intro and_then_returns Suc(5)) (use 5 is_kw_length [OF that, simplified] in simp_all)
    moreover have "parsePrimary lib k toks \<noteq> None" if "\<not> is_kw ''not'' toks" by (rule Suc(6)) (use 5 in simp)
    ultimately show ?case by simp
  next
    case 6
    have "and_then (parseOr lib k (tl toks)) f \<noteq> None"
      if "\<And>node rest. f node rest \<noteq> None" "peek toks \<noteq> ''''" for f
      by (intro and_then_returns Suc(1) that(1)) (use 6 that(2) in \<open>cases toks; simp add: peek_def\<close>)
    then show ?case by simp
  }
qed simp_all

definition below :: "parsed \<Rightarrow> parsed \<Rightarrow> bool" where
  "below p q \<longleftrightarrow> p = None \<or> p = q"

lemma below_bind: "below p q \<Longrightarrow> (\<And>n t. below (f n t) (g n t)) \<Longrightarrow> below (and_then p f) (and_then q g)"
  by (auto simp: below_def and_then_def split: option.splits sum.splits)

lemma below_simps [simp]: "below None q" "below p p"
  by (simp_all add: below_def)

lemma parse_mono:
  shows "k \<le> k' \<Longrightarrow> below (parseOr lib k toks) (parseOr lib k' toks)"
    and "k \<le> k' \<Longrightarrow> below (orLoop lib k l toks) (orLoop lib k' l toks)"
    and "k \<le> k' \<Longrightarrow> below (parseAnd lib k toks) (parseAnd lib k' toks)"
    and "k \<le> k' \<Longrightarrow> below (andLoop lib k l toks) (andLoop lib k' l toks)"
    and "k \<le> k' \<Longrightarrow> below (parseNot lib k toks) (parseNot lib k' toks)"
    and "k \<le> k' \<Longrightarrow> below (parsePrimary lib k toks) (parsePrimary lib k' toks)"
proof (induction k arbitrary: toks l k')
  case (Suc k)
  have m: "\<exists>m. k' = Suc m \<and> k \<le> m" if "Suc k \<le> k'" for k'
    using that by (metis Suc_le_D Suc_le_mono)
  {
    case 1
    from m [OF this] show ?case by (auto intro!: below_bind Suc(2,3))
  next
    case 2
    from m [OF this] show ?case by (auto intro!: below_bind Suc(2,3))
  next
    case 3
    from m [OF this] show ?case by (auto intro!: below_bind Suc(4,5))
  next
    case 4
    from m [OF this] show ?case by (auto intro!: below_bind Suc(4,5))
  next
    case 5
    from m [OF this] show ?case by (auto intro!: below_bind Suc(5,6))
  next
    case 6
    from m [OF this] show ?case by (auto intro!: below_bind Suc(1))
  }
qed simp_all

section \<open>Completeness\<close>

text \<open>\<open>yields f r\<close>: with every bound that is large enough, the parse gives \<open>r\<close>.\<close>

definition yields :: "(nat \<Rightarrow> parsed) \<Rightarrow> (compoundNode \<times> string list) result \<Rightarrow> bool" where
  "yields f r \<longleftrightarrow> (\<exists>N. \<forall>k \<ge> N. f k = Some r)"

lemma yields_Suc: "yields (\<lambda>k. f (Suc k)) r \<Longrightarrow> yields f r"
  unfolding yields_def by (metis Suc_le_D Suc_le_mono)

lemma yields_return: "yields (\<lambda>k. Some r) r"
  by (simp add: yields_def)

lemma yields_bind:
  assumes "yields p (Inr (n, toks))" "yields (\<lambda>k. f k n toks) r"
  shows "yields (\<lambda>k. and_then (p k) (f k)) r"
proof -
  obtain N M where "\<forall>k \<ge> N. p k = Some (Inr (n, toks))" "\<forall>k \<ge> M. f k n toks = Some r"
    using assms by (auto simp: yields_def)
  then have "\<forall>k \<ge> max N M. and_then (p k) (f k) = Some r" by (auto simp: and_then_def)
  then show ?thesis unfolding yields_def by blast
qed

lemma kw_Cons [simp]: "is_kw kw (w # toks) \<longleftrightarrow> equal_fold w kw"
  by (simp add: is_kw_def peek_def)

lemma kw_distinct:
  "equal_fold w ''or'' \<Longrightarrow> \<not> equal_fold w ''and''" "\<not> equal_fold '')'' ''or''" "\<not> equal_fold '')'' ''and''"
  "\<not> equal_fold ''('' ''not''" "\<not> is_kw ''or'' []" "\<not> is_kw ''and'' []"
  by (auto simp: equal_fold_def is_kw_def peek_def to_lower_def to_lower_char_def)

lemma loops_stop:
  "\<not> is_kw ''or'' rest \<Longrightarrow> yields (\<lambda>k. orLoop lib k n rest) (Inr (n, rest))"
  "\<not> is_kw ''and'' rest \<Longrightarrow> yields (\<lambda>k. andLoop lib k n rest) (Inr (n, rest))"
  by (rule yields_Suc, simp add: yields_return)+


lemma yields_steps:
  "yields (\<lambda>k. parseAnd lib k toks) (Inr (l, mid)) \<Longrightarrow> yields (\<lambda>k. orLoop lib k l mid) r \<Longrightarrow>
     yields (\<lambda>k. parseOr lib k toks) r"
  "yields (\<lambda>k. parseNot lib k toks) (Inr (l, mid)) \<Longrightarrow> yields (\<lambda>k. andLoop lib k l mid) r \<Longrightarrow>
     yields (\<lambda>k. parseAnd lib k toks) r"
  "is_kw ''or'' (w # toks) \<Longrightarrow> yields (\<lambda>k. parseAnd lib k toks) (Inr (n, mid)) \<Longrightarrow>
     yields (\<lambda>k. orLoop lib k (OrNode l n) mid) r \<Longrightarrow> yields (\<lambda>k. orLoop lib k l (w # toks)) r"
  "is_kw ''and'' (w # toks) \<Longrightarrow> yields (\<lambda>k. parseNot lib k toks) (Inr (n, mid)) \<Longrightarrow>
     yields (\<lambda>k. andLoop lib k (AndNode l n) mid) r \<Longrightarrow> yields (\<lambda>k. andLoop lib k l (w # toks)) r"
  by (rule yields_Suc, simp, erule (1) yields_bind)+

lemma yields_not:
  assumes "equal_fold w ''not''" "yields (\<lambda>k. parseNot lib k toks) (Inr (n, rest))"
  shows "yields (\<lambda>k. parseNot lib k (w # toks)) (Inr (NotNode n, rest))"
  using yields_bind [OF assms(2), of "\<lambda>k child rest. Some (Inr (NotNode child, rest))"] assms(1)
  by (intro yields_Suc [of "\<lambda>k. parseNot lib k (w # toks)"]) (simp add: yields_return)

lemma yields_primary:
  assumes "\<not> is_kw ''not'' toks" "yields (\<lambda>k. parsePrimary lib k toks) r"
  shows "yields (\<lambda>k. parseNot lib k toks) r"
  by (rule yields_Suc) (simp add: assms)

lemma yields_paren:
  assumes "yields (\<lambda>k. parseOr lib k toks) (Inr (n, '')'' # rest))"
  shows "yields (\<lambda>k. parsePrimary lib k (''('' # toks)) (Inr (n, rest))"
  using yields_bind [OF assms, of "\<lambda>k node rest. if peek rest \<noteq> '')'' then Some (Inl ''expected closing parenthesis'')
      else Some (Inr (node, tl rest))"]
  by (intro yields_Suc [of "\<lambda>k. parsePrimary lib k (''('' # toks)"]) (simp add: peek_def yields_return)

lemma yields_matcher:
  assumes "t \<noteq> ''''" "t \<noteq> ''(''" "token_matcher lib t = Inr m"
  shows "yields (\<lambda>k. parsePrimary lib k (t # rest)) (Inr (MatcherNode m, rest))"
  using assms by (intro yields_Suc [of "\<lambda>k. parsePrimary lib k (t # rest)"])
    (simp add: peek_def parseMatcher_def yields_return)

lemma parse_complete:
  "(g_or lib ts1 n1 \<longrightarrow> (\<forall>rest r. \<not> is_kw ''and'' rest \<longrightarrow> yields (\<lambda>k. orLoop lib k n1 rest) r \<longrightarrow>
      yields (\<lambda>k. parseOr lib k (ts1 @ rest)) r)) \<and>
   (g_and lib ts2 n2 \<longrightarrow> (\<forall>rest r. yields (\<lambda>k. andLoop lib k n2 rest) r \<longrightarrow>
      yields (\<lambda>k. parseAnd lib k (ts2 @ rest)) r)) \<and>
   (g_not lib ts3 n3 \<longrightarrow> (\<forall>rest. yields (\<lambda>k. parseNot lib k (ts3 @ rest)) (Inr (n3, rest)))) \<and>
   (g_primary lib ts4 n4 \<longrightarrow> (\<forall>rest. yields (\<lambda>k. parseNot lib k (ts4 @ rest)) (Inr (n4, rest))))"
proof (rule g_or_g_and_g_not_g_primary.induct, goal_cases)
  case (1 ts n)
  then show ?case using loops_stop(2) yields_steps(1) by blast
next
  case (2 ts l w ts' r)
  have "yields (\<lambda>k. parseOr lib k ((ts @ w # ts') @ rest)) x"
    if a: "\<not> is_kw ''and'' rest" "yields (\<lambda>k. orLoop lib k (OrNode l r) rest) x" for rest x
  proof -
    have "yields (\<lambda>k. parseAnd lib k (ts' @ rest)) (Inr (r, rest))" using 2(5) loops_stop(2) [OF a(1)] by blast
    then have "yields (\<lambda>k. orLoop lib k l (w # ts' @ rest)) x"
      using 2(3) a(2) by (intro yields_steps(3)) auto
    then show ?thesis using 2(2) kw_distinct(1) [OF 2(3)] by simp
  qed
  then show ?case by blast
next
  case (3 ts n)
  then show ?case using yields_steps(2) by blast
next
  case (4 ts l w ts' r)
  have "yields (\<lambda>k. parseAnd lib k ((ts @ w # ts') @ rest)) x"
    if a: "yields (\<lambda>k. andLoop lib k (AndNode l r) rest) x" for rest x
  proof -
    have "yields (\<lambda>k. andLoop lib k l (w # ts' @ rest)) x"
      using 4(3,5) a by (intro yields_steps(4)) auto
    then show ?thesis using 4(2) by simp
  qed
  then show ?case by blast
next
  case (5 w ts n)
  then show ?case by (simp add: yields_not)
next
  case (7 ts n)
  have "yields (\<lambda>k. parseOr lib k (ts @ '')'' # rest)) (Inr (n, '')'' # rest))" for rest
    using 7(2) loops_stop(1) [of "'')'' # rest" lib n] kw_distinct(2,3) by simp
  then show ?case using kw_distinct(4) by (simp add: yields_primary yields_paren)
next
  case (8 t m)
  then show ?case by (simp add: yields_primary yields_matcher)
qed simp_all

lemma ParseCompound_iff:
  "ParseCompound lib expr = Inr m \<longleftrightarrow>
     (\<exists>node. m = CompoundMatcher node expr \<and> g_or lib (tokenize expr) node)"
proof
  let ?k = "4 * length (tokenize expr) + 4"
  assume "ParseCompound lib expr = Inr m"
  then obtain node where "m = CompoundMatcher node expr"
    "parseOr lib ?k (tokenize expr) = Some (Inr (node, []))"
    by (auto simp: ParseCompound_def Let_def split: option.splits sum.splits if_splits)
  then show "\<exists>node. m = CompoundMatcher node expr \<and> g_or lib (tokenize expr) node"
    using parse_sound(1) [of lib ?k "tokenize expr"] by (auto simp: sound_def)
next
  let ?k = "4 * length (tokenize expr) + 4"
  assume "\<exists>node. m = CompoundMatcher node expr \<and> g_or lib (tokenize expr) node"
  then obtain node where node: "m = CompoundMatcher node expr" "g_or lib (tokenize expr) node" by blast
  have "yields (\<lambda>k. parseOr lib k (tokenize expr @ [])) (Inr (node, []))"
    using parse_complete node(2) loops_stop(1) kw_distinct(5,6) by blast
  then obtain N where N: "\<forall>k \<ge> N. parseOr lib k (tokenize expr) = Some (Inr (node, []))"
    by (auto simp: yields_def)
  have "parseOr lib ?k (tokenize expr) = Some (Inr (node, []))"
    using parse_mono(1) [of ?k "max ?k N" lib "tokenize expr"] parse_returns(1) [of "tokenize expr" ?k lib] N
    by (auto simp: below_def)
  then show "ParseCompound lib expr = Inr m" by (simp add: ParseCompound_def node(1))
qed

end
