(* ===== verification/FactsIndex.thy ===== *)
theory FactsIndex
  imports GoValue
begin

text \<open>
  Facts and their index: \<^verbatim>\<open>src/pkg/facts/collector.go\<close> (flattening facts into dotted keys, turning
  values into text) and \<^verbatim>\<open>src/pkg/facts/index.go\<close> (the inverted index from a fact and its value to the
  peels that have it, and its glob matcher).
\<close>

section \<open>Values as text (collector.go)\<close>

text \<open>The digit loops work on an \<^verbatim>\<open>int64\<close>, of which \<open>wrap64\<close> gives the value after negation.\<close>

function digit_loop :: "int \<Rightarrow> string \<Rightarrow> string" where
  "digit_loop v buf =
     (if v > 0 then digit_loop (v div 10) (char_of (48 + nat (v mod 10)) # buf) else buf)"
  by pat_completeness auto
termination
  by (relation "measure (\<lambda>(v, buf). nat v)") auto

declare digit_loop.simps [simp del]

definition intToStr :: "int \<Rightarrow> string" where
  "intToStr v =
     (if v = 0 then ''0''
      else if v < 0 then CHR ''-'' # digit_loop (wrap64 (- v)) []
      else digit_loop v [])"

definition uintToStr :: "nat \<Rightarrow> string" where
  "uintToStr v = (if v = 0 then ''0'' else digit_loop (int v) [])"

definition padTwo :: "int \<Rightarrow> string" where
  "padTwo v = (if v < 10 then ''0'' @ intToStr v else intToStr v)"

text \<open>
  \<open>fl\<close> rounds the exact result of an arithmetic operation to a \<^verbatim>\<open>float64\<close>, \<open>None\<close> standing for
  infinities and NaN. The sign of an infinity is read off its text.
\<close>

definition formatFloat :: "(rat \<Rightarrow> rat option) \<Rightarrow> rat option \<Rightarrow> string \<Rightarrow> string" where
  "formatFloat fl f txt =
     (let neg = (case f of Some q \<Rightarrow> q < 0 | None \<Rightarrow> txt = ''-Inf'');
          f = map_option abs f;
          intPart = float_int f;
          rest = Option.bind (Option.bind f (\<lambda>q. fl (q - of_int intPart))) (\<lambda>q. fl (q * 100));
          fracPart = float_int rest;
          fracPart = (if fracPart < 0 then wrap64 (- fracPart) else fracPart);
          s = intToStr intPart @ ''.'' @ padTwo fracPart
      in if neg then ''-'' @ s else s)"

definition floatToStr :: "(rat \<Rightarrow> rat option) \<Rightarrow> rat option \<Rightarrow> string \<Rightarrow> string" where
  "floatToStr fl v txt =
     (if v \<noteq> None \<and> fl (of_int (float_int v)) = v then intToStr (float_int v)
      else formatFloat fl v txt)"

text \<open>The decoder only delivers the types listed; every other value is indexed as the empty text.\<close>

fun toString :: "(rat \<Rightarrow> rat option) \<Rightarrow> gval \<Rightarrow> string" where
  "toString fl (GStr s) = s"
| "toString fl (GBool b) = (if b then ''true'' else ''false'')"
| "toString fl (GInt i) = intToStr i"
| "toString fl (GInt64 i) = intToStr i"
| "toString fl (GFloat v s) = floatToStr fl v s"
| "toString fl _ = ''''"

section \<open>Paths and flattening (collector.go)\<close>

definition splitDotPath :: "string \<Rightarrow> string list" where
  "splitDotPath key = filter (\<lambda>p. p \<noteq> '''') (split_on (CHR ''.'') key)"

fun nested_value :: "gval \<Rightarrow> string list \<Rightarrow> gval option" where
  "nested_value current [] = Some current"
| "nested_value current (part # parts) =
     (case current of
        GMap cm \<Rightarrow> (case map_of cm part of None \<Rightarrow> None | Some v \<Rightarrow> nested_value v parts)
      | _ \<Rightarrow> None)"

definition getNestedValue :: "config \<Rightarrow> string \<Rightarrow> gval option" where
  "getNestedValue m key =
     (let parts = splitDotPath key in if parts = [] then None else nested_value (GMap m) parts)"

type_synonym flat = "(string, string) gomap"

definition put_all :: "flat \<Rightarrow> flat \<Rightarrow> flat" where
  "put_all new result = fold (\<lambda>(fk, fv). m_set fk fv) new result"

fun flatten_loop :: "(rat \<Rightarrow> rat option) \<Rightarrow> (string \<times> gval) list \<Rightarrow> string \<Rightarrow> flat \<Rightarrow> flat" where
  "flatten_loop fl [] pre result = result"
| "flatten_loop fl ((k, v) # rest) pre result =
     (let fullKey = (if pre \<noteq> '''' then pre @ ''.'' @ k else k) in
      flatten_loop fl rest pre
        (case v of
           GMap val \<Rightarrow> put_all (flatten_loop fl val fullKey []) result
         | _ \<Rightarrow> m_set fullKey (toString fl v) result))"

definition flattenFacts :: "(rat \<Rightarrow> rat option) \<Rightarrow> config \<Rightarrow> string \<Rightarrow> flat" where
  "flattenFacts fl m pre = flatten_loop fl m pre []"

section \<open>The glob matcher (index.go)\<close>

text \<open>
  \<open>globMatchRec\<close> on what is left of pattern and text; \<open>glob_try\<close> is its inner loop over the positions at
  which the part after a star may begin.
\<close>

function (sequential) globMatchRec :: "string \<Rightarrow> string \<Rightarrow> bool"
  and glob_try :: "string \<Rightarrow> string \<Rightarrow> bool" where
  "globMatchRec (p # ps) (c # cs) =
     (if p = CHR ''*'' then
        (let ps' = dropWhile (\<lambda>x. x = CHR ''*'') ps in
         if ps' = [] then True else glob_try ps' (c # cs))
      else if p = CHR ''?'' then globMatchRec ps cs
      else p = c \<and> globMatchRec ps cs)"
| "globMatchRec ps cs = (dropWhile (\<lambda>x. x = CHR ''*'') ps = [] \<and> cs = [])"
| "glob_try ps cs =
     (if globMatchRec ps cs then True else if cs = [] then False else glob_try ps (tl cs))"
  by pat_completeness auto
termination
proof (relation "measures [\<lambda>x. case x of Inl (ps, cs) \<Rightarrow> length ps | Inr (ps, cs) \<Rightarrow> length ps,
    \<lambda>x. case x of Inl (ps, cs) \<Rightarrow> 0 | Inr (ps, cs) \<Rightarrow> Suc (length cs)]", goal_cases)
  case (2 p ps c cs ps')
  have "length (dropWhile (\<lambda>x. x = CHR ''*'') ps) \<le> length ps" by (rule length_dropWhile_le)
  then show ?case using 2 by simp
qed (auto simp: neq_Nil_conv)

declare glob_try.simps [simp del]

definition globMatch :: "string \<Rightarrow> string \<Rightarrow> bool" where
  "globMatch pattern str = globMatchRec pattern str"

section \<open>The index (index.go)\<close>

definition keySep :: char where
  "keySep = CHR 0x00"

record Index =
  ix_entries :: "(string, string list) gomap"
  ix_peels :: "(string, flat) gomap"
  ix_raw :: "(string, config) gomap"
  ix_seeded :: bool

definition NewIndex :: Index where
  "NewIndex = \<lparr>ix_entries = [], ix_peels = [], ix_raw = [], ix_seeded = False\<rparr>"

definition composite :: "string \<times> string \<Rightarrow> string" where
  "composite kv = fst kv @ [keySep] @ snd kv"

definition drop_entry :: "string \<Rightarrow> string \<times> string \<Rightarrow> (string, string list) gomap \<Rightarrow> (string, string list) gomap" where
  "drop_entry peelID kv entries =
     (case map_of entries (composite kv) of
        None \<Rightarrow> entries
      | Some peels \<Rightarrow>
          (let peels' = removeAll peelID peels in
           if peels' = [] then m_del (composite kv) entries else m_set (composite kv) peels' entries))"

definition add_entry :: "string \<Rightarrow> string \<times> string \<Rightarrow> (string, string list) gomap \<Rightarrow> (string, string list) gomap" where
  "add_entry peelID kv entries =
     (let peels = (case map_of entries (composite kv) of None \<Rightarrow> [] | Some peels \<Rightarrow> peels)
      in m_set (composite kv) (List.insert peelID peels) entries)"

definition drop_old :: "string \<Rightarrow> Index \<Rightarrow> (string, string list) gomap" where
  "drop_old peelID idx =
     (case map_of (ix_peels idx) peelID of
        None \<Rightarrow> ix_entries idx
      | Some old \<Rightarrow> fold (drop_entry peelID) old (ix_entries idx))"

definition Update :: "(rat \<Rightarrow> rat option) \<Rightarrow> string \<Rightarrow> config \<Rightarrow> Index \<Rightarrow> Index" where
  "Update fl peelID facts idx =
     (let flat = flattenFacts fl facts '''' in
      idx\<lparr>ix_entries := fold (add_entry peelID) flat (drop_old peelID idx),
          ix_peels := m_set peelID flat (ix_peels idx),
          ix_raw := m_set peelID facts (ix_raw idx)\<rparr>)"

definition Remove :: "string \<Rightarrow> Index \<Rightarrow> Index" where
  "Remove peelID idx =
     idx\<lparr>ix_entries := drop_old peelID idx,
         ix_peels := m_del peelID (ix_peels idx),
         ix_raw := m_del peelID (ix_raw idx)\<rparr>"

definition MarkSeeded :: "Index \<Rightarrow> Index" where
  "MarkSeeded idx = idx\<lparr>ix_seeded := True\<rparr>"

definition sortedKeys :: "string list \<Rightarrow> string list" where
  "sortedKeys keys = sort (remdups keys)"

text \<open>A composite key that passes the tests in the loops of \<^verbatim>\<open>Match\<close> and \<^verbatim>\<open>MatchKeyGlob\<close>.\<close>

definition entry_hits :: "(string \<Rightarrow> string \<Rightarrow> bool) \<Rightarrow> string \<Rightarrow> bool" where
  "entry_hits test compositeKey =
     (case str_index compositeKey keySep of
        None \<Rightarrow> False
      | Some sepIdx \<Rightarrow> test (take sepIdx compositeKey) (drop (sepIdx + 1) compositeKey))"

definition match_entries :: "(string \<Rightarrow> string \<Rightarrow> bool) \<Rightarrow> Index \<Rightarrow> string list" where
  "match_entries test idx =
     sortedKeys (concat (map snd (filter (\<lambda>e. entry_hits test (fst e)) (ix_entries idx))))"

definition Index_Match :: "string \<Rightarrow> string \<Rightarrow> Index \<Rightarrow> string list" where
  "Index_Match key pattern idx = match_entries (\<lambda>k v. k = key \<and> globMatch pattern v) idx"

definition MatchKeyGlob :: "string \<Rightarrow> string \<Rightarrow> Index \<Rightarrow> string list" where
  "MatchKeyGlob keyPattern valuePattern idx =
     match_entries (\<lambda>k v. globMatch keyPattern k \<and> globMatch valuePattern v) idx"

definition GetPeelFacts :: "string \<Rightarrow> Index \<Rightarrow> flat option" where
  "GetPeelFacts peelID idx = map_of (ix_peels idx) peelID"

definition RawFacts :: "string \<Rightarrow> Index \<Rightarrow> config option" where
  "RawFacts peelID idx = map_of (ix_raw idx) peelID"

definition AllRawFacts :: "Index \<Rightarrow> (string, config) gomap" where
  "AllRawFacts idx = ix_raw idx"

definition PeelIDs :: "Index \<Rightarrow> string list" where
  "PeelIDs idx = sort (m_keys (ix_peels idx))"


section \<open>Decimal text\<close>

lemma digit_loop_step: "v > 0 \<Longrightarrow> digit_loop v buf = digit_loop (v div 10) (char_of (48 + nat (v mod 10)) # buf)"
  by (subst digit_loop.simps) simp

lemma digit_loop_acc: "digit_loop v buf = digit_loop v [] @ buf"
proof (induction "nat v" arbitrary: v buf rule: less_induct)
  case less
  show ?case
  proof (cases "v > 0")
    case True
    let ?d = "char_of (48 + nat (v mod 10)) :: char"
    have "nat (v div 10) < nat v" using True by simp
    from less [OF this, of "?d # buf"] less [OF this, of "[?d]"] show ?thesis
      by (simp add: digit_loop_step [OF True])
  qed (simp add: digit_loop.simps)
qed

lemma digit_loop_dec: "n > 0 \<Longrightarrow> digit_loop (int n) [] = nat_dec n"
proof (induction n rule: nat_dec.induct)
  case (1 n)
  have "digit_loop (int n) [] = digit_loop (int (n div 10)) [char_of (48 + n mod 10)]"
    using 1(2) by (simp add: digit_loop_step zdiv_int nat_mod_distrib)
  then have "digit_loop (int n) [] = digit_loop (int (n div 10)) [] @ [char_of (48 + n mod 10)]"
    using digit_loop_acc by metis
  moreover have "digit_loop (int (n div 10)) [] = []" if "n < 10"
    using that by (subst digit_loop.simps) simp
  moreover have "digit_loop (int (n div 10)) [] = nat_dec (n div 10)" if "\<not> n < 10"
    using 1(1) [OF that] that by simp
  ultimately show ?case by (subst nat_dec.simps) auto
qed

lemma nat_dec_length: "n < 10 ^ k \<Longrightarrow> 0 < k \<Longrightarrow> length (nat_dec n) \<le> k"
proof (induction n arbitrary: k rule: nat_dec.induct)
  case (1 n)
  show ?case
  proof (cases "n < 10")
    case False
    then obtain k' where k: "k = Suc k'" "0 < k'"
      using 1(2,3) by (cases k; cases "k - 1") auto
    then have "n div 10 < 10 ^ k'" using 1(2) by (simp add: div_less_iff_less_mult mult.commute)
    then show ?thesis using 1(1) [OF False] k False by (subst nat_dec.simps) simp
  qed (use 1(3) in \<open>simp add: nat_dec.simps\<close>)
qed

lemma wrap64_min: "wrap64 (2 ^ 63) = - (2 ^ 63)"
  by (simp add: wrap64_def)

text \<open>
  Decimal text of integers, at the width of the code. For every \<^verbatim>\<open>int64\<close> but the smallest, \<^verbatim>\<open>intToStr\<close>
  gives the usual decimal notation and fits in its buffer of 20 bytes; negating the smallest
  overflows, and the text of its digits is empty.
\<close>
theorem int_to_str_decimal:
  assumes "- (2 ^ 63) \<le> v" "v < 2 ^ 63"
  shows "intToStr v = (if v = - (2 ^ 63) then ''-'' else int_dec v) \<and> length (intToStr v) \<le> 20"
proof -
  have abs: "length (nat_dec (nat \<bar>v\<bar>)) \<le> 19"
    by (rule nat_dec_length) (use assms in auto)
  consider "v = - (2 ^ 63)" | "v = 0" | "- (2 ^ 63) < v" "v < 0" | "0 < v" using assms(1) by linarith
  then show ?thesis
  proof cases
    case 1
    then have "intToStr v = ''-''"
      using wrap64_min by (simp add: intToStr_def digit_loop.simps [of "- 9223372036854775808"])
    then show ?thesis using 1 by simp
  next
    case 2
    moreover have "nat_dec 0 = ''0''" by code_simp
    ultimately show ?thesis by (simp add: intToStr_def int_dec_def)
  next
    case 3
    then have "wrap64 (- v) = int (nat (- v))" by (subst wrap64_id) auto
    then show ?thesis
      using 3 abs digit_loop_dec [of "nat (- v)"] by (simp add: intToStr_def int_dec_def)
  next
    case 4
    then show ?thesis
      using abs digit_loop_dec [of "nat v"] by (simp add: intToStr_def int_dec_def)
  qed
qed

theorem int_to_str_decimal_witness:
  "intToStr (- 42) = ''-42'' \<and> intToStr (- (2 ^ 63)) = ''-''"
proof -
  have "int_dec (- 42) = ''-42''" by code_simp
  then show ?thesis
    using int_to_str_decimal [of "- 42"] int_to_str_decimal [of "- (2 ^ 63)"] by simp
qed

end
