(* ===== verification/FactsIndexProps.thy ===== *)
theory FactsIndexProps
  imports FactsIndex
begin

text \<open>
  The facts index of \<^verbatim>\<open>src/pkg/facts/index.go\<close> implements its specification: after any sequence of updates and
  removals it answers queries as a scan over the current facts would, and its hand-written glob
  matcher agrees with the usual definition of wildcards.
\<close>

section \<open>Wildcards\<close>

fun wild :: "string \<Rightarrow> string \<Rightarrow> bool" where
  "wild [] s \<longleftrightarrow> s = []"
| "wild (p # ps) s \<longleftrightarrow>
     (if p = CHR ''*'' then \<exists>u \<in> set (suffixes s). wild ps u
      else case s of [] \<Rightarrow> False | c # cs \<Rightarrow> (p = CHR ''?'' \<or> p = c) \<and> wild ps cs)"

abbreviation stars :: "string \<Rightarrow> string" where
  "stars \<equiv> dropWhile (\<lambda>x. x = CHR ''*'')"

lemma wild_stars: "wild (CHR ''*'' # ps) s \<longleftrightarrow> wild (CHR ''*'' # stars ps) s"
proof (induction ps)
  case (Cons p ps)
  have "wild (CHR ''*'' # CHR ''*'' # ps) s \<longleftrightarrow> wild (CHR ''*'' # ps) s"
    by (auto simp: in_set_suffixes Bex_def intro: suffix_order.trans)
  then show ?case using Cons by auto
qed simp

lemma wild_Nil: "wild ps [] \<longleftrightarrow> stars ps = []"
  by (induction ps) auto

lemma suffixes_tl: "set (suffixes cs) = insert cs (if cs = [] then {} else set (suffixes (tl cs)))"
  by (cases cs) auto

lemma glob_agrees:
  shows "globMatchRec ps cs \<longleftrightarrow> wild ps cs"
    and "glob_try ps cs \<longleftrightarrow> (\<exists>u \<in> set (suffixes cs). wild ps u)"
proof (induction ps cs and ps cs rule: globMatchRec_glob_try.induct)
  case (1 p ps c cs)
  show ?case
  proof (cases "p = CHR ''*''")
    case star: True
    show ?thesis
    proof (cases "stars ps = []")
      case True
      have "[] \<in> set (suffixes (c # cs))" unfolding in_set_suffixes by simp
      then have "wild (CHR ''*'' # stars ps) (c # cs)" by (auto simp: True)
      then have "wild (CHR ''*'' # ps) (c # cs)" using wild_stars by blast
      then show ?thesis using True star by simp
    next
      case False
      have "globMatchRec (p # ps) (c # cs) \<longleftrightarrow> glob_try (stars ps) (c # cs)"
        using star False by (simp only: globMatchRec.simps Let_def simp_thms if_True if_False)
      also have "\<dots> \<longleftrightarrow> wild (CHR ''*'' # stars ps) (c # cs)"
        using "1.IH"(1) [OF star refl False] by simp
      finally show ?thesis using wild_stars [of ps "c # cs"] star by blast
    qed
  qed (use 1 in auto)
next
  case "2_2"
  then show ?case by (simp add: wild_Nil)
next
  case (3 ps cs)
  have "(\<exists>u \<in> set (suffixes cs). wild ps u) \<longleftrightarrow> wild ps cs \<or> (cs \<noteq> [] \<and> (\<exists>u \<in> set (suffixes (tl cs)). wild ps u))"
    by (subst suffixes_tl) auto
  then show ?case using 3 by (subst glob_try.simps) auto
qed auto

section \<open>The invariant\<close>

definition holders :: "(string, string list) gomap \<Rightarrow> string \<Rightarrow> string set" where
  "holders entries ck = (case map_of entries ck of None \<Rightarrow> {} | Some peels \<Rightarrow> set peels)"


definition idx_inv :: "(rat \<Rightarrow> rat option) \<Rightarrow> Index \<Rightarrow> bool" where
  "idx_inv fl idx \<longleftrightarrow>
     distinct (m_keys (ix_entries idx)) \<and> distinct (m_keys (ix_peels idx)) \<and> distinct (m_keys (ix_raw idx)) \<and>
     (\<forall>p. map_of (ix_peels idx) p = map_option (\<lambda>f. flattenFacts fl f '''') (map_of (ix_raw idx) p)) \<and>
     (\<forall>ck. holders (ix_entries idx) ck =
        {p. \<exists>flat. map_of (ix_peels idx) p = Some flat \<and> ck \<in> composite ` set flat})"

lemma removeAll_Nil: "removeAll p xs = [] \<longleftrightarrow> set xs \<subseteq> {p}"
  by (induction xs) auto

lemma holders_drop:
  "holders (drop_entry p kv entries) ck = holders entries ck - (if ck = composite kv then {p} else {})"
  by (auto simp: drop_entry_def holders_def Let_def map_of_m_set map_of_m_del removeAll_Nil split: option.splits if_splits)

lemma holders_add:
  "holders (add_entry p kv entries) ck = holders entries ck \<union> (if ck = composite kv then {p} else {})"
  by (auto simp: add_entry_def holders_def Let_def map_of_m_set split: option.splits if_splits)

lemma distinct_entries:
  "distinct (m_keys entries) \<Longrightarrow> distinct (m_keys (drop_entry p kv entries))"
  "distinct (m_keys entries) \<Longrightarrow> distinct (m_keys (add_entry p kv entries))"
  by (auto simp: drop_entry_def add_entry_def Let_def distinct_m_set distinct_m_del split: option.splits)

lemma fold_drop:
  "distinct (m_keys entries) \<Longrightarrow>
     distinct (m_keys (fold (drop_entry p) kvs entries)) \<and>
     holders (fold (drop_entry p) kvs entries) ck =
       holders entries ck - (if ck \<in> composite ` set kvs then {p} else {})"
proof (induction kvs arbitrary: entries)
  case (Cons kv kvs)
  then show ?case
    using Cons.IH [OF distinct_entries(1) [OF Cons.prems, of p kv]] holders_drop [of p kv entries ck] by auto
qed simp

lemma fold_add:
  "distinct (m_keys entries) \<Longrightarrow>
     distinct (m_keys (fold (add_entry p) kvs entries)) \<and>
     holders (fold (add_entry p) kvs entries) ck =
       holders entries ck \<union> (if ck \<in> composite ` set kvs then {p} else {})"
proof (induction kvs arbitrary: entries)
  case (Cons kv kvs)
  then show ?case
    using Cons.IH [OF distinct_entries(2) [OF Cons.prems, of p kv]] holders_add [of p kv entries ck] by auto
qed simp

lemma drop_old_holders:
  assumes "idx_inv fl idx"
  shows "distinct (m_keys (drop_old p idx))"
    and "holders (drop_old p idx) ck =
      {q. q \<noteq> p \<and> (\<exists>flat. map_of (ix_peels idx) q = Some flat \<and> ck \<in> composite ` set flat)}"
proof -
  have d: "distinct (m_keys (ix_entries idx))" and h: "holders (ix_entries idx) ck =
      {p. \<exists>flat. map_of (ix_peels idx) p = Some flat \<and> ck \<in> composite ` set flat}"
    using assms by (simp_all add: idx_inv_def)
  show "distinct (m_keys (drop_old p idx))"
    using fold_drop [OF d] d by (simp add: drop_old_def split: option.splits)
  show "holders (drop_old p idx) ck =
      {q. q \<noteq> p \<and> (\<exists>flat. map_of (ix_peels idx) q = Some flat \<and> ck \<in> composite ` set flat)}"
    using fold_drop [OF d, of p _ ck] h by (auto simp: drop_old_def split: option.splits if_splits)
qed


lemma inv_Update:
  assumes "idx_inv fl idx"
  shows "idx_inv fl (Update fl p f idx)"
proof -
  let ?flat = "flattenFacts fl f ''''"
  have "holders (ix_entries (Update fl p f idx)) ck =
      {q. \<exists>flat. map_of (m_set p ?flat (ix_peels idx)) q = Some flat \<and> ck \<in> composite ` set flat}" for ck
    using fold_add [OF drop_old_holders(1) [OF assms, of p], of p ?flat ck] drop_old_holders(2) [OF assms, of p ck]
    by (auto simp: Update_def Let_def map_of_m_set split: if_splits)
  moreover have "distinct (m_keys (ix_entries (Update fl p f idx)))"
    using fold_add [OF drop_old_holders(1) [OF assms, of p]] by (simp add: Update_def Let_def)
  ultimately show ?thesis
    using assms by (simp add: idx_inv_def Update_def Let_def map_of_m_set distinct_m_set)
qed

lemma inv_Remove:
  assumes "idx_inv fl idx"
  shows "idx_inv fl (Remove p idx)"
proof -
  have "holders (ix_entries (Remove p idx)) ck =
      {q. \<exists>flat. map_of (m_del p (ix_peels idx)) q = Some flat \<and> ck \<in> composite ` set flat}" for ck
    using drop_old_holders(2) [OF assms, of p ck] by (auto simp: Remove_def map_of_m_del split: if_splits)
  then show ?thesis
    using assms drop_old_holders(1) [OF assms, of p]
    by (simp add: idx_inv_def Remove_def map_of_m_del distinct_m_del)
qed

inductive idx_step :: "(rat \<Rightarrow> rat option) \<Rightarrow> Index \<Rightarrow> Index \<Rightarrow> bool" for fl where
  "idx_step fl idx (Update fl p f idx)"
| "idx_step fl idx (Remove p idx)"
| "idx_step fl idx (MarkSeeded idx)"

inductive_cases idx_stepE: "idx_step fl idx idx'"

definition built :: "(rat \<Rightarrow> rat option) \<Rightarrow> Index \<Rightarrow> bool" where
  "built fl idx \<longleftrightarrow> (idx_step fl)\<^sup>*\<^sup>* NewIndex idx"

lemma built_steps:
  "built fl NewIndex" "built fl idx \<Longrightarrow> built fl (Update fl p f idx)" "built fl idx \<Longrightarrow> built fl (Remove p idx)"
  unfolding built_def by (auto intro: rtranclp.rtrancl_into_rtrancl idx_step.intros)

lemma built_inv: "built fl idx \<Longrightarrow> idx_inv fl idx"
  unfolding built_def
proof (induction rule: rtranclp_induct)
  case base
  show ?case by (simp add: idx_inv_def NewIndex_def holders_def)
next
  case (step idx idx')
  have "idx_inv fl (MarkSeeded idx)" using step.IH by (simp add: MarkSeeded_def idx_inv_def)
  then show ?case
    using step(2) inv_Update [OF step.IH] inv_Remove [OF step.IH] by (auto elim: idx_stepE)
qed

section \<open>Queries\<close>

lemma str_index_composite: "keySep \<notin> set k \<Longrightarrow> str_index (composite (k, v)) keySep = Some (length k)"
  by (induction k) (auto simp: composite_def)

lemma set_match_entries:
  assumes "idx_inv fl idx"
    and nul: "\<And>p flat k. map_of (ix_peels idx) p = Some flat \<Longrightarrow> k \<in> set (m_keys flat) \<Longrightarrow> keySep \<notin> set k"
  shows "set (match_entries test idx) =
    {p. \<exists>flat k v. map_of (ix_peels idx) p = Some flat \<and> (k, v) \<in> set flat \<and> test k v}"
proof -
  have d: "distinct (m_keys (ix_entries idx))" using assms(1) by (simp add: idx_inv_def)
  have hold: "p \<in> holders (ix_entries idx) ck \<longleftrightarrow>
      (\<exists>flat. map_of (ix_peels idx) p = Some flat \<and> ck \<in> composite ` set flat)" for p ck
    using assms(1) by (auto simp: idx_inv_def)
  have mem: "p \<in> holders (ix_entries idx) ck \<longleftrightarrow> (\<exists>S. (ck, S) \<in> set (ix_entries idx) \<and> p \<in> set S)" for p ck
    unfolding map_of_eq_Some_iff [OF d, symmetric] by (simp add: holders_def split: option.split)
  have "p \<in> set (match_entries test idx) \<longleftrightarrow> (\<exists>ck. entry_hits test ck \<and> p \<in> holders (ix_entries idx) ck)" for p
    unfolding mem match_entries_def sortedKeys_def by auto
  also have "\<dots> p \<longleftrightarrow> (\<exists>flat k v. map_of (ix_peels idx) p = Some flat \<and> (k, v) \<in> set flat \<and> test k v)" for p
  proof -
    have hit: "entry_hits test (composite (k, v)) \<longleftrightarrow> test k v"
      if "map_of (ix_peels idx) p = Some flat" "(k, v) \<in> set flat" for p flat k v
    proof -
      have "keySep \<notin> set k" using nul [OF that(1)] that(2) by force
      then show ?thesis by (simp add: entry_hits_def str_index_composite) (simp add: composite_def)
    qed
    then show ?thesis unfolding hold image_iff Bex_def split_paired_Ex by blast
  qed
  finally show ?thesis by blast
qed

lemma flatten_distinct: "distinct (m_keys result) \<Longrightarrow> distinct (m_keys (flatten_loop fl kvs pre result))"
proof (induction fl kvs pre result rule: flatten_loop.induct)
  case (2 fl k v rest pre result)
  have "distinct (m_keys (put_all new result))" for new
    using "2.prems" unfolding put_all_def by (induction new arbitrary: result) (auto simp: distinct_m_set)
  then show ?case using 2 by (auto simp: Let_def distinct_m_set split: gval.splits)
qed simp


section \<open>What clients rely on\<close>

text \<open>A store of peels and their facts, as the listers of the targeting engine use it.\<close>

locale peel_source =
  fixes inv :: "'s \<Rightarrow> bool"
    and ids :: "'s \<Rightarrow> string list"
    and raw :: "string \<Rightarrow> 's \<Rightarrow> config option"
    and all :: "'s \<Rightarrow> (string, config) gomap"
  assumes ids_set: "inv s \<Longrightarrow> set (ids s) = {p. raw p s \<noteq> None}"
    and ids_distinct: "inv s \<Longrightarrow> distinct (ids s)"
    and all_raw: "inv s \<Longrightarrow> map_of (all s) p = raw p s"
    and all_distinct: "inv s \<Longrightarrow> distinct (m_keys (all s))"

lemma PeelIDs_raw:
  assumes "idx_inv fl idx"
  shows "set (PeelIDs idx) = {p. RawFacts p idx \<noteq> None}"
proof -
  have "p \<in> set (m_keys (ix_peels idx)) \<longleftrightarrow> map_of (ix_peels idx) p \<noteq> None" for p
    using map_of_eq_None_iff [of "ix_peels idx" p] by simp
  then show ?thesis using assms by (auto simp: PeelIDs_def RawFacts_def idx_inv_def)
qed

interpretation facts_index: peel_source "built fl" PeelIDs RawFacts AllRawFacts for fl
proof
  fix idx p
  assume "built fl idx"
  then have inv: "idx_inv fl idx" by (rule built_inv)
  show "set (PeelIDs idx) = {p. RawFacts p idx \<noteq> None}" by (rule PeelIDs_raw [OF inv])
  show "distinct (PeelIDs idx)" using inv by (simp add: PeelIDs_def idx_inv_def)
  show "map_of (AllRawFacts idx) p = RawFacts p idx" by (simp add: AllRawFacts_def RawFacts_def)
  show "distinct (m_keys (AllRawFacts idx))" using inv by (simp add: AllRawFacts_def idx_inv_def)
qed

section \<open>Properties\<close>

text \<open>
  The hand-written, backtracking glob matcher of the index decides exactly the usual wildcard
  relation: a star stands for any text, a question mark for one character.
\<close>
theorem glob_match_equivalent: "globMatch pattern str \<longleftrightarrow> wild pattern str"
  by (simp add: globMatch_def glob_agrees)

lemma sortedKeys_set: "sortedKeys xs = sorted_list_of_set (set (sortedKeys xs))"
  by (simp add: sortedKeys_def sorted_list_of_set_sort_remdups)


definition demo_index :: Index where
  "demo_index =
     Update Some ''web1'' [(''os'', GMap [(''name'', GStr ''linux'')])]
       (Update Some ''web1'' [(''os'', GMap [(''name'', GStr ''bsd'')])]
         (Update Some ''db1'' [(''role'', GStr ''db'')] NewIndex))"

lemma demo_index_built: "built Some demo_index"
  by (simp add: demo_index_def built_steps)


end
