(* ===== verification/TargetResolve.thy ===== *)
theory TargetResolve
  imports TargetParse FactsIndexProps
begin

text \<open>
  Resolution of target expressions: \<^verbatim>\<open>Resolve\<close> and \<^verbatim>\<open>NewMatcher\<close> of \<^verbatim>\<open>src/pkg/target/target.go\<close>, the
  index-backed lister, the resolution service and its client of \<^verbatim>\<open>src/pkg/target/service.go\<close>, and the
  scope that \<^verbatim>\<open>src/internal/peeld/basket.go\<close> puts around a query.
\<close>

section \<open>Resolve (target.go)\<close>

definition NewMatcher :: "golib \<Rightarrow> string \<Rightarrow> TargetType \<Rightarrow> Matcher result" where
  "NewMatcher lib expr tt =
     (case tt of
        Glob \<Rightarrow> NewGlobMatcher expr
      | PCRE \<Rightarrow> NewPCREMatcher lib expr
      | Fact \<Rightarrow> NewFactMatcher expr
      | Settings \<Rightarrow> NewFactMatcher expr
      | Compound \<Rightarrow> ParseCompound lib expr
      | TList \<Rightarrow> NewListMatcher expr)"

text \<open>
  A \<^verbatim>\<open>PeelLister\<close>, with the methods of the two optional interfaces \<^verbatim>\<open>ExprResolver\<close> and
  \<^verbatim>\<open>BulkPeelLister\<close> if it implements them.
\<close>

record PeelLister =
  li_ResolveExpr :: "(string \<Rightarrow> TargetType \<Rightarrow> string list result) option"
  li_ListPeelsWithFacts :: "(string, config option) gomap result option"
  li_ListPeels :: "string list result"
  li_GetFacts :: "string \<Rightarrow> config option result"

definition resolveBulk :: "golib \<Rightarrow> Matcher \<Rightarrow> (string, config option) gomap result \<Rightarrow> string list result" where
  "resolveBulk lib matcher bulk =
     (case bulk of
        Inl e \<Rightarrow> Inl (''target: bulk list peels: '' @ e)
      | Inr allFacts \<Rightarrow> Inr (map fst (filter (\<lambda>(ident, facts). Match lib matcher ident facts) allFacts)))"

definition peel_matches :: "golib \<Rightarrow> TargetType \<Rightarrow> Matcher \<Rightarrow> PeelLister \<Rightarrow> string \<Rightarrow> bool" where
  "peel_matches lib tt matcher lister ident =
     (if needsFacts tt
      then (case li_GetFacts lister ident of
              Inl _ \<Rightarrow> False
            | Inr facts \<Rightarrow> Match lib matcher ident facts)
      else Match lib matcher ident None)"

definition Resolve_target :: "golib \<Rightarrow> string \<Rightarrow> TargetType \<Rightarrow> PeelLister \<Rightarrow> string list result" where
  "Resolve_target lib expr tt lister =
     (case li_ResolveExpr lister of
        Some resolve \<Rightarrow> resolve expr tt
      | None \<Rightarrow>
          (case NewMatcher lib expr tt of
             Inl e \<Rightarrow> Inl (''target: create matcher: '' @ e)
           | Inr matcher \<Rightarrow>
               (case (if needsFacts tt then li_ListPeelsWithFacts lister else None) of
                  Some bulk \<Rightarrow> resolveBulk lib matcher bulk
                | None \<Rightarrow>
                    (case li_ListPeels lister of
                       Inl e \<Rightarrow> Inl (''target: list peels: '' @ e)
                     | Inr peels \<Rightarrow> Inr (filter (peel_matches lib tt matcher lister) peels)))))"

section \<open>The resolution service (service.go)\<close>

record ResolveRequest =
  rq_Expr :: string
  rq_Type :: string
  rq_WantFacts :: bool

record ResolveResponse =
  rs_Peels :: "string list"
  rs_Facts :: "(string, config) gomap option"
  rs_Err :: string

type_synonym ResolveFunc = "string \<Rightarrow> string \<Rightarrow> (string list \<times> (string, config) gomap) result"

definition IndexLister :: "Index \<Rightarrow> PeelLister" where
  "IndexLister idx =
     \<lparr>li_ResolveExpr = None,
      li_ListPeelsWithFacts = Some (Inr (map (\<lambda>(p, f). (p, Some f)) (AllRawFacts idx))),
      li_ListPeels = Inr (PeelIDs idx),
      li_GetFacts = (\<lambda>peelID.
        case RawFacts peelID idx of
          None \<Rightarrow> Inl (''target: index lister: no facts for peel '' @ quote_q peelID)
        | Some f \<Rightarrow> Inr (Some f))\<rparr>"

definition facts_by_peel :: "Index \<Rightarrow> string list \<Rightarrow> (string, config) gomap" where
  "facts_by_peel idx peels =
     fold (\<lambda>ident m. case RawFacts ident idx of None \<Rightarrow> m | Some f \<Rightarrow> m_set ident f m) peels []"

definition IndexResolveFunc :: "golib \<Rightarrow> Index \<Rightarrow> ResolveFunc" where
  "IndexResolveFunc lib idx expr targetType =
     (case (if targetType = '''' then Inr (DetectType expr) else ParseType targetType) of
        Inl e \<Rightarrow> Inl e
      | Inr tt \<Rightarrow>
          (case Resolve_target lib expr tt (IndexLister idx) of
             Inl e \<Rightarrow> Inl e
           | Inr peels \<Rightarrow> Inr (peels, facts_by_peel idx peels)))"

text \<open>The request is what decoding the message gave.\<close>

definition handleResolve :: "ResolveFunc \<Rightarrow> ResolveRequest result \<Rightarrow> ResolveResponse" where
  "handleResolve resolve data =
     (case data of
        Inl e \<Rightarrow> \<lparr>rs_Peels = [], rs_Facts = None, rs_Err = ''decode request: '' @ e\<rparr>
      | Inr req \<Rightarrow>
          (case resolve (rq_Expr req) (rq_Type req) of
             Inl e \<Rightarrow> \<lparr>rs_Peels = [], rs_Facts = None, rs_Err = e\<rparr>
           | Inr (peels, factsByPeel) \<Rightarrow>
               \<lparr>rs_Peels = peels, rs_Facts = (if rq_WantFacts req then Some factsByPeel else None), rs_Err = ''''\<rparr>))"

text \<open>
  The bus of a client: \<open>None\<close> if it has no request/reply, otherwise what a request gives: an error of the
  transport, or the decoded response, or an error of the decoder.
\<close>

type_synonym transport = "(ResolveRequest \<Rightarrow> ResolveResponse result result) option"

definition service_request :: "transport \<Rightarrow> ResolveRequest \<Rightarrow> ResolveResponse result" where
  "service_request ps req =
     (case ps of
        None \<Rightarrow> Inl ''target: service lister: pubsub implementation does not support request/reply''
      | Some send \<Rightarrow>
          (case send req of
             Inl e \<Rightarrow> Inl (''target: service lister: request: '' @ e)
           | Inr (Inl e) \<Rightarrow> Inl (''target: service lister: decode response: '' @ e)
           | Inr (Inr resp) \<Rightarrow>
               if rs_Err resp \<noteq> '''' then Inl (''target: service lister: remote resolve: '' @ rs_Err resp)
               else Inr resp))"

definition ResolveExpr ::
  "golib \<Rightarrow> transport \<Rightarrow> PeelLister option \<Rightarrow> string \<Rightarrow> TargetType \<Rightarrow> string list result" where
  "ResolveExpr lib send fallback expr tt =
     (case service_request send \<lparr>rq_Expr = expr, rq_Type = TargetType_String tt, rq_WantFacts = False\<rparr> of
        Inr resp \<Rightarrow> Inr (rs_Peels resp)
      | Inl e \<Rightarrow> (case fallback of None \<Rightarrow> Inl e | Some lister \<Rightarrow> Resolve_target lib expr tt lister))"

definition service_ListPeels :: "transport \<Rightarrow> PeelLister option \<Rightarrow> string list result" where
  "service_ListPeels send fallback =
     (case service_request send \<lparr>rq_Expr = ''*'', rq_Type = TargetType_String Glob, rq_WantFacts = False\<rparr> of
        Inr resp \<Rightarrow> Inr (rs_Peels resp)
      | Inl e \<Rightarrow> (case fallback of None \<Rightarrow> Inl e | Some lister \<Rightarrow> li_ListPeels lister))"

definition service_GetFacts :: "transport \<Rightarrow> PeelLister option \<Rightarrow> string \<Rightarrow> config option result" where
  "service_GetFacts send fallback peelID =
     (case service_request send \<lparr>rq_Expr = peelID, rq_Type = TargetType_String TList, rq_WantFacts = True\<rparr> of
        Inr resp \<Rightarrow>
          (case Option.bind (rs_Facts resp) (\<lambda>m. map_of m peelID) of
             Some f \<Rightarrow> Inr (Some f)
           | None \<Rightarrow> Inl (''target: service lister: no facts for peel '' @ quote_q peelID))
      | Inl e \<Rightarrow> (case fallback of None \<Rightarrow> Inl e | Some lister \<Rightarrow> li_GetFacts lister peelID))"

fun fallback_facts :: "PeelLister \<Rightarrow> string list \<Rightarrow> (string, config option) gomap \<Rightarrow> (string, config option) gomap" where
  "fallback_facts lister [] all = all"
| "fallback_facts lister (ident # ids) all =
     (case li_GetFacts lister ident of
        Inl _ \<Rightarrow> fallback_facts lister ids all
      | Inr f \<Rightarrow> fallback_facts lister ids (m_set ident f all))"

definition service_ListPeelsWithFacts :: "transport \<Rightarrow> PeelLister option \<Rightarrow> (string, config option) gomap result" where
  "service_ListPeelsWithFacts send fallback =
     (case service_request send \<lparr>rq_Expr = ''*'', rq_Type = TargetType_String Glob, rq_WantFacts = True\<rparr> of
        Inr resp \<Rightarrow> Inr (map (\<lambda>(p, f). (p, Some f)) (case rs_Facts resp of None \<Rightarrow> [] | Some m \<Rightarrow> m))
      | Inl e \<Rightarrow>
          (case fallback of
             None \<Rightarrow> Inl e
           | Some lister \<Rightarrow>
               (case li_ListPeelsWithFacts lister of
                  Some bulk \<Rightarrow> bulk
                | None \<Rightarrow>
                    (case li_ListPeels lister of
                       Inl e \<Rightarrow> Inl (''target: service lister: fallback list peels: '' @ e)
                     | Inr ids \<Rightarrow> Inr (fallback_facts lister ids [])))))"

definition ServiceLister :: "golib \<Rightarrow> transport \<Rightarrow> PeelLister option \<Rightarrow> PeelLister" where
  "ServiceLister lib ps fallback =
     \<lparr>li_ResolveExpr = Some (ResolveExpr lib ps fallback),
      li_ListPeelsWithFacts = Some (service_ListPeelsWithFacts ps fallback),
      li_ListPeels = service_ListPeels ps fallback,
      li_GetFacts = service_GetFacts ps fallback\<rparr>"

definition ServiceBasketQuery :: "transport \<Rightarrow> string \<Rightarrow> (string, config option) gomap result" where
  "ServiceBasketQuery ps expr =
     (case service_request ps \<lparr>rq_Expr = expr, rq_Type = TargetType_String (DetectType expr), rq_WantFacts = True\<rparr> of
        Inl e \<Rightarrow> Inl e
      | Inr resp \<Rightarrow>
          Inr (fold (\<lambda>ident out. if map_of out ident = None then m_set ident None out else out) (rs_Peels resp)
            (map (\<lambda>(p, f). (p, Some f)) (case rs_Facts resp of None \<Rightarrow> [] | Some m \<Rightarrow> m))))"

section \<open>Scoped queries (basket.go)\<close>

definition basket_target :: "string \<Rightarrow> string \<Rightarrow> string" where
  "basket_target scope tgt = (if scope \<noteq> '''' then ''('' @ tgt @ '') and ('' @ scope @ '')'' else tgt)"

text \<open>
  The basket function of a peel with the scope \<open>scope\<close>: \<open>facts\<close> is the lister over the facts bucket, \<open>ps\<close>
  the bus, if there is one, and \<open>basket\<close> the basket bucket, if it can be opened.
\<close>

fun basket_values :: "(string \<Rightarrow> gval option) \<Rightarrow> string \<Rightarrow> string list \<Rightarrow> (string \<times> gval) list" where
  "basket_values basket fn [] = []"
| "basket_values basket fn (peelID # peels) =
     (case basket (peelID @ ''.'' @ fn) of
        None \<Rightarrow> basket_values basket fn peels
      | Some val \<Rightarrow> (peelID, val) # basket_values basket fn peels)"

definition makeBasketFunc ::
  "golib \<Rightarrow> PeelLister \<Rightarrow> transport option \<Rightarrow> (string \<Rightarrow> gval option) option \<Rightarrow> string \<Rightarrow>
     string \<Rightarrow> string \<Rightarrow> (string \<times> gval) list" where
  "makeBasketFunc lib facts ps basketKV scope tgt fn =
     (let tgt = basket_target scope tgt;
          tt = DetectType tgt;
          lister = (case ps of None \<Rightarrow> facts | Some bus \<Rightarrow> ServiceLister lib bus (Some facts))
      in case Resolve_target lib tgt tt lister of
           Inl _ \<Rightarrow> []
         | Inr peels \<Rightarrow> (case basketKV of None \<Rightarrow> [] | Some basket \<Rightarrow> basket_values basket fn peels))"

end
