(* ===== verification/TargetProps.thy ===== *)
theory TargetProps
  imports TargetResolve
begin

text \<open>
  What resolving a target gives: exactly the matching peels, whichever way the facts are loaded, whether
  the expression is resolved by the client or by a master. Then the scope of a basket query: when it
  holds, and how a query can leave it.
\<close>

section \<open>Exact resolution\<close>

context peel_source
begin


lemma bulk_matching:
  assumes "inv s"
  shows "set (map fst (filter (\<lambda>(p, f). P p f) (all s))) = {p. \<exists>f. raw p s = Some f \<and> P p f}"
    "distinct (map fst (filter (\<lambda>(p, f). P p f) (all s)))"
proof -
  have "(p, f) \<in> set (all s) \<longleftrightarrow> raw p s = Some f" for p f
    using all_raw [OF assms, of p] map_of_eq_Some_iff [of "all s" p f] all_distinct [OF assms] by simp
  then show "set (map fst (filter (\<lambda>(p, f). P p f) (all s))) = {p. \<exists>f. raw p s = Some f \<and> P p f}"
    by force
  show "distinct (map fst (filter (\<lambda>(p, f). P p f) (all s)))"
    by (rule distinct_map_filter) (use all_distinct [OF assms] in simp)
qed

lemma scan_matching:
  assumes "inv s"
  shows "set (filter (\<lambda>p. case raw p s of None \<Rightarrow> False | Some f \<Rightarrow> P p f) (ids s)) =
      {p. \<exists>f. raw p s = Some f \<and> P p f}"
    "distinct (filter (\<lambda>p. case raw p s of None \<Rightarrow> False | Some f \<Rightarrow> P p f) (ids s))"
  using ids_set [OF assms] ids_distinct [OF assms] by (auto split: option.splits)

end

text \<open>A lister over an index without the bulk interface.\<close>

definition plain_lister :: "Index \<Rightarrow> PeelLister" where
  "plain_lister idx = (IndexLister idx)\<lparr>li_ListPeelsWithFacts := None\<rparr>"

definition matching_peels :: "golib \<Rightarrow> Matcher \<Rightarrow> Index \<Rightarrow> string set" where
  "matching_peels lib m idx = {p. \<exists>f. RawFacts p idx = Some f \<and> Match lib m p (Some f)}"

lemma Match_without_facts:
  assumes "NewMatcher lib expr tt = Inr m" "\<not> needsFacts tt"
  shows "Match lib m p facts = Match lib m p None"
  using assms
  by (cases tt) (auto simp: NewMatcher_def needsFacts_def NewGlobMatcher_def NewPCREMatcher_def NewListMatcher_def
      Let_def split: option.splits if_splits)

lemma resolve_scan:
  assumes "built fl idx" "NewMatcher lib expr tt = Inr m"
  shows "filter (peel_matches lib tt m (IndexLister idx)) (PeelIDs idx) =
     filter (\<lambda>p. case RawFacts p idx of None \<Rightarrow> False | Some f \<Rightarrow> Match lib m p (Some f)) (PeelIDs idx)"
proof (rule filter_cong)
  fix p
  assume "p \<in> set (PeelIDs idx)"
  then obtain f where "RawFacts p idx = Some f" using facts_index.ids_set [OF assms(1)] by auto
  then show "peel_matches lib tt m (IndexLister idx) p =
      (case RawFacts p idx of None \<Rightarrow> False | Some f \<Rightarrow> Match lib m p (Some f))"
    using Match_without_facts [OF assms(2), of p "Some f"] by (auto simp: peel_matches_def IndexLister_def)
qed simp

lemma bulk_filter:
  "map fst (filter (\<lambda>(p, f). Match lib m p f) (map (\<lambda>(p, f). (p, Some f)) kvs)) =
     map fst (filter (\<lambda>(p, f). Match lib m p (Some f)) kvs)"
  by (induction kvs) auto

lemma peel_matches_plain: "peel_matches lib tt m (plain_lister idx) = peel_matches lib tt m (IndexLister idx)"
  by (simp add: fun_eq_iff peel_matches_def plain_lister_def)

lemma lister_fields:
  "li_ResolveExpr (IndexLister idx) = None" "li_ResolveExpr (plain_lister idx) = None"
  "li_ListPeelsWithFacts (plain_lister idx) = None"
  "li_ListPeels (IndexLister idx) = Inr (PeelIDs idx)" "li_ListPeels (plain_lister idx) = Inr (PeelIDs idx)"
  by (simp_all add: IndexLister_def plain_lister_def)

lemma resolve_index:
  assumes built: "built fl idx" and m: "NewMatcher lib expr tt = Inr m"
    and l: "lister \<in> {IndexLister idx, plain_lister idx}"
  shows "\<exists>peels. Resolve_target lib expr tt lister = Inr peels \<and> distinct peels \<and> set peels = matching_peels lib m idx"
proof -
  note scan = facts_index.scan_matching [OF built, of "\<lambda>p f. Match lib m p (Some f)", folded matching_peels_def]
  note bulk = facts_index.bulk_matching [OF built, of "\<lambda>p f. Match lib m p (Some f)", folded matching_peels_def]
  show ?thesis
  proof (cases "needsFacts tt \<and> lister = IndexLister idx")
    case True
    then show ?thesis using bulk m
      by (simp add: Resolve_target_def resolveBulk_def IndexLister_def bulk_filter)
  next
    case False
    have "Resolve_target lib expr tt lister = Inr (filter (peel_matches lib tt m (IndexLister idx)) (PeelIDs idx))"
      using False l m peel_matches_plain [of lib tt m idx]
      by (auto simp: Resolve_target_def lister_fields)
    then show ?thesis using scan unfolding resolve_scan [OF built m] by simp
  qed
qed

section \<open>The service\<close>

text \<open>The bus of a client that reaches a master whose index is \<open>idx\<close>.\<close>

definition served :: "golib \<Rightarrow> Index \<Rightarrow> transport" where
  "served lib idx = Some (\<lambda>req. Inr (Inr (handleResolve (IndexResolveFunc lib idx) (Inr req))))"

lemma ParseType_String: "ParseType (TargetType_String tt) = Inr tt"
  by (cases tt; simp only: TargetType_String.simps; code_simp)

lemma TargetType_String_nonempty: "TargetType_String tt \<noteq> ''''"
  by (cases tt) simp_all

lemma Resolve_error: "Resolve_target lib expr tt (IndexLister idx) = Inl e \<Longrightarrow> e \<noteq> ''''"
  by (auto simp: Resolve_target_def lister_fields resolveBulk_def split: sum.splits option.splits if_splits)

lemma request_served:
  "service_request (served lib idx) \<lparr>rq_Expr = expr, rq_Type = TargetType_String tt, rq_WantFacts = w\<rparr> =
     (case Resolve_target lib expr tt (IndexLister idx) of
        Inl e \<Rightarrow> Inl (''target: service lister: remote resolve: '' @ e)
      | Inr peels \<Rightarrow> Inr \<lparr>rs_Peels = peels, rs_Facts = (if w then Some (facts_by_peel idx peels) else None), rs_Err = ''''\<rparr>)"
proof (cases "Resolve_target lib expr tt (IndexLister idx)")
  case (Inl e)
  then show ?thesis using Resolve_error [OF Inl]
    by (simp add: service_request_def served_def handleResolve_def IndexResolveFunc_def ParseType_String
        TargetType_String_nonempty)
next
  case (Inr peels)
  then show ?thesis
    by (simp add: service_request_def served_def handleResolve_def IndexResolveFunc_def ParseType_String
        TargetType_String_nonempty)
qed

lemma map_of_facts_by_peel:
  "map_of (facts_by_peel idx peels) p = (if p \<in> set peels then RawFacts p idx else None)"
proof -
  have "map_of (fold (\<lambda>ident m. case RawFacts ident idx of None \<Rightarrow> m | Some f \<Rightarrow> m_set ident f m) peels m0) p =
      (if p \<in> set peels \<and> RawFacts p idx \<noteq> None then RawFacts p idx else map_of m0 p)" for m0
    by (induction peels arbitrary: m0) (auto simp: map_of_m_set split: option.splits)
  then show ?thesis by (auto simp: facts_by_peel_def)
qed

lemma peel_id_list:
  assumes "ValidatePeelID p = None"
  shows "NewListMatcher p = Inr (ListMatcher [p] p)"
proof -
  have re: "peelIDRegex p" using assms by (simp add: ValidatePeelID_iff)
  then have all: "\<forall>c \<in> set p. isPeelIDByte c" and ne: "p \<noteq> ''''"
    by (auto simp: peelIDRegex_def isPeelIDByte_def list_all_iff split: list.splits)
  have special: "\<not> isPeelIDByte (CHR '','')" "\<not> isPeelIDByte (CHR ''@'')" "\<not> isPeelIDByte (CHR ''.'')" by code_simp+
  have "split_on c s = [s]" if "c \<notin> set s" for c s using that by (induction s) auto
  then have split: "split_on (CHR '','') p = [p]" using all special by blast
  have "\<not> has_prefix p ''L@''" using all special by (auto simp: prefix_def)
  then have pre: "trim_prefix p ''L@'' = p" by (simp add: trim_prefix_def)
  have "\<not> is_space c" if "c \<in> set p" for c
    using all that by (auto simp: is_space_def isPeelIDByte_def isAlnum_def)
  then have trim: "trim_space p = p" using ne
    by (simp add: trim_space_def dropWhile_eq_self_iff [THEN iffD2] hd_rev)
  have "glob_plain p" using all unfolding glob_plain_def
    by (auto simp: isPeelIDByte_def isAlnum_def)
  then have "SanitizeGlobDots p = encode_dots p" by (rule sanitize_glob_plain)
  moreover have "encode_dots p = p" unfolding encode_dots_def using all special
    by (auto intro!: map_idI)
  ultimately show ?thesis using split pre trim ne by (simp add: NewListMatcher_def)
qed

lemma service_facts:
  assumes "built fl idx" "ValidatePeelID p = None"
  shows "service_GetFacts (served lib idx) fallback p =
     (case RawFacts p idx of
        None \<Rightarrow> Inl (''target: service lister: no facts for peel '' @ quote_q p)
      | Some f \<Rightarrow> Inr (Some f))"
proof -
  have "NewMatcher lib p TList = Inr (ListMatcher [p] p)" by (simp add: NewMatcher_def peel_id_list assms(2))
  then obtain peels where "Resolve_target lib p TList (IndexLister idx) = Inr peels"
    "set peels = {q. \<exists>f. RawFacts q idx = Some f \<and> q = p}"
    using resolve_index [OF assms(1), of lib p TList _ "IndexLister idx"] by (auto simp: matching_peels_def)
  then show ?thesis
    unfolding service_GetFacts_def request_served
    by (cases "RawFacts p idx") (simp_all add: map_of_facts_by_peel)
qed

section \<open>Scopes\<close>

lemma flush_Nil [simp]: "flush '''' = []"
  by code_simp

lemma tokenize_paren: "tokenize_loop cur (a @ CHR '')'' # rest) = tokenize_loop cur a @ '')'' # tokenize rest"
  by (induction a arbitrary: cur) (simp_all add: tokenize_def)

lemma tokenize_open: "tokenize (CHR ''('' # rest) = ''('' # tokenize rest"
  by (simp add: tokenize_def)

lemma tokenize_close: "tokenize (a @ CHR '')'' # rest) = tokenize a @ '')'' # tokenize rest"
  unfolding tokenize_def by (simp add: tokenize_paren tokenize_def)

lemma tokenize_word:
  assumes "\<forall>c \<in> set w. c \<notin> set ''() '' \<and> \<not> is_space c" "w \<noteq> ''''"
  shows "tokenize (CHR '' '' # w @ CHR '' '' # rest) = w # tokenize rest"
proof -
  have step: "tokenize_loop cur (w @ CHR '' '' # rest) = flush (cur @ w) @ tokenize rest" for cur
    using assms(1)
  proof (induction w arbitrary: cur)
    case (Cons c w)
    then have "c \<noteq> CHR 0x09" by (auto simp: is_space_def)
    then show ?case using Cons by simp
  qed (simp add: tokenize_def)
  have "trim_space w = w"
    using assms by (simp add: trim_space_def dropWhile_eq_self_iff [THEN iffD2] hd_rev)
  then show ?thesis using assms(2) by (simp add: tokenize_def step flush_def [of w])
qed

lemma tokenize_and: "tokenize ('' and '' @ rest) = ''and'' # tokenize rest"
  using tokenize_word [of "''and''" rest] by (simp add: is_space_def)

lemma tokenize_or: "tokenize ('' or '' @ rest) = ''or'' # tokenize rest"
  using tokenize_word [of "''or''" rest] by (simp add: is_space_def)

lemma basket_tokens:
  assumes "scope \<noteq> ''''"
  shows "tokenize (basket_target scope tgt) =
     ''('' # tokenize tgt @ '')'' # ''and'' # ''('' # tokenize scope @ ['')'']"
  using assms tokenize_and [of "CHR ''('' # scope @ '')''"] tokenize_close [of scope "[]"]
  by (simp add: basket_target_def tokenize_open tokenize_close tokenize_def [of "[]"])

lemma resolve_served:
  "Resolve_target lib expr tt (ServiceLister lib (served lib idx) fallback) =
     (case Resolve_target lib expr tt (IndexLister idx) of
        Inr peels \<Rightarrow> Inr peels
      | Inl e \<Rightarrow> (case fallback of
                  None \<Rightarrow> Inl (''target: service lister: remote resolve: '' @ e)
                | Some lister \<Rightarrow> Resolve_target lib expr tt lister))"
proof -
  have "Resolve_target lib expr tt (ServiceLister lib (served lib idx) fallback) =
      ResolveExpr lib (served lib idx) fallback expr tt"
    by (simp add: Resolve_target_def ServiceLister_def)
  then show ?thesis unfolding ResolveExpr_def request_served
    by (cases "Resolve_target lib expr tt (IndexLister idx)"; cases fallback) simp_all
qed

lemma detect_scoped:
  assumes "scope \<noteq> ''''"
  shows "DetectType (basket_target scope tgt) = Compound"
proof -
  have "to_lower (basket_target scope tgt) = (CHR ''('' # to_lower tgt @ '')'') @ '' and '' @ (CHR ''('' # to_lower scope @ '')'')"
    using assms by (simp add: basket_target_def to_lower_def to_lower_char_def)
  then have "sublist '' and '' (to_lower (basket_target scope tgt))" unfolding sublist_def by blast
  moreover have "\<not> has_prefix (basket_target scope tgt) [a, CHR ''@'']" if "a \<noteq> CHR ''(''" for a
    using that assms by (auto simp: basket_target_def)
  ultimately show ?thesis by (simp add: DetectType_def)
qed

lemmas g_paren = or_one [OF and_one [OF not_primary [OF paren]]]

lemma g_scoped:
  assumes "g_or lib ts n" "g_or lib ss s"
  shows "g_and lib (''('' # ts @ '')'' # ''and'' # ''('' # ss @ ['')'']) (AndNode n s)"
  using and_more [OF and_one [OF not_primary [OF paren [OF assms(1)]]] _ not_primary [OF paren [OF assms(2)]], of "''and''"]
  by simp

lemma basket_matching:
  assumes "built fl idx" "NewMatcher lib (basket_target scope tgt) (DetectType (basket_target scope tgt)) = Inr m"
    "ps \<in> {None, Some (served lib idx)}"
  shows "set (makeBasketFunc lib (IndexLister idx) ps (Some basket) scope tgt fn) =
     {(p, v). p \<in> matching_peels lib m idx \<and> basket (p @ ''.'' @ fn) = Some v}"
proof -
  obtain peels where r: "Resolve_target lib (basket_target scope tgt) (DetectType (basket_target scope tgt)) (IndexLister idx) = Inr peels"
    and peels: "set peels = matching_peels lib m idx"
    using resolve_index [OF assms(1,2), of "IndexLister idx"] by auto
  have "set (basket_values basket fn ps) = {(p, v). p \<in> set ps \<and> basket (p @ ''.'' @ fn) = Some v}" for ps
    by (induction ps) (auto split: option.splits)
  then show ?thesis using assms(3) r peels by (auto simp: makeBasketFunc_def resolve_served Let_def)
qed

section \<open>Properties\<close>

text \<open>
  C26: the parser of compound expressions accepts exactly the expressions its documented grammar derives, and
  the matcher it builds is the tree the grammar gives: \<open>and\<close> binds tighter than \<open>or\<close>, both associate to the
  left, \<open>not\<close> binds tightest.
\<close>
theorem compound_grammar:
  "ParseCompound lib expr = Inr m \<longleftrightarrow>
     (\<exists>node. m = CompoundMatcher node expr \<and> g_or lib (tokenize expr) node)"
  by (rule ParseCompound_iff)

text \<open>
  C27: resolving a valid expression over a facts index gives each peel that matches it exactly once, and no
  other peel, and the answer is the same set of peels whether the facts are loaded in bulk, one peel at a
  time, or the whole expression is sent to a master that serves the index. The facts a client asks a master
  for are those of the index.
\<close>
theorem resolution_transparent:
  assumes "built fl idx" "NewMatcher lib expr tt = Inr m"
    and "lister \<in> {IndexLister idx, plain_lister idx, ServiceLister lib (served lib idx) fallback}"
  shows "(\<exists>peels. Resolve_target lib expr tt lister = Inr peels \<and> distinct peels \<and>
            set peels = {p. \<exists>f. RawFacts p idx = Some f \<and> Match lib m p (Some f)}) \<and>
         (ValidatePeelID p = None \<longrightarrow>
            li_GetFacts (ServiceLister lib (served lib idx) fallback) p =
              (case RawFacts p idx of
                 None \<Rightarrow> Inl (''target: service lister: no facts for peel '' @ quote_q p)
               | Some f \<Rightarrow> Inr (Some f)))"
proof (intro conjI impI)
  show "\<exists>peels. Resolve_target lib expr tt lister = Inr peels \<and> distinct peels \<and>
      set peels = {p. \<exists>f. RawFacts p idx = Some f \<and> Match lib m p (Some f)}"
    unfolding matching_peels_def [symmetric]
  proof (cases "lister \<in> {IndexLister idx, plain_lister idx}")
    case False
    then have l: "lister = ServiceLister lib (served lib idx) fallback" using assms(3) by blast
    obtain peels where "Resolve_target lib expr tt (IndexLister idx) = Inr peels" "distinct peels"
      "set peels = matching_peels lib m idx" using resolve_index [OF assms(1,2), of "IndexLister idx"] by auto
    then show "\<exists>peels. Resolve_target lib expr tt lister = Inr peels \<and> distinct peels \<and> set peels = matching_peels lib m idx"
      unfolding l resolve_served by simp
  qed (rule resolve_index [OF assms(1,2)])
qed (simp add: ServiceLister_def service_facts [OF assms(1)])

text \<open>
  C28: the scope of a basket query holds when the caller's target is a complete expression: the query returns
  the values of exactly the peels that match both the target and the scope, with and without a master.
\<close>
theorem basket_scope_enforced:
  assumes "built fl idx" "scope \<noteq> ''''" "ps \<in> {None, Some (served lib idx)}"
    and "ParseCompound lib tgt = Inr m" "ParseCompound lib scope = Inr s"
  shows "set (makeBasketFunc lib (IndexLister idx) ps (Some basket) scope tgt fn) =
     {(p, v). p \<in> matching_peels lib m idx \<and> p \<in> matching_peels lib s idx \<and> basket (p @ ''.'' @ fn) = Some v}"
proof -
  obtain n1 n2 where n: "m = CompoundMatcher n1 tgt" "g_or lib (tokenize tgt) n1"
    "s = CompoundMatcher n2 scope" "g_or lib (tokenize scope) n2"
    using assms(4,5) unfolding ParseCompound_iff by blast
  let ?e = "basket_target scope tgt"
  have "g_or lib (tokenize ?e) (AndNode n1 n2)"
    unfolding basket_tokens [OF assms(2)] by (rule or_one [OF g_scoped [OF n(2,4)]])
  then have "NewMatcher lib ?e (DetectType ?e) = Inr (CompoundMatcher (AndNode n1 n2) ?e)"
    by (simp add: detect_scoped assms(2) NewMatcher_def ParseCompound_iff)
  from basket_matching [OF assms(1) this assms(3)] show ?thesis
    by (auto simp: n(1,3) matching_peels_def)
qed

text \<open>
  C29: the scope can be left by a target that closes the parenthesis put around it: for every complete expression
  \<open>t\<close>, the target \<^verbatim>\<open>t) or (t\<close> returns the values of all peels that match \<open>t\<close>, inside the scope or not.
\<close>
theorem basket_scope_escape:
  assumes "built fl idx" "scope \<noteq> ''''" "ps \<in> {None, Some (served lib idx)}"
    and "ParseCompound lib t = Inr m" "ParseCompound lib scope = Inr s"
  shows "set (makeBasketFunc lib (IndexLister idx) ps (Some basket) scope (t @ '') or ('' @ t) fn) =
     {(p, v). p \<in> matching_peels lib m idx \<and> basket (p @ ''.'' @ fn) = Some v}"
proof -
  obtain n1 n2 where n: "m = CompoundMatcher n1 t" "g_or lib (tokenize t) n1" "g_or lib (tokenize scope) n2"
    using assms(4,5) unfolding ParseCompound_iff by blast
  let ?e = "basket_target scope (t @ '') or ('' @ t)"
  have "tokenize (t @ '') or ('' @ t) = tokenize t @ '')'' # ''or'' # ''('' # tokenize t"
    using tokenize_or [of "CHR ''('' # t"] by (simp add: tokenize_close tokenize_open)
  then have "g_or lib (tokenize ?e) (OrNode n1 (AndNode n1 n2))"
    using or_more [OF g_paren [OF n(2)] _ g_scoped [OF n(2,3)], of "''or''"]
    by (simp add: basket_tokens [OF assms(2)])
  then have "NewMatcher lib ?e (DetectType ?e) = Inr (CompoundMatcher (OrNode n1 (AndNode n1 n2)) ?e)"
    by (simp add: detect_scoped assms(2) NewMatcher_def ParseCompound_iff)
  from basket_matching [OF assms(1) this assms(3)] show ?thesis
    by (auto simp: n(1) matching_peels_def)
qed

text \<open>
  A compound expression that begins with a fact matcher is not recognised as one when its type is
  detected: it is read as a single fact matcher whose value is the rest of the text, operators included, and
  so matches only a peel whose fact has that text as its value.
\<close>
theorem detect_prefixed_compound:
  assumes "CHR '':'' \<notin> set key" "key \<noteq> ''''" "parseCompareOp val = (OpEqual, val)" "\<not> has_prefix key ''I@''"
  shows "let expr = ''G@'' @ key @ '':'' @ val @ '' and '' @ rest in
     DetectType expr = Fact \<and>
     NewMatcher lib expr (DetectType expr) = Inr (FactMatcher key OpEqual (val @ '' and '' @ rest) expr)"
proof -
  have idx: "str_index (key @ CHR '':'' # s) (CHR '':'') = Some (length key)" for s
    using assms(1) by (induction key) auto
  have op: "parseCompareOp (val @ '' and '' @ rest) = (OpEqual, val @ '' and '' @ rest)"
    using assms(3) by (cases val; cases "tl val") (auto simp: parseCompareOp_def split: if_splits)
  have i: "\<not> has_prefix (key @ CHR '':'' # s) ''I@''" for s
    using assms(1,2,4) by (cases key; cases "tl key") auto
  show ?thesis using idx i op assms(2)
    by (simp add: Let_def DetectType_def NewMatcher_def NewFactMatcher_def trim_prefix_def)
qed

section \<open>Witnesses\<close>

definition demo_lib :: golib where
  "demo_lib = \<lparr>re_compile = (\<lambda>_. None), re_match = (\<lambda>r s. r = s), parse_float = (\<lambda>_. None)\<rparr>"

definition demo_peels :: Index where
  "demo_peels =
     Update Some ''web1'' [(''cluster'', GStr ''a'')] (Update Some ''web2'' [(''cluster'', GStr ''b'')] NewIndex)"

lemma demo_peels_built: "built Some demo_peels"
  by (simp add: demo_peels_def built_steps)

lemma demo_peels_raw:
  "RawFacts p demo_peels =
     (if p = ''web1'' then Some [(''cluster'', GStr ''a'')]
      else if p = ''web2'' then Some [(''cluster'', GStr ''b'')] else None)"
  by (simp add: demo_peels_def RawFacts_def Update_def Let_def NewIndex_def map_of_m_set)

lemma demo_exprs:
  "ParseCompound demo_lib ''web*'' = Inr (CompoundMatcher (MatcherNode (GlobMatcher ''web*'' ''web*'')) ''web*'')"
  "ParseCompound demo_lib ''G@cluster:a'' =
     Inr (CompoundMatcher (MatcherNode (FactMatcher ''cluster'' OpEqual ''a'' ''G@cluster:a'')) ''G@cluster:a'')"
  by code_simp+

lemma demo_matches:
  "Match demo_lib (FactMatcher ''cluster'' OpEqual ''a'' ''G@cluster:a'') p (Some [(''cluster'', GStr ''a'')])"
  "\<not> Match demo_lib (FactMatcher ''cluster'' OpEqual ''a'' ''G@cluster:a'') p (Some [(''cluster'', GStr ''b'')])"
  "Match demo_lib (GlobMatcher ''web*'' ''web*'') ''web1'' f" "Match demo_lib (GlobMatcher ''web*'' ''web*'') ''web2'' f"
proof -
  have l: "lookupNested [(''cluster'', GStr x)] ''cluster'' = GStr x" for x
    by (simp add: lookupNested_def)
  have "compare demo_lib OpEqual ''a'' (sprint_v (GStr ''a''))" "\<not> compare demo_lib OpEqual ''a'' (sprint_v (GStr ''b''))"
    by code_simp+
  then show "Match demo_lib (FactMatcher ''cluster'' OpEqual ''a'' ''G@cluster:a'') p (Some [(''cluster'', GStr ''a'')])"
    "\<not> Match demo_lib (FactMatcher ''cluster'' OpEqual ''a'' ''G@cluster:a'') p (Some [(''cluster'', GStr ''b'')])"
    by (simp_all add: l)
  have "glob_match ''web*'' ''web1'' = Some True" "glob_match ''web*'' ''web2'' = Some True" by code_simp+
  then show "Match demo_lib (GlobMatcher ''web*'' ''web*'') ''web1'' f" "Match demo_lib (GlobMatcher ''web*'' ''web*'') ''web2'' f"
    by simp_all
qed

theorem resolution_transparent_witness:
  "\<exists>peels. Resolve_target demo_lib ''G@cluster:a'' Fact (ServiceLister demo_lib (served demo_lib demo_peels) None) = Inr peels \<and>
     set peels = {''web1''}"
proof -
  have m: "NewMatcher demo_lib ''G@cluster:a'' Fact = Inr (FactMatcher ''cluster'' OpEqual ''a'' ''G@cluster:a'')"
    by code_simp
  have "{p. \<exists>f. RawFacts p demo_peels = Some f \<and>
      Match demo_lib (FactMatcher ''cluster'' OpEqual ''a'' ''G@cluster:a'') p (Some f)} = {''web1''}"
    using demo_matches(1,2) unfolding demo_peels_raw by (auto simp del: Match.simps split: if_splits)
  moreover have "\<exists>peels. Resolve_target demo_lib ''G@cluster:a'' Fact (ServiceLister demo_lib (served demo_lib demo_peels) None) = Inr peels \<and>
      distinct peels \<and> set peels = {p. \<exists>f. RawFacts p demo_peels = Some f \<and>
      Match demo_lib (FactMatcher ''cluster'' OpEqual ''a'' ''G@cluster:a'') p (Some f)}"
    by (rule resolution_transparent [OF demo_peels_built m, THEN conjunct1]) blast
  ultimately show ?thesis by metis
qed

lemma demo_filter:
  "{p. \<exists>f. RawFacts p demo_peels = Some f \<and> P p (Some f)} =
     (if P ''web1'' (Some [(''cluster'', GStr ''a'')]) then {''web1''} else {}) \<union>
     (if P ''web2'' (Some [(''cluster'', GStr ''b'')]) then {''web2''} else {})"
  by (auto simp: demo_peels_raw split: if_splits)

lemma demo_values:
  "{(p, v). p \<in> A \<and> Some (GStr (p @ s)) = Some v} = (\<lambda>p. (p, GStr (p @ s))) ` A"
  by auto

lemma demo_scoped_peels:
  "matching_peels demo_lib (CompoundMatcher (MatcherNode (FactMatcher ''cluster'' OpEqual ''a'' ''G@cluster:a'')) e) demo_peels =
     {''web1''}"
  "matching_peels demo_lib (CompoundMatcher (MatcherNode (GlobMatcher ''web*'' ''web*'')) e) demo_peels = {''web1'', ''web2''}"
  unfolding matching_peels_def Match.simps(5) eval.simps(4) demo_filter
  by (simp_all only: demo_matches if_True if_False Un_empty_right insert_is_Un [symmetric])

theorem basket_scope_enforced_witness:
  "set (makeBasketFunc demo_lib (IndexLister demo_peels) None (Some (\<lambda>k. Some (GStr k))) ''G@cluster:a'' ''web*'' ''ip'') =
     {(''web1'', GStr ''web1.ip'')}"
proof -
  have "set (makeBasketFunc demo_lib (IndexLister demo_peels) None (Some (\<lambda>k. Some (GStr k))) ''G@cluster:a'' ''web*'' ''ip'') =
      {(p, v). p \<in> {''web1'', ''web2''} \<inter> {''web1''} \<and> Some (GStr (p @ ''.'' @ ''ip'')) = Some v}"
    unfolding demo_scoped_peels(1) [of "''G@cluster:a''", symmetric] demo_scoped_peels(2) [of "''web*''", symmetric]
      Int_iff conj_assoc
    by (rule basket_scope_enforced [OF demo_peels_built _ _ demo_exprs]) simp_all
  then show ?thesis unfolding demo_values by simp
qed

theorem basket_scope_escape_witness:
  "set (makeBasketFunc demo_lib (IndexLister demo_peels) None (Some (\<lambda>k. Some (GStr k))) ''G@cluster:a''
       (''web*'' @ '') or ('' @ ''web*'') ''ip'') = {(''web1'', GStr ''web1.ip''), (''web2'', GStr ''web2.ip'')}"
proof -
  have "set (makeBasketFunc demo_lib (IndexLister demo_peels) None (Some (\<lambda>k. Some (GStr k))) ''G@cluster:a''
       (''web*'' @ '') or ('' @ ''web*'') ''ip'') =
      {(p, v). p \<in> {''web1'', ''web2''} \<and> Some (GStr (p @ ''.'' @ ''ip'')) = Some v}"
    unfolding demo_scoped_peels(2) [of "''web*''", symmetric]
    by (rule basket_scope_escape [OF demo_peels_built _ _ demo_exprs]) simp_all
  then show ?thesis unfolding demo_values by simp
qed

theorem detect_prefixed_compound_witness:
  "NewMatcher demo_lib (''G@'' @ ''os'' @ '':'' @ ''ubuntu'' @ '' and '' @ ''web*'')
     (DetectType (''G@'' @ ''os'' @ '':'' @ ''ubuntu'' @ '' and '' @ ''web*'')) =
   Inr (FactMatcher ''os'' OpEqual (''ubuntu'' @ '' and '' @ ''web*'') (''G@'' @ ''os'' @ '':'' @ ''ubuntu'' @ '' and '' @ ''web*''))"
  by (rule detect_prefixed_compound [unfolded Let_def, THEN conjunct2]) (simp_all add: parseCompareOp_def)

end
