(* ===== verification/Actions.thy ===== *)
theory Actions
  imports Prelude
begin

text \<open>
  Programs as sequences of atomic actions on a shared state (one system call, one request, or one section under a
  mutex), so that the same definition can be run to its end, be cut off by a crash after any action, or be
  interleaved with others. The last section is a rely/guarantee rule for any number of programs that start at any time.
\<close>

section \<open>Sequences of atomic actions\<close>

datatype ('s, 'a) prog = Ret 'a | Act "'s \<Rightarrow> ('s, 'a) prog \<times> 's"

primrec and_do :: "('s, 'a) prog \<Rightarrow> ('a \<Rightarrow> ('s, 'b) prog) \<Rightarrow> ('s, 'b) prog" where
  "and_do (Ret a) k = k a"
| "and_do (Act f) k = Act (map_prod (\<lambda>p. and_do p k) id \<circ> f)"

primrec exec :: "('s, 'a) prog \<Rightarrow> 's \<Rightarrow> 'a \<times> 's" where
  "exec (Ret a) = (\<lambda>s. (a, s))"
| "exec (Act f) = (\<lambda>s. case (map_prod exec id \<circ> f) s of (run, s') \<Rightarrow> run s')"

text \<open>The state after the first \<open>n\<close> actions, or at the end if there are fewer.\<close>

fun crash :: "nat \<Rightarrow> ('s, 'a) prog \<Rightarrow> 's \<Rightarrow> 's" where
  "crash 0 p s = s"
| "crash (Suc n) (Ret a) s = s"
| "crash (Suc n) (Act f) s = (case f s of (p, s') \<Rightarrow> crash n p s')"

definition act :: "('s \<Rightarrow> 'a \<times> 's) \<Rightarrow> ('s, 'a) prog" where
  "act f = Act (\<lambda>s. case f s of (a, s') \<Rightarrow> (Ret a, s'))"

abbreviation when_do :: "bool \<Rightarrow> ('s, unit) prog \<Rightarrow> ('s, unit) prog" where
  "when_do b p \<equiv> (if b then p else Ret ())"

text \<open>The next action, if there is one.\<close>

definition step_prog :: "('s, 'a) prog \<Rightarrow> 's \<Rightarrow> ('s, 'a) prog \<times> 's" where
  "step_prog p s = (case p of Ret a \<Rightarrow> (Ret a, s) | Act f \<Rightarrow> f s)"

lemma step_act [simp]:
  "step_prog (act f) s = (Ret (fst (f s)), snd (f s))"
  "step_prog (and_do (act f) k) s = (k (fst (f s)), snd (f s))"
  "step_prog (Ret a) s = (Ret a, s)"
  by (cases "f s"; simp add: step_prog_def act_def)+

lemma exec_act [simp]: "exec (act f) s = f s"
  by (cases "f s") (simp add: act_def)

lemma exec_Act: "exec (Act f) s = (case f s of (p, s') \<Rightarrow> exec p s')"
  by (cases "f s") simp

lemma exec_and_do [simp]: "exec (and_do p k) s = (case exec p s of (a, s') \<Rightarrow> exec (k a) s')"
proof (induction p arbitrary: s)
  case (Act f)
  obtain p' s' where f: "f s = (p', s')" by (cases "f s")
  then have "p' \<in> Basic_BNFs.fsts (f s)" by simp
  then have "exec (and_do p' k) s' = (case exec p' s' of (a, s'') \<Rightarrow> exec (k a) s'')"
    using Act.IH [of "f s" p'] by blast
  then show ?case by (simp add: f)
qed simp

declare exec.simps(2) [simp del]

lemma and_do_assoc: "and_do (and_do p k) l = and_do p (\<lambda>a. and_do (k a) l)"
proof (induction p)
  case (Act f)
  have "and_do (and_do (fst (f s)) k) l = and_do (fst (f s)) (\<lambda>a. and_do (k a) l)" for s
    using Act.IH [OF rangeI, of "fst (f s)" s] by (simp add: fsts.simps)
  then show ?case by (simp add: fun_eq_iff map_prod_def split_beta)
qed simp

lemma crash_Ret [simp]: "crash n (Ret a) s = s"
  by (cases n) simp_all

lemma crash_act: "crash n (act f) s = (if n = 0 then s else snd (f s))"
  by (cases n) (auto simp: act_def split: prod.splits)

text \<open>A sequence crashes in its first part, or in its second one after the first has ended.\<close>

lemma crash_and_do:
  "(\<exists>m. crash n (and_do p k) s = crash m p s) \<or>
   (\<exists>m a s'. exec p s = (a, s') \<and> crash n (and_do p k) s = crash m (k a) s')"
proof (induction p arbitrary: n s)
  case (Act f)
  obtain p' s' where f: "f s = (p', s')" by (cases "f s")
  then have mem: "p' \<in> Basic_BNFs.fsts (f s)" by simp
  show ?case
  proof (cases n)
    case (Suc n')
    from Act.IH [OF rangeI mem, of n' s'] show ?thesis
    proof
      assume "\<exists>m. crash n' (and_do p' k) s' = crash m p' s'"
      then obtain m where "crash n' (and_do p' k) s' = crash m p' s'" ..
      then have "crash n (and_do (Act f) k) s = crash (Suc m) (Act f) s" by (simp add: Suc f)
      then show ?thesis by blast
    next
      assume "\<exists>m a s''. exec p' s' = (a, s'') \<and> crash n' (and_do p' k) s' = crash m (k a) s''"
      then show ?thesis by (simp add: Suc f exec_Act)
    qed
  qed (metis crash.simps(1))
qed auto

definition always :: "('s \<Rightarrow> bool) \<Rightarrow> ('s, 'a) prog \<Rightarrow> 's \<Rightarrow> bool" where
  "always P p s \<longleftrightarrow> (\<forall>n. P (crash n p s))"

lemma always_Ret: "P s \<Longrightarrow> always P (Ret a) s"
  by (simp add: always_def)

lemma always_act: "P s \<Longrightarrow> P (snd (f s)) \<Longrightarrow> always P (act f) s"
  by (simp add: always_def crash_act)

lemma always_and_do:
  assumes "always P p s" "\<And>a s'. exec p s = (a, s') \<Longrightarrow> always P (k a) s'"
  shows "always P (and_do p k) s"
  unfolding always_def
proof
  fix n
  show "P (crash n (and_do p k) s)"
    using crash_and_do [of n p k s] assms by (auto simp: always_def)
qed

lemma crash_end: "\<exists>n. crash n p s = snd (exec p s)"
proof (induction p arbitrary: s)
  case (Ret a)
  show ?case by simp
next
  case (Act f)
  obtain q s' where f: "f s = (q, s')" by (cases "f s")
  then have "q \<in> Basic_BNFs.fsts (f s)" by simp
  then have "\<exists>n. crash n q s' = snd (exec q s')" using Act.IH [of "f s" q] by blast
  then obtain n where "crash n q s' = snd (exec q s')" ..
  then have "crash (Suc n) (Act f) s = snd (exec (Act f) s)" by (simp add: f exec_Act)
  then show ?case ..
qed

lemma always_exec: "always P p s \<Longrightarrow> exec p s = (a, s') \<Longrightarrow> P s'"
  using crash_end [of p s] by (auto simp: always_def)

lemma always_option:
  "(x = None \<Longrightarrow> always P p s) \<Longrightarrow> (\<And>e. x = Some e \<Longrightarrow> always P (q e) s) \<Longrightarrow>
    always P (case x of None \<Rightarrow> p | Some e \<Rightarrow> q e) s"
  by (cases x) simp_all

lemma always_sum:
  "(\<And>e. x = Inl e \<Longrightarrow> always P (p e) s) \<Longrightarrow> (\<And>v. x = Inr v \<Longrightarrow> always P (q v) s) \<Longrightarrow>
    always P (case x of Inl e \<Rightarrow> p e | Inr v \<Rightarrow> q v) s"
  by (cases x) simp_all

lemma always_If:
  "(b \<Longrightarrow> always P p s) \<Longrightarrow> (\<not> b \<Longrightarrow> always P q s) \<Longrightarrow> always P (if b then p else q) s"
  by simp

lemmas always_intros = always_and_do always_If always_option always_sum always_act always_Ret

text \<open>\<open>ensures P p\<close>: every result of \<open>p\<close> satisfies \<open>P\<close>, whatever the state is before each of its actions.\<close>

primrec ensures :: "('a \<Rightarrow> bool) \<Rightarrow> ('s, 'a) prog \<Rightarrow> bool" where
  "ensures P (Ret a) = P a"
| "ensures P (Act f) = (\<forall>s. fst (map_prod (ensures P) id (f s)))"

lemma ensures_act: "(\<And>s. P (fst (f s))) \<Longrightarrow> ensures P (act f)"
  by (simp add: act_def split_beta)

lemma ensures_and_do: "ensures Q p \<Longrightarrow> (\<And>a. Q a \<Longrightarrow> ensures P (k a)) \<Longrightarrow> ensures P (and_do p k)"
proof (induction p)
  case (Act f)
  have "ensures P (and_do (fst (f s)) k)" for s
    using Act.IH [OF rangeI, of "fst (f s)" s] Act.prems by (simp add: fsts.simps)
  then show ?case by simp
qed simp

lemma ensures_True [simp]: "ensures (\<lambda>_. True) p"
proof (induction p)
  case (Act f)
  have "ensures (\<lambda>_. True) (fst (f s))" for s using Act.IH [OF rangeI, of "fst (f s)" s] by (simp add: fsts.simps)
  then show ?case by simp
qed simp

lemma ensures_then: "(\<And>a. ensures P (k a)) \<Longrightarrow> ensures P (and_do p k)"
  by (rule ensures_and_do [OF ensures_True])

lemma ensures_mono: "ensures P p \<Longrightarrow> (\<And>a. P a \<Longrightarrow> Q a) \<Longrightarrow> ensures Q p"
proof (induction p)
  case (Act f)
  have "ensures Q (fst (f s))" for s using Act.IH [OF rangeI, of "fst (f s)" s] Act.prems by (simp add: fsts.simps)
  then show ?case by simp
qed simp

lemma ensures_If: "(b \<Longrightarrow> ensures P p) \<Longrightarrow> (\<not> b \<Longrightarrow> ensures P q) \<Longrightarrow> ensures P (if b then p else q)"
  by simp

lemma ensures_option:
  "(x = None \<Longrightarrow> ensures P p) \<Longrightarrow> (\<And>e. x = Some e \<Longrightarrow> ensures P (q e)) \<Longrightarrow> ensures P (case x of None \<Rightarrow> p | Some e \<Rightarrow> q e)"
  by (cases x) simp_all

lemma ensures_Let: "(\<And>x. x = t \<Longrightarrow> ensures P (p x)) \<Longrightarrow> ensures P (let x = t in p x)"
  by (simp add: Let_def)

lemma ensures_exec: "ensures P p \<Longrightarrow> exec p s = (a, s') \<Longrightarrow> P a"
proof (induction p arbitrary: s)
  case (Act f)
  obtain q s1 where f: "f s = (q, s1)" by fastforce
  then have "ensures P q" using Act.prems(1) by (metis fst_conv fst_map_prod ensures.simps(2))
  then show ?case using Act.IH [OF rangeI, of q s s1] Act.prems(2) f by (simp add: exec_Act fsts.simps)
qed simp

section \<open>Interference\<close>

text \<open>
  \<open>guarded R Q p s\<close>: between the actions of \<open>p\<close>, started in \<open>s\<close>, the state changes as \<open>R\<close> allows;
  then every action of \<open>p\<close> changes it as \<open>R\<close> allows too, and the result satisfies \<open>Q\<close>.
\<close>

primrec guarded :: "('s \<Rightarrow> 's \<Rightarrow> bool) \<Rightarrow> ('a \<Rightarrow> 's \<Rightarrow> bool) \<Rightarrow> ('s, 'a) prog \<Rightarrow> 's \<Rightarrow> bool" where
  "guarded R Q (Ret a) = (\<lambda>s. \<forall>s1. R s s1 \<longrightarrow> Q a s1)"
| "guarded R Q (Act f) = (\<lambda>s. \<forall>s1. R s s1 \<longrightarrow> (case (map_prod (guarded R Q) id \<circ> f) s1 of (g, s2) \<Rightarrow> R s1 s2 \<and> g s2))"

lemma guarded_Act: "guarded R Q (Act f) s \<longleftrightarrow> (\<forall>s1. R s s1 \<longrightarrow> (case f s1 of (p, s2) \<Rightarrow> R s1 s2 \<and> guarded R Q p s2))"
  by (simp add: case_prod_beta)

declare guarded.simps(2) [simp del]

locale interference =
  fixes R :: "'s \<Rightarrow> 's \<Rightarrow> bool"
  assumes R_trans: "R s s1 \<Longrightarrow> R s1 s2 \<Longrightarrow> R s s2"
    and R_refl: "R s s1 \<Longrightarrow> R s s \<and> R s1 s1"
begin

lemma guarded_later: "guarded R Q p s \<Longrightarrow> R s s1 \<Longrightarrow> guarded R Q p s1"
  by (cases p) (auto simp: guarded_Act dest: R_trans)

lemma guarded_Ret: "(\<And>s1. R s s1 \<Longrightarrow> Q a s1) \<Longrightarrow> guarded R Q (Ret a) s"
  by simp

lemma guarded_act:
  assumes "\<And>s1 a s2. R s s1 \<Longrightarrow> f s1 = (a, s2) \<Longrightarrow> R s1 s2 \<and> (\<forall>s3. R s2 s3 \<longrightarrow> Q a s3)"
  shows "guarded R Q (act f) s"
  using assms by (fastforce simp: act_def guarded_Act split: prod.split)

lemma guarded_mono: "guarded R P p s \<Longrightarrow> (\<And>a s1. R s s1 \<Longrightarrow> P a s1 \<Longrightarrow> Q a s1) \<Longrightarrow> guarded R Q p s"
proof (induction p arbitrary: s)
  case (Act f)
  show ?case unfolding guarded_Act
  proof (intro allI impI)
    fix s1 assume s1: "R s s1"
    obtain p' s2 where f: "f s1 = (p', s2)" by (cases "f s1")
    then have mem: "p' \<in> Basic_BNFs.fsts (f s1)" by simp
    have g: "R s1 s2" "guarded R P p' s2" using Act.prems(1) s1 f by (auto simp: guarded_Act)
    have "guarded R Q p' s2" by (rule Act.IH [OF rangeI mem g(2)]) (use Act.prems(2) s1 g(1) R_trans in blast)
    then show "case f s1 of (p, s2) \<Rightarrow> R s1 s2 \<and> guarded R Q p s2" using f g by simp
  qed
qed simp

lemma guarded_and_do:
  assumes "R s s" "guarded R P p s" "\<And>a s1. R s s1 \<Longrightarrow> P a s1 \<Longrightarrow> guarded R Q (k a) s1"
  shows "guarded R Q (and_do p k) s"
  using assms
proof (induction p arbitrary: s)
  case (Act f)
  show ?case unfolding and_do.simps guarded_Act
  proof (intro allI impI)
    fix s1 assume s1: "R s s1"
    obtain p' s2 where f: "f s1 = (p', s2)" by (cases "f s1")
    then have mem: "p' \<in> Basic_BNFs.fsts (f s1)" by simp
    have g: "R s1 s2" "guarded R P p' s2" using Act.prems(2) s1 f by (auto simp: guarded_Act)
    have "guarded R Q (and_do p' k) s2"
      by (rule Act.IH [OF rangeI mem _ g(2)]) (use Act.prems(3) s1 g(1) R_trans R_refl in blast)+
    then show "case (map_prod (\<lambda>p. and_do p k) id \<circ> f) s1 of (p, s2) \<Rightarrow> R s1 s2 \<and> guarded R Q p s2" using f g by simp
  qed
qed simp

end

text \<open>
  Programs of \<open>progs\<close>, a set that may depend on the state, that start at any time, each of which makes its next action at
  any time, or never again.
\<close>

inductive runs :: "('s \<Rightarrow> ('s, unit) prog set) \<Rightarrow> 's \<Rightarrow> ('s, unit) prog list \<Rightarrow> 's \<Rightarrow> bool" for progs s0 where
  runs_start: "runs progs s0 [] s0"
| runs_spawn: "runs progs s0 ps s \<Longrightarrow> p \<in> progs s \<Longrightarrow> runs progs s0 (p # ps) s"
| runs_step: "runs progs s0 ps s \<Longrightarrow> i < length ps \<Longrightarrow> ps ! i = Act f \<Longrightarrow> f s = (p, s') \<Longrightarrow> runs progs s0 (ps[i := p]) s'"

text \<open>A program that runs alone to its end is one of the runs.\<close>

lemma runs_to_end: "runs progs s0 (p # ps) s \<Longrightarrow> \<exists>a. runs progs s0 (Ret a # ps) (snd (exec p s))"
proof (induction p arbitrary: s)
  case (Act f)
  obtain q s1 where f: "f s = (q, s1)" by fastforce
  have "runs progs s0 (q # ps) s1" using runs_step [OF Act.prems, of 0 f q s1] f by simp
  then show ?case using Act.IH [OF rangeI, of q s s1] f by (simp add: exec_Act fsts.simps)
qed auto

lemma runs_exec: "runs progs s0 ps s \<Longrightarrow> p \<in> progs s \<Longrightarrow> \<exists>a. runs progs s0 (Ret a # ps) (snd (exec p s))"
  by (rule runs_to_end) (rule runs_spawn)

context interference
begin

lemma runs_guarded:
  assumes "runs progs s0 ps s" "R s0 s0" "\<And>p s. p \<in> progs s \<Longrightarrow> R s s \<Longrightarrow> guarded R (\<lambda>_ _. True) p s"
  shows "R s0 s \<and> (\<forall>p \<in> set ps. guarded R (\<lambda>_ _. True) p s)"
  using assms(1)
proof (induction rule: runs.induct)
  case (runs_spawn ps s p)
  then show ?case using assms(3) R_refl by auto
next
  case (runs_step ps s i f p s')
  have "guarded R (\<lambda>_ _. True) (Act f) s" using runs_step by (metis nth_mem)
  then have g: "R s s'" "guarded R (\<lambda>_ _. True) p s'"
    using runs_step R_refl unfolding guarded_Act by (metis (no_types, lifting) case_prod_conv)+
  have "guarded R (\<lambda>_ _. True) q s'" if "q \<in> set (ps[i := p])" for q
    using set_update_subset_insert that runs_step g guarded_later by (metis insertE subsetD)
  then show ?case using runs_step g R_trans by blast
qed (use assms(2) in simp)

text \<open>A program is safe from \<open>K\<close> to \<open>Q\<close> if it may run whenever \<open>K\<close> holds, and ends with \<open>Q\<close>.\<close>

definition stable :: "('s \<Rightarrow> bool) \<Rightarrow> bool" where
  "stable K \<longleftrightarrow> (\<forall>s s1. K s \<longrightarrow> R s s1 \<longrightarrow> K s1)"

definition safe :: "('s \<Rightarrow> bool) \<Rightarrow> ('a \<Rightarrow> 's \<Rightarrow> bool) \<Rightarrow> ('s, 'a) prog \<Rightarrow> bool" where
  "safe K Q p \<longleftrightarrow> (\<forall>s. R s s \<longrightarrow> K s \<longrightarrow> guarded R Q p s)"

lemma safe_Ret: "stable K \<Longrightarrow> (\<And>s. R s s \<Longrightarrow> K s \<Longrightarrow> Q a s) \<Longrightarrow> safe K Q (Ret a)"
  using R_refl by (auto simp: safe_def stable_def)

lemma safe_and_do:
  assumes "safe K P p" "\<And>a. safe (P a) Q (k a)" shows "safe K Q (and_do p k)"
  unfolding safe_def
proof (intro allI impI)
  fix s assume s: "R s s" "K s"
  then have "guarded R P p s" using assms(1) by (simp add: safe_def)
  then show "guarded R Q (and_do p k) s"
    by (rule guarded_and_do [OF s(1)]) (use assms(2) R_refl in \<open>auto simp: safe_def\<close>)
qed

lemma safe_act:
  assumes "stable K" "\<And>a. stable (Q a)"
    and "\<And>s a s1. R s s \<Longrightarrow> K s \<Longrightarrow> f s = (a, s1) \<Longrightarrow> R s s1 \<and> Q a s1"
  shows "safe K Q (act f)"
  unfolding safe_def
proof (intro allI impI guarded_act)
  fix s s1 a s2 assume "R s s" "K s" "R s s1" "f s1 = (a, s2)"
  then have "R s1 s1" "K s1" using assms(1) R_refl unfolding stable_def by blast+
  then show "R s1 s2 \<and> (\<forall>s3. R s2 s3 \<longrightarrow> Q a s3)"
    using assms(2,3) \<open>f s1 = (a, s2)\<close> unfolding stable_def by blast
qed

lemma safe_conseq:
  assumes "safe K' P p" "\<And>s. R s s \<Longrightarrow> K s \<Longrightarrow> K' s" "\<And>a s. R s s \<Longrightarrow> P a s \<Longrightarrow> Q a s"
  shows "safe K Q p"
  unfolding safe_def using assms R_refl by (auto simp: safe_def intro: guarded_mono [of P])

lemma safe_pure: "(b \<Longrightarrow> safe K Q p) \<Longrightarrow> safe (\<lambda>s. b \<and> K s) Q p"
  by (auto simp: safe_def)

lemma safe_If: "(b \<Longrightarrow> safe K Q p) \<Longrightarrow> (\<not> b \<Longrightarrow> safe K Q q) \<Longrightarrow> safe K Q (if b then p else q)"
  by simp

lemma safe_option:
  "(x = None \<Longrightarrow> safe K Q p) \<Longrightarrow> (\<And>e. x = Some e \<Longrightarrow> safe K Q (q e)) \<Longrightarrow>
    safe K Q (case x of None \<Rightarrow> p | Some e \<Rightarrow> q e)"
  by (cases x) simp_all

lemma safe_sum:
  "(\<And>e. x = Inl e \<Longrightarrow> safe K Q (p e)) \<Longrightarrow> (\<And>v. x = Inr v \<Longrightarrow> safe K Q (q v)) \<Longrightarrow>
    safe K Q (case x of Inl e \<Rightarrow> p e | Inr v \<Rightarrow> q v)"
  by (cases x) simp_all

lemma safe_Let: "(\<And>x. x = t \<Longrightarrow> safe K Q (p x)) \<Longrightarrow> safe K Q (let x = t in p x)"
  by (simp add: Let_def)

lemma safe_prod: "(\<And>a b. x = (a, b) \<Longrightarrow> safe K Q (p a b)) \<Longrightarrow> safe K Q (case x of (a, b) \<Rightarrow> p a b)"
  by (cases x) simp

end

end
