(* ===== verification/Slots.thy ===== *)
theory Slots
  imports Actions
begin

text \<open>
  The binary slots of a node, \<^verbatim>\<open>src/pkg/update/slots.go\<close>. Operations are sequences of atomic actions
  (\<open>Actions\<close>), one for each system call.
\<close>

section \<open>System calls\<close>

text \<open>
  The three files of a \<^verbatim>\<open>SlotManager\<close>, with their contents. \<open>sl_faults\<close> decides which of the coming
  system calls fail although the files would allow them, with which error, and how many bytes a failing
  write has written; every call takes one entry.
\<close>

datatype slot = Current | Previous | Staging

record slots =
  sl_current :: "string option"
  sl_previous :: "string option"
  sl_staging :: "string option"
  sl_faults :: "(string \<times> nat) option list"

fun content :: "slot \<Rightarrow> 'z slots_scheme \<Rightarrow> string option" where
  "content Current s = sl_current s"
| "content Previous s = sl_previous s"
| "content Staging s = sl_staging s"

fun set_content :: "slot \<Rightarrow> string option \<Rightarrow> 'z slots_scheme \<Rightarrow> 'z slots_scheme" where
  "set_content Current c s = s\<lparr>sl_current := c\<rparr>"
| "set_content Previous c s = s\<lparr>sl_previous := c\<rparr>"
| "set_content Staging c s = s\<lparr>sl_staging := c\<rparr>"

definition no_such_file :: string where
  "no_such_file = ''no such file or directory''"

definition next_fault :: "'z slots_scheme \<Rightarrow> (string \<times> nat) option" where
  "next_fault s = (case sl_faults s of [] \<Rightarrow> None | f # _ \<Rightarrow> f)"

definition tick :: "'z slots_scheme \<Rightarrow> 'z slots_scheme" where
  "tick s = s\<lparr>sl_faults := tl (sl_faults s)\<rparr>"

text \<open>The error of a call on the file \<open>p\<close>, if there is one; the state the call continues in is \<open>tick s\<close>.\<close>

definition call_error :: "slot \<Rightarrow> 'z slots_scheme \<Rightarrow> string option" where
  "call_error p s =
     (case next_fault s of
        Some (e, _) \<Rightarrow> Some e
      | None \<Rightarrow> if content p s = None then Some no_such_file else None)"

text \<open>\<^verbatim>\<open>os.Stat\<close> gives an error for a missing file and may give another one; \<^verbatim>\<open>os.IsNotExist\<close> tells them apart.\<close>

definition os_Stat :: "slot \<Rightarrow> ('z slots_scheme, string option) prog" where
  "os_Stat p = act (\<lambda>s. (call_error p s, tick s))"

definition IsNotExist :: "string option \<Rightarrow> bool" where
  "IsNotExist err \<longleftrightarrow> err = Some no_such_file"

definition os_Remove :: "slot \<Rightarrow> ('z slots_scheme, string option) prog" where
  "os_Remove p = act (\<lambda>s.
     case call_error p s of
       Some e \<Rightarrow> (Some e, tick s)
     | None \<Rightarrow> (None, set_content p None (tick s)))"

definition os_Rename :: "slot \<Rightarrow> slot \<Rightarrow> ('z slots_scheme, string option) prog" where
  "os_Rename p q = act (\<lambda>s.
     case call_error p s of
       Some e \<Rightarrow> (Some e, tick s)
     | None \<Rightarrow> (None, set_content p None (set_content q (content p s) (tick s))))"

text \<open>
  Writing a file opens it first, which creates or truncates it unless it fails; a crash or a full disk then leaves part
  of the data.
\<close>

definition os_WriteFile :: "slot \<Rightarrow> string \<Rightarrow> ('z slots_scheme, string option) prog" where
  "os_WriteFile p data =
     and_do (act (\<lambda>s.
       case next_fault s of
         Some (e, _) \<Rightarrow> (Some e, tick s)
       | None \<Rightarrow> (None, set_content p (Some '''') (tick s)))) (\<lambda>err.
     case err of
       Some e \<Rightarrow> Ret (Some e)
     | None \<Rightarrow> act (\<lambda>s.
         case next_fault s of
           Some (e, k) \<Rightarrow> (Some e, set_content p (Some (take k data)) (tick s))
         | None \<Rightarrow> (None, set_content p (Some data) (tick s))))"

definition hashFile :: "(string \<Rightarrow> string) \<Rightarrow> slot \<Rightarrow> ('z slots_scheme, string result) prog" where
  "hashFile sha256 p = act (\<lambda>s.
     case call_error p s of
       Some e \<Rightarrow> (Inl (''open: '' @ e), tick s)
     | None \<Rightarrow> (Inr (sha256 (the (content p s))), tick s))"

section \<open>SlotManager\<close>

definition Stage :: "(string \<Rightarrow> string) \<Rightarrow> string \<Rightarrow> string \<Rightarrow> ('z slots_scheme, string option) prog" where
  "Stage sha256 data expectedHash =
     and_do (os_WriteFile Staging data) (\<lambda>err.
     case err of
       Some e \<Rightarrow> Ret (Some (''update: stage: write: '' @ e))
     | None \<Rightarrow>
         and_do (hashFile sha256 Staging) (\<lambda>got.
         case got of
           Inl e \<Rightarrow> and_do (os_Remove Staging) (\<lambda>_. Ret (Some (''update: stage: hash: '' @ e)))
         | Inr h \<Rightarrow>
             if h \<noteq> expectedHash
             then and_do (os_Remove Staging) (\<lambda>_.
               Ret (Some (''update: stage: hash mismatch: got '' @ h @ '', want '' @ expectedHash)))
             else Ret None))"

definition Apply_swap :: "('z slots_scheme, string option) prog" where
  "Apply_swap =
     and_do (os_Rename Current Previous) (\<lambda>err.
     case err of
       Some e \<Rightarrow> Ret (Some (''update: apply: current to previous: '' @ e))
     | None \<Rightarrow>
         and_do (os_Rename Staging Current) (\<lambda>err.
         case err of
           Some e \<Rightarrow> and_do (os_Rename Previous Current) (\<lambda>_.
             Ret (Some (''update: apply: staging to current: '' @ e)))
         | None \<Rightarrow> Ret None))"

definition Slots_Apply :: "('z slots_scheme, string option) prog" where
  "Slots_Apply =
     and_do (os_Stat Previous) (\<lambda>err.
     and_do (if err = None then os_Remove Previous else Ret None) (\<lambda>err.
     case err of
       Some e \<Rightarrow> Ret (Some (''update: apply: remove previous: '' @ e))
     | None \<Rightarrow> Apply_swap))"

definition Slots_Rollback :: "('z slots_scheme, string option) prog" where
  "Slots_Rollback =
     and_do (os_Stat Previous) (\<lambda>err.
     if IsNotExist err then Ret (Some ''update: rollback: no previous binary'')
     else
       and_do (os_Stat Current) (\<lambda>err.
       and_do (if err = None then os_Remove Current else Ret None) (\<lambda>err.
       case err of
         Some e \<Rightarrow> Ret (Some (''update: rollback: remove current: '' @ e))
       | None \<Rightarrow>
           and_do (os_Rename Previous Current) (\<lambda>err.
           case err of
             Some e \<Rightarrow> Ret (Some (''update: rollback: previous to current: '' @ e))
           | None \<Rightarrow> and_do (os_Remove Staging) (\<lambda>_. Ret None)))))"

definition Slots_Confirm :: "('z slots_scheme, string option) prog" where
  "Slots_Confirm = and_do (os_Remove Staging) (\<lambda>_. Ret None)"

definition Verify :: "(string \<Rightarrow> string) \<Rightarrow> slot \<Rightarrow> string \<Rightarrow> ('z slots_scheme, string option) prog" where
  "Verify sha256 p expectedHash =
     and_do (hashFile sha256 p) (\<lambda>got.
     case got of
       Inl e \<Rightarrow> Ret (Some (''update: verify: '' @ e))
     | Inr h \<Rightarrow>
         if h \<noteq> expectedHash
         then Ret (Some (''update: verify: hash mismatch: got '' @ h @ '', want '' @ expectedHash))
         else Ret None)"

definition Recover :: "('z slots_scheme, string option) prog" where
  "Recover =
     and_do (os_Stat Staging) (\<lambda>stagingErr.
     and_do (os_Stat Current) (\<lambda>currentErr.
     and_do (os_Stat Previous) (\<lambda>previousErr.
     if stagingErr = None \<and> currentErr \<noteq> None
     then and_do (os_Rename Staging Current) (\<lambda>err.
       Ret (map_option (\<lambda>e. ''update: recover: staging to current: '' @ e) err))
     else if previousErr = None \<and> currentErr \<noteq> None
     then and_do (os_Rename Previous Current) (\<lambda>err.
       Ret (map_option (\<lambda>e. ''update: recover: previous to current: '' @ e) err))
     else Ret None)))"

section \<open>Crash safety\<close>

lemmas os_defs = os_Stat_def IsNotExist_def os_Remove_def os_Rename_def os_WriteFile_def hashFile_def

text \<open>The binary that a restarted watchdog finds after it has recovered.\<close>

definition recovered :: "'z slots_scheme \<Rightarrow> string option" where
  "recovered s = sl_current (snd (exec Recover (s\<lparr>sl_faults := []\<rparr>)))"

lemma tick_simps [simp]:
  "sl_current (tick s) = sl_current s" "sl_previous (tick s) = sl_previous s" "sl_staging (tick s) = sl_staging s"
  by (simp_all add: tick_def)

lemma recovered_eq:
  "recovered s =
     (case sl_current s of Some c \<Rightarrow> Some c | None \<Rightarrow> case sl_staging s of Some b \<Rightarrow> Some b | None \<Rightarrow> sl_previous s)"
  by (simp add: recovered_def Recover_def os_defs call_error_def next_fault_def tick_def split: option.splits)

lemma call_error_None: "call_error p s = None \<longleftrightarrow> next_fault s = None \<and> content p s \<noteq> None"
  by (auto simp: call_error_def split: option.splits if_splits)

lemma Stage_crash:
  assumes "sl_current s = Some c"
  shows "always (\<lambda>s'. sl_current s' = Some c \<and> sl_previous s' = sl_previous s) (Stage sha256 data h) s"
  unfolding Stage_def os_defs
  by (intro always_intros) (use assms in \<open>auto split: option.splits prod.splits\<close>)

lemma Apply_crash:
  assumes "sl_current s = Some c"
  shows "always (\<lambda>s'. recovered s' = Some c \<or> (sl_staging s \<noteq> None \<and> recovered s' = sl_staging s)) Slots_Apply s"
  unfolding Slots_Apply_def Apply_swap_def os_defs recovered_eq
  by (intro always_intros) (use assms in \<open>auto simp: call_error_None split: option.splits if_splits\<close>)

text \<open>
  A rollback is safe if there is a previous binary, or the first call can tell that there is none.
\<close>

lemma Rollback_crash:
  assumes "sl_current s = Some c" "sl_previous s \<noteq> None \<or> next_fault s = None"
  shows "always (\<lambda>s'. \<exists>b. recovered s' = Some b \<and> (b = c \<or> sl_previous s = Some b \<or> sl_staging s = Some b))
    Slots_Rollback s"
proof -
  have "sl_previous s \<noteq> None" if "call_error Previous s \<noteq> Some no_such_file"
    using that assms(2) by (auto simp: call_error_def split: option.splits if_splits)
  then show ?thesis unfolding Slots_Rollback_def os_defs recovered_eq
    by (intro always_intros) (use assms(1) in \<open>auto simp: call_error_None split: option.splits if_splits\<close>)
qed

lemma Confirm_crash:
  assumes "sl_current s = Some c"
  shows "always (\<lambda>s'. sl_current s' = Some c) Slots_Confirm s"
  unfolding Slots_Confirm_def os_defs
  by (intro always_intros) (use assms in \<open>auto split: option.splits\<close>)

text \<open>
  The same for a set \<open>G\<close> of complete binaries: the recovery at the next start finds one of them, and the previous slot
  holds none but them.
\<close>

definition restorable :: "string set \<Rightarrow> 'z slots_scheme \<Rightarrow> bool" where
  "restorable G s \<longleftrightarrow> (\<exists>b \<in> G. recovered s = Some b) \<and> (\<forall>p. sl_previous s = Some p \<longrightarrow> p \<in> G)"

lemma restorable_eq:
  "restorable G s \<longleftrightarrow> set_option (sl_previous s) \<subseteq> G \<and>
     (case sl_current s of
        Some c \<Rightarrow> c \<in> G
      | None \<Rightarrow> (case sl_staging s of Some b \<Rightarrow> b \<in> G | None \<Rightarrow> sl_previous s \<noteq> None))"
  by (auto simp: restorable_def recovered_eq split: option.splits)

definition good_slots :: "string set \<Rightarrow> 'z slots_scheme \<Rightarrow> bool" where
  "good_slots G s \<longleftrightarrow> set_option (sl_current s) \<union> set_option (sl_previous s) \<union> set_option (sl_staging s) \<subseteq> G \<and> sl_current s \<noteq> None"

lemma Stage_restorable:
  assumes "restorable G s" "sl_current s \<noteq> None"
  shows "always (restorable G) (Stage sha256 data h) s"
  unfolding Stage_def os_defs restorable_eq
  by (intro always_intros) (use assms in \<open>auto simp: restorable_eq split: option.splits prod.splits\<close>)

lemma Apply_restorable:
  assumes "good_slots G s"
  shows "always (restorable G) Slots_Apply s"
  unfolding Slots_Apply_def Apply_swap_def os_defs restorable_eq
  by (intro always_intros) (use assms in \<open>auto simp: good_slots_def call_error_None split: option.splits if_splits\<close>)

lemma Rollback_restorable:
  assumes "good_slots G s" "sl_previous s \<noteq> None \<or> next_fault s = None"
  shows "always (restorable G) Slots_Rollback s"
proof -
  have "sl_previous s \<noteq> None" if "call_error Previous s \<noteq> Some no_such_file"
    using that assms(2) by (auto simp: call_error_def split: option.splits if_splits)
  then show ?thesis unfolding Slots_Rollback_def os_defs restorable_eq
    by (intro always_intros)
      (use assms(1) in \<open>auto simp: good_slots_def call_error_None split: option.splits if_splits\<close>)
qed

lemma Confirm_restorable:
  assumes "restorable G s" "sl_current s \<noteq> None"
  shows "always (restorable G) Slots_Confirm s"
  unfolding Slots_Confirm_def os_defs restorable_eq
  by (intro always_intros) (use assms in \<open>auto simp: restorable_eq split: option.splits\<close>)

end
