(* ===== verification/UpdateHandler.thy ===== *)
theory UpdateHandler
  imports Slots
begin

text \<open>
  The watchdog of a node: the supervisor of the child process (\<^verbatim>\<open>src/pkg/update/supervisor.go\<close>) and the
  handler of update commands (\<^verbatim>\<open>src/pkg/update/handler.go\<close>), with the background goroutine that watches a
  new binary during its soak period. Every section under a mutex is one atomic action.
\<close>

section \<open>Supervisor\<close>

text \<open>\<open>sv_bin\<close> is the binary of the child that was started last.\<close>

record supervised = slots +
  sv_running :: bool
  sv_generation :: nat
  sv_bin :: string
  sv_pauseCount :: int
  sv_consecutiveFails :: int
  sv_degraded :: bool

definition startLocked :: "'z supervised_scheme \<Rightarrow> string option \<times> 'z supervised_scheme" where
  "startLocked s =
     (if sv_running s then (None, s)
      else case call_error Current s of
        Some e \<Rightarrow> (Some (''update: start child process: '' @ e), tick s)
      | None \<Rightarrow>
          (None, (tick s)\<lparr>sv_generation := sv_generation s + 1, sv_running := True, sv_bin := the (sl_current s)\<rparr>))"

definition Start :: "('z supervised_scheme, string option) prog" where
  "Start = act startLocked"

definition childExited :: "nat \<Rightarrow> ('z supervised_scheme, unit) prog" where
  "childExited gen = act (\<lambda>s. ((), if sv_generation s = gen then s\<lparr>sv_running := False\<rparr> else s))"

text \<open>
  Stopping the child takes several polls; the model has its result. A fault is a child that cannot be
  signalled or does not exit: it keeps running.
\<close>

definition Stop :: "('z supervised_scheme, string option) prog" where
  "Stop = act (\<lambda>s.
     if \<not> sv_running s then (None, s)
     else case next_fault s of
       Some (e, _) \<Rightarrow> (Some (''update: send SIGTERM: '' @ e), tick s)
     | None \<Rightarrow> (None, (tick s)\<lparr>sv_running := False\<rparr>))"

definition Pause :: "('z supervised_scheme, unit) prog" where
  "Pause = act (\<lambda>s. ((), s\<lparr>sv_pauseCount := sv_pauseCount s + 1\<rparr>))"

definition Resume :: "('z supervised_scheme, unit) prog" where
  "Resume = act (\<lambda>s. ((), if sv_pauseCount s > 0 then s\<lparr>sv_pauseCount := sv_pauseCount s - 1\<rparr> else s))"

definition maxConsecutiveFails :: int where
  "maxConsecutiveFails = 10"

text \<open>The waiting time before a restart, in seconds.\<close>

definition backoff :: "int \<Rightarrow> int \<Rightarrow> int" where
  "backoff degradedRetryInterval fails =
     (if fails \<ge> maxConsecutiveFails then degradedRetryInterval else min 60 (2 ^ nat fails))"

text \<open>One round of the \<^verbatim>\<open>AutoRestart\<close> loop; the last action looks at the child after the stability window.\<close>

definition auto_restart_round :: "('z supervised_scheme, unit) prog" where
  "auto_restart_round =
     and_do (act (\<lambda>s. (sv_running s, s))) (\<lambda>running.
     and_do (act (\<lambda>s. (sv_pauseCount s > 0, s))) (\<lambda>paused.
     if running \<or> paused then Ret ()
     else
       and_do (act (\<lambda>s. (sv_consecutiveFails s + 1, s\<lparr>sv_consecutiveFails := sv_consecutiveFails s + 1\<rparr>))) (\<lambda>fails.
       and_do (when_do (fails \<ge> maxConsecutiveFails) (act (\<lambda>s. ((), s\<lparr>sv_degraded := True\<rparr>)))) (\<lambda>_.
       and_do (act (\<lambda>s. if sv_pauseCount s > 0 then (False, s)
                        else case startLocked s of (err, s') \<Rightarrow> (err = None, s'))) (\<lambda>started.
       when_do started
         (act (\<lambda>s. ((), if sv_running s then s\<lparr>sv_consecutiveFails := 0, sv_degraded := False\<rparr> else s))))))))"

section \<open>Commands\<close>

definition StateIdle :: string where "StateIdle = ''idle''"
definition StatePreparing :: string where "StatePreparing = ''preparing''"
definition StateStaged :: string where "StateStaged = ''staged''"
definition StateApplying :: string where "StateApplying = ''applying''"
definition StateSoaking :: string where "StateSoaking = ''soaking''"
definition StateConfirmed :: string where "StateConfirmed = ''confirmed''"
definition StateRollingBack :: string where "StateRollingBack = ''rolling_back''"

definition CmdPrepare :: string where "CmdPrepare = ''prepare''"
definition CmdApply :: string where "CmdApply = ''apply''"
definition CmdConfirm :: string where "CmdConfirm = ''confirm''"
definition CmdRollback :: string where "CmdRollback = ''rollback''"
definition CmdStatus :: string where "CmdStatus = ''status''"

lemma states_distinct:
  "distinct [StateIdle, StatePreparing, StateStaged, StateApplying, StateSoaking, StateConfirmed, StateRollingBack, '''']"
  "distinct ['''', StateRollingBack, StateConfirmed, StateSoaking, StateApplying, StateStaged, StatePreparing, StateIdle]"
  by code_simp+

lemma cmds_distinct:
  "distinct [CmdPrepare, CmdApply, CmdConfirm, CmdRollback, CmdStatus]"
  "distinct [CmdStatus, CmdRollback, CmdConfirm, CmdApply, CmdPrepare]"
  by code_simp+

lemmas states_neq [simp] = states_distinct [simplified distinct.simps list.set insert_iff empty_iff simp_thms de_Morgan_disj]
lemmas cmds_neq [simp] = cmds_distinct [simplified distinct.simps list.set insert_iff empty_iff simp_thms de_Morgan_disj]

record UpdateCommand =
  uc_Command :: string
  uc_Version :: string
  uc_Component :: string
  uc_SHA256 :: string
  uc_ObjectKey :: string

record UpdateResponse =
  ur_Status :: string
  ur_Version :: string
  ur_Hash :: string
  ur_Error :: string
  ur_State :: string
  ur_SoakPassed :: bool
  ur_RunningVersion :: string

definition response :: "string \<Rightarrow> UpdateResponse" where
  "response status =
     \<lparr>ur_Status = status, ur_Version = '''', ur_Hash = '''', ur_Error = '''', ur_State = '''', ur_SoakPassed = False,
      ur_RunningVersion = ''''\<rparr>"

definition error_response :: "string \<Rightarrow> UpdateResponse" where
  "error_response e = (response ''error'')\<lparr>ur_Error := e\<rparr>"

definition refuse :: "string \<Rightarrow> string \<Rightarrow> UpdateResponse" where
  "refuse what state = (error_response (''cannot '' @ what @ '' in state '' @ state))\<lparr>ur_State := state\<rparr>"

text \<open>
  The configuration of a handler. \<open>hc_objects\<close> is the object store with the binaries, \<open>hc_version\<close> the
  version that a running binary reports on its health endpoint.
\<close>

record HandlerConfig =
  hc_Component :: string
  hc_SoakTime :: int
  hc_ConfirmDeadline :: int
  hc_HealthRetries :: int
  hc_sha256 :: "string \<Rightarrow> string"
  hc_objects :: "string \<Rightarrow> string result"
  hc_version :: "string \<Rightarrow> string"

text \<open>
  The handler. A soak goroutine is known by the number of its context; \<open>h_soakCancel\<close> is the context that the
  handler can still cancel, \<open>h_cancelled\<close> are the cancelled ones, \<open>h_soaks\<close> counts the goroutines
  started.
\<close>

record node = supervised +
  h_state :: string
  h_pendingVersion :: string
  h_pendingHash :: string
  h_soakPassed :: bool
  h_soakCancel :: "nat option"
  h_cancelled :: "nat list"
  h_soaks :: nat

definition Download :: "HandlerConfig \<Rightarrow> string \<Rightarrow> string \<Rightarrow> string result" where
  "Download cfg key expectedHash =
     (case hc_objects cfg key of
        Inl e \<Rightarrow> Inl (''update: download binary '' @ quote_q key @ '': '' @ e)
      | Inr data \<Rightarrow>
          let digest = hc_sha256 cfg data in
          if digest \<noteq> expectedHash
          then Inl (''update: binary '' @ quote_q key @ '' hash mismatch: got '' @ digest @ '', want '' @ expectedHash)
          else Inr data)"

text \<open>Enter \<open>new\<close> if the current state allows it, otherwise give the state that forbids it.\<close>

definition enter :: "(string \<Rightarrow> bool) \<Rightarrow> string \<Rightarrow> (node, string option) prog" where
  "enter ok new = act (\<lambda>s. if ok (h_state s) then (None, s\<lparr>h_state := new\<rparr>) else (Some (h_state s), s))"

definition set_state :: "string \<Rightarrow> (node, unit) prog" where
  "set_state new = act (\<lambda>s. ((), s\<lparr>h_state := new\<rparr>))"

definition cancel_soak :: "node \<Rightarrow> node" where
  "cancel_soak s =
     (case h_soakCancel s of
        None \<Rightarrow> s
      | Some k \<Rightarrow> s\<lparr>h_cancelled := k # h_cancelled s, h_soakCancel := None\<rparr>)"

definition handlePrepare :: "HandlerConfig \<Rightarrow> UpdateCommand \<Rightarrow> (node, UpdateResponse) prog" where
  "handlePrepare cfg cmd =
     and_do (enter (\<lambda>st. st = StateIdle \<or> st = StateConfirmed) StatePreparing) (\<lambda>refused.
     case refused of
       Some st \<Rightarrow> Ret (refuse ''prepare'' st)
     | None \<Rightarrow>
         (case Download cfg (uc_ObjectKey cmd) (uc_SHA256 cmd) of
            Inl e \<Rightarrow> and_do (set_state StateIdle) (\<lambda>_. Ret (error_response (''download: '' @ e)))
          | Inr data \<Rightarrow>
              and_do (Stage (hc_sha256 cfg) data (uc_SHA256 cmd)) (\<lambda>err.
              case err of
                Some e \<Rightarrow> and_do (set_state StateIdle) (\<lambda>_. Ret (error_response (''stage: '' @ e)))
              | None \<Rightarrow>
                  and_do (act (\<lambda>s. ((), s\<lparr>h_state := StateStaged, h_pendingVersion := uc_Version cmd,
                    h_pendingHash := uc_SHA256 cmd, h_soakPassed := False\<rparr>))) (\<lambda>_.
                  Ret ((response ''staged'')\<lparr>ur_Hash := uc_SHA256 cmd, ur_Version := uc_Version cmd\<rparr>)))))"

text \<open>\<^verbatim>\<open>defer Resume()\<close>\<close>

definition finally_resume :: "('z supervised_scheme, 'a) prog \<Rightarrow> ('z supervised_scheme, 'a) prog" where
  "finally_resume p = and_do p (\<lambda>a. and_do Resume (\<lambda>_. Ret a))"

definition handleApply :: "UpdateCommand \<Rightarrow> (node, UpdateResponse) prog" where
  "handleApply cmd =
     and_do (enter (\<lambda>st. st = StateStaged) StateApplying) (\<lambda>refused.
     case refused of
       Some st \<Rightarrow> Ret (refuse ''apply'' st)
     | None \<Rightarrow>
         and_do Pause (\<lambda>_.
         finally_resume (
           and_do Stop (\<lambda>_.
           and_do Slots_Apply (\<lambda>err.
           case err of
             Some e \<Rightarrow>
               and_do (set_state StateStaged) (\<lambda>_.
               and_do Start (\<lambda>_.
               Ret (error_response (''apply: '' @ e))))
           | None \<Rightarrow>
               and_do Start (\<lambda>err.
               case err of
                 Some e \<Rightarrow>
                   and_do Slots_Rollback (\<lambda>_.
                   and_do Start (\<lambda>_.
                   and_do (set_state StateIdle) (\<lambda>_.
                   Ret (error_response (''start after apply: '' @ e)))))
               | None \<Rightarrow>
                   act (\<lambda>s. ((response ''applying'')\<lparr>ur_Version := h_pendingVersion s\<rparr>,
                     s\<lparr>h_state := StateSoaking, h_soakCancel := Some (h_soaks s), h_soaks := h_soaks s + 1,
                       h_soakPassed := False\<rparr>))))))))"

definition MinConfirmDeadline :: int where
  "MinConfirmDeadline = 300"

definition confirmDeadline :: "HandlerConfig \<Rightarrow> int" where
  "confirmDeadline cfg =
     (if hc_ConfirmDeadline cfg > 0 then hc_ConfirmDeadline cfg
      else max (3 * hc_SoakTime cfg) MinConfirmDeadline)"

definition handleConfirm :: "(node, UpdateResponse) prog" where
  "handleConfirm =
     and_do (act (\<lambda>s.
       if h_state s \<noteq> StateSoaking then (Inl (h_state s), s)
       else (Inr (h_pendingVersion s), cancel_soak (s\<lparr>h_state := StateConfirmed, h_soakPassed := False\<rparr>)))) (\<lambda>r.
     case r of
       Inl st \<Rightarrow> Ret (refuse ''confirm'' st)
     | Inr version \<Rightarrow>
         and_do Slots_Confirm (\<lambda>_. Ret ((response ''confirmed'')\<lparr>ur_Version := version\<rparr>)))"

definition rollback :: "(node, unit) prog" where
  "rollback =
     and_do (act (\<lambda>s.
       if h_state s = StateConfirmed \<or> h_state s = StateIdle then (False, s)
       else (True, s\<lparr>h_state := StateRollingBack\<rparr>))) (\<lambda>go.
     when_do go (
       and_do Pause (\<lambda>_.
       finally_resume (
         and_do Stop (\<lambda>_.
         and_do Slots_Rollback (\<lambda>_.
         and_do Start (\<lambda>_.
         act (\<lambda>s. ((), s\<lparr>h_state := StateIdle, h_pendingVersion := '''', h_pendingHash := '''',
           h_soakPassed := False\<rparr>)))))))))"

definition handleRollback :: "(node, UpdateResponse) prog" where
  "handleRollback =
     and_do (act (\<lambda>s.
       if h_state s \<noteq> StateSoaking \<and> h_state s \<noteq> StateStaged \<and> h_state s \<noteq> StateApplying
       then (Some (h_state s), s)
       else (None, cancel_soak (s\<lparr>h_state := StateRollingBack\<rparr>)))) (\<lambda>refused.
     case refused of
       Some st \<Rightarrow> Ret (refuse ''rollback'' st)
     | None \<Rightarrow> and_do rollback (\<lambda>_. Ret (response ''rolled_back'')))"

definition HealthVersion :: "HandlerConfig \<Rightarrow> 'z supervised_scheme \<Rightarrow> string" where
  "HealthVersion cfg s =
     (if sv_running s \<and> hc_version cfg (sv_bin s) \<noteq> '''' then hc_version cfg (sv_bin s) else ''unknown'')"

definition handleStatus :: "HandlerConfig \<Rightarrow> (node, UpdateResponse) prog" where
  "handleStatus cfg =
     and_do (act (\<lambda>s. ((response ''ok'')\<lparr>ur_State := h_state s, ur_Version := h_pendingVersion s,
       ur_SoakPassed := h_soakPassed s\<rparr>, s))) (\<lambda>resp.
     act (\<lambda>s. (resp\<lparr>ur_RunningVersion := HealthVersion cfg s\<rparr>, s)))"

text \<open>
  The reply to a command, or none if the command is for another component. The command is what decoding
  the message gave.
\<close>

definition handleMessage :: "HandlerConfig \<Rightarrow> UpdateCommand result \<Rightarrow> (node, UpdateResponse option) prog" where
  "handleMessage cfg msg =
     (case msg of
        Inl _ \<Rightarrow> Ret (Some (error_response ''decode failed''))
      | Inr cmd \<Rightarrow>
          if uc_Component cmd \<noteq> '''' \<and> hc_Component cfg \<noteq> '''' \<and> uc_Component cmd \<noteq> hc_Component cfg
          then Ret None
          else
            and_do
              (if uc_Command cmd = CmdPrepare then handlePrepare cfg cmd
               else if uc_Command cmd = CmdApply then handleApply cmd
               else if uc_Command cmd = CmdConfirm then handleConfirm
               else if uc_Command cmd = CmdRollback then handleRollback
               else if uc_Command cmd = CmdStatus then handleStatus cfg
               else Ret (error_response (''unknown command: '' @ uc_Command cmd)))
              (\<lambda>resp. Ret (Some resp)))"

section \<open>The soak goroutine\<close>

text \<open>
  Where the goroutine is: waiting for the first healthy probe (with the failures so far), in the soak
  loop (with the failures in a row, and whether the soak time is over), rolling back, or finished.
\<close>

datatype soak_phase = WaitHealthy int | SoakLoop int bool | SoakRollback "(node, unit) prog" | SoakDone

text \<open>What wakes it up: the result of a probe, the end of the soak time, the deadline, its cancelled context.\<close>

datatype soak_event = Probe bool | SoakElapsed | DeadlineFired | ContextDone

fun soak_step :: "HandlerConfig \<Rightarrow> nat \<Rightarrow> soak_event \<Rightarrow> soak_phase \<Rightarrow> node \<Rightarrow> soak_phase \<times> node" where
  "soak_step cfg k ev (WaitHealthy failures) s =
     (case ev of
        Probe True \<Rightarrow> (SoakLoop 0 False, s)
      | Probe False \<Rightarrow>
          if failures + 1 \<ge> hc_HealthRetries cfg
          then (if k \<in> set (h_cancelled s) then SoakDone else SoakRollback rollback, s)
          else (WaitHealthy (failures + 1), s)
      | ContextDone \<Rightarrow> (if k \<in> set (h_cancelled s) then SoakDone else WaitHealthy failures, s)
      | _ \<Rightarrow> (WaitHealthy failures, s))"
| "soak_step cfg k ev (SoakLoop soakFails soakPassed) s =
     (case ev of
        ContextDone \<Rightarrow> (if k \<in> set (h_cancelled s) then SoakDone else SoakLoop soakFails soakPassed, s)
      | DeadlineFired \<Rightarrow> (SoakRollback rollback, s)
      | SoakElapsed \<Rightarrow>
          (SoakLoop soakFails True, if h_state s = StateSoaking then s\<lparr>h_soakPassed := True\<rparr> else s)
      | Probe ready \<Rightarrow>
          if soakPassed then (SoakLoop soakFails soakPassed, s)
          else if ready then (SoakLoop 0 soakPassed, s)
          else if k \<in> set (h_cancelled s) then (SoakDone, s)
          else if soakFails + 1 \<ge> hc_HealthRetries cfg then (SoakRollback rollback, s)
          else (SoakLoop (soakFails + 1) soakPassed, s))"
| "soak_step cfg k ev (SoakRollback p) s =
     (case p of Ret _ \<Rightarrow> (SoakDone, s) | Act f \<Rightarrow> (case f s of (p', s') \<Rightarrow> (SoakRollback p', s')))"
| "soak_step cfg k ev SoakDone s = (SoakDone, s)"

end
