(* ===== verification/Rollout.thy ===== *)
theory Rollout
  imports UpdateHandler
begin

text \<open>
  The controller of fleet updates, \<^verbatim>\<open>src/pkg/update/rollout.go\<close>: batches, the persisted state with its
  compare-and-swap, reconciliation, commands to the nodes of a batch, aborts and adoption.

  What the controller talks to is an argument, the record \<open>renv\<close> of functions on a world \<open>'w\<close>: requests to nodes, the
  bucket with the rollouts, the clock, the abort channel, the end of its context, and the order in which the goroutines of a
  batch finish. Every call may change the world, so other masters and the nodes themselves are part of it. The
  requests that were sent are recorded in \<open>dv_sent\<close>. The times a rollout started, finished and last
  updated a node are left out, as is the manifest cache of a batch, because manifests do not change
  during a rollout.
\<close>

section \<open>Data\<close>

definition RolloutCreated :: string where "RolloutCreated = ''created''"
definition RolloutRolling :: string where "RolloutRolling = ''rolling''"
definition RolloutCompleted :: string where "RolloutCompleted = ''completed''"
definition RolloutAborting :: string where "RolloutAborting = ''aborting''"
definition RolloutAborted :: string where "RolloutAborted = ''aborted''"

lemma rollout_states_distinct:
  "distinct [RolloutCreated, RolloutRolling, RolloutCompleted, RolloutAborting, RolloutAborted]"
  "distinct [RolloutAborted, RolloutAborting, RolloutCompleted, RolloutRolling, RolloutCreated]"
  by code_simp+

lemmas rollout_states_neq [simp] =
  rollout_states_distinct [simplified distinct.simps list.set insert_iff empty_iff simp_thms de_Morgan_disj]

definition RolloutTerminal :: "string \<Rightarrow> bool" where
  "RolloutTerminal st \<longleftrightarrow> st = RolloutCompleted \<or> st = RolloutAborted"

record RolloutConfig =
  rc_Version :: string
  rc_Component :: string
  rc_Target :: string
  rc_BatchSize :: int
  rc_BatchPercent :: int
  rc_SoakTime :: int
  rc_BatchPause :: int
  rc_MaxFailed :: int
  rc_DryRun :: bool
  rc_RolloutID :: string

record NodeResult =
  nr_ID :: string
  nr_Status :: string
  nr_Error :: string
  nr_Note :: string

record RolloutState =
  ro_ID :: string
  ro_Config :: RolloutConfig
  ro_State :: string
  ro_Batches :: "string list list"
  ro_NodeResults :: "(string, NodeResult) gomap"
  ro_CurrentBatch :: nat
  ro_FailedCount :: int
  ro_Error :: string
  ro_DriverID :: string
  ro_DriverHeartbeat :: int
  ro_Revision :: nat

record NodeStatus =
  ns_ID :: string
  ns_Version :: string
  ns_GOOS :: string
  ns_GOARCH :: string
  ns_Degraded :: bool
  ns_Protocol :: int

record Manifest =
  mf_Version :: string
  mf_Component :: string
  mf_GOOS :: string
  mf_GOARCH :: string
  mf_SHA256 :: string
  mf_ObjectKey :: string
  mf_Published :: int
  mf_MinProtocol :: int
  mf_Promoted :: bool
  mf_ExpiresAtUnix :: int

record 'w renv =
  re_driver :: string
  re_request :: "string \<Rightarrow> UpdateCommand \<Rightarrow> 'w \<Rightarrow> UpdateResponse result \<times> 'w"
  re_create :: "string \<Rightarrow> RolloutState \<Rightarrow> 'w \<Rightarrow> nat result \<times> 'w"
  re_update :: "string \<Rightarrow> RolloutState \<Rightarrow> nat \<Rightarrow> 'w \<Rightarrow> nat result \<times> 'w"
  re_get :: "string \<Rightarrow> 'w \<Rightarrow> (RolloutState \<times> nat) result \<times> 'w"
  re_now :: "'w \<Rightarrow> int \<times> 'w"
  re_aborted :: "string \<Rightarrow> 'w \<Rightarrow> bool \<times> 'w"
  re_done :: "'w \<Rightarrow> bool \<times> 'w"
  re_order :: "string list \<Rightarrow> 'w \<Rightarrow> string list \<times> 'w"
  re_statusKV :: "(string \<Rightarrow> string \<Rightarrow> NodeStatus option) option"
  re_manifest :: "string \<Rightarrow> string \<Rightarrow> string \<Rightarrow> string \<Rightarrow> Manifest result"

record 'w drv =
  dv_state :: RolloutState
  dv_world :: 'w
  dv_sent :: "(string \<times> string) list"

section \<open>The store\<close>

definition Save :: "'w renv \<Rightarrow> RolloutState \<Rightarrow> 'w \<Rightarrow> RolloutState result \<times> 'w" where
  "Save env r w =
     (case (if ro_Revision r = 0 then re_create env (ro_ID r) r w
            else re_update env (ro_ID r) r (ro_Revision r) w) of
        (Inl e, w') \<Rightarrow> (Inl (''update: rollout save '' @ ro_ID r @ '': '' @ e), w')
      | (Inr rv, w') \<Rightarrow> (Inr (r\<lparr>ro_Revision := rv\<rparr>), w'))"

definition Rollout_Get :: "'w renv \<Rightarrow> string \<Rightarrow> 'w \<Rightarrow> RolloutState result \<times> 'w" where
  "Rollout_Get env ident w =
     (case re_get env ident w of
        (Inl e, w') \<Rightarrow> (Inl (''update: rollout get '' @ ident @ '': '' @ e), w')
      | (Inr (r, rv), w') \<Rightarrow> (Inr (r\<lparr>ro_Revision := rv\<rparr>), w'))"

datatype save_error = AbortedExternally | Superseded | SaveFailed string

definition rolloutSaveRetries :: nat where
  "rolloutSaveRetries = 3"

fun save_attempts :: "'w renv \<Rightarrow> nat \<Rightarrow> bool \<Rightarrow> string \<Rightarrow> RolloutState \<Rightarrow> 'w \<Rightarrow> save_error option \<times> RolloutState \<times> 'w" where
  "save_attempts env 0 first lastErr st w = (Some (SaveFailed lastErr), st, w)"
| "save_attempts env (Suc n) first lastErr st w =
     (case (if first then (False, w) else re_done env w) of
        (True, w1) \<Rightarrow> (Some (SaveFailed (''update: rollout save '' @ ro_ID st @ '': context canceled'')), st, w1)
      | (False, w1) \<Rightarrow>
          (case re_now env w1 of
             (now, w2) \<Rightarrow>
               (let st1 = st\<lparr>ro_DriverHeartbeat := now\<rparr> in
                case Save env st1 w2 of
                  (Inr st2, w3) \<Rightarrow> (None, st2, w3)
                | (Inl e, w3) \<Rightarrow>
                    (case Rollout_Get env (ro_ID st1) w3 of
                       (Inl _, w4) \<Rightarrow> save_attempts env n False e st1 w4
                     | (Inr persisted, w4) \<Rightarrow>
                         if ro_State persisted = RolloutAborted then (Some AbortedExternally, st1, w4)
                         else if ro_DriverID persisted \<noteq> '''' \<and> ro_DriverID persisted \<noteq> re_driver env
                         then (Some Superseded, st1, w4)
                         else save_attempts env n False e (st1\<lparr>ro_Revision := ro_Revision persisted\<rparr>) w4))))"

definition saveStateLocked :: "'w renv \<Rightarrow> RolloutState \<Rightarrow> 'w \<Rightarrow> save_error option \<times> RolloutState \<times> 'w" where
  "saveStateLocked env st w =
     save_attempts env rolloutSaveRetries True '''' (st\<lparr>ro_DriverID := re_driver env\<rparr>) w"

definition save_drv :: "'w renv \<Rightarrow> 'w drv \<Rightarrow> save_error option \<times> 'w drv" where
  "save_drv env d =
     (case saveStateLocked env (dv_state d) (dv_world d) of
        (err, st, w) \<Rightarrow> (err, d\<lparr>dv_state := st, dv_world := w\<rparr>))"

definition isAbortedInKV :: "'w renv \<Rightarrow> string \<Rightarrow> 'w \<Rightarrow> bool \<times> 'w" where
  "isAbortedInKV env ident w =
     (case Rollout_Get env ident w of
        (Inl _, w') \<Rightarrow> (False, w')
      | (Inr persisted, w') \<Rightarrow> (ro_State persisted = RolloutAborted, w'))"

section \<open>Batches\<close>

text \<open>Slices of \<open>n\<close> nodes (\<open>n > 0\<close>).\<close>

fun chunks :: "nat \<Rightarrow> string list \<Rightarrow> string list list" where
  "chunks n xs = (if xs = [] \<or> n = 0 then [] else take n xs # chunks n (drop n xs))"

declare chunks.simps [simp del]

definition batch_size :: "nat \<Rightarrow> int \<Rightarrow> int \<Rightarrow> int" where
  "batch_size n batchSize batchPercent =
     (let size = (if batchPercent > 0 then max 1 (int n * batchPercent div 100) else batchSize)
      in if size \<le> 0 then 1 else size)"

definition computeBatches :: "string list \<Rightarrow> int \<Rightarrow> int \<Rightarrow> string list list" where
  "computeBatches nodeIDs batchSize batchPercent =
     (if nodeIDs = [] then [] else chunks (nat (batch_size (length nodeIDs) batchSize batchPercent)) nodeIDs)"

definition sameVersion :: "string \<Rightarrow> string \<Rightarrow> bool" where
  "sameVersion a b \<longleftrightarrow>
     (let na = trim_prefix (trim_space a) ''v''; nb = trim_prefix (trim_space b) ''v''
      in na \<noteq> '''' \<and> na = nb)"

definition labelOr :: "string \<Rightarrow> string \<Rightarrow> string" where
  "labelOr s fallback = (if s = '''' then fallback else s)"

section \<open>Requests\<close>

definition send :: "'w renv \<Rightarrow> string \<Rightarrow> UpdateCommand \<Rightarrow> 'w drv \<Rightarrow> UpdateResponse result \<times> 'w drv" where
  "send env nodeID cmd d =
     (case re_request env nodeID cmd (dv_world d) of
        (resp, w) \<Rightarrow> (resp, d\<lparr>dv_world := w, dv_sent := dv_sent d @ [(nodeID, uc_Command cmd)]\<rparr>))"

definition plain_command :: "'w drv \<Rightarrow> string \<Rightarrow> UpdateCommand" where
  "plain_command d cmd =
     \<lparr>uc_Command = cmd, uc_Version = '''', uc_Component = rc_Component (ro_Config (dv_state d)), uc_SHA256 = '''',
      uc_ObjectKey = ''''\<rparr>"

text \<open>\<open>check\<close> asks the world a question.\<close>

definition check :: "('w \<Rightarrow> 'a \<times> 'w) \<Rightarrow> 'w drv \<Rightarrow> 'a \<times> 'w drv" where
  "check f d = (case f (dv_world d) of (a, w) \<Rightarrow> (a, d\<lparr>dv_world := w\<rparr>))"

text \<open>An error of the request or of the node, as one message.\<close>

definition reply_error :: "UpdateResponse result \<Rightarrow> string option" where
  "reply_error r =
     (case r of Inl e \<Rightarrow> Some e | Inr resp \<Rightarrow> if ur_Status resp = ''error'' then Some (ur_Error resp) else None)"

definition fresh_result :: "string \<Rightarrow> NodeResult" where
  "fresh_result nodeID = \<lparr>nr_ID = nodeID, nr_Status = '''', nr_Error = '''', nr_Note = ''''\<rparr>"

definition set_result :: "string \<Rightarrow> (NodeResult \<Rightarrow> NodeResult) \<Rightarrow> RolloutState \<Rightarrow> RolloutState" where
  "set_result nodeID f st =
     st\<lparr>ro_NodeResults :=
       m_set nodeID (f (case map_of (ro_NodeResults st) nodeID of None \<Rightarrow> fresh_result nodeID | Some nr \<Rightarrow> nr))
         (ro_NodeResults st)\<rparr>"

section \<open>Reconciliation\<close>

datatype nodeAction = ActionSkip | ActionPrepare | ActionApply | ActionConfirm

record probeResult =
  pb_nodeID :: string
  pb_action :: nodeAction
  pb_note :: string
  pb_soakDone :: bool
  pb_err :: "string option"

definition probe_action :: "string \<Rightarrow> nodeAction \<Rightarrow> string \<Rightarrow> probeResult" where
  "probe_action nodeID action note =
     \<lparr>pb_nodeID = nodeID, pb_action = action, pb_note = note, pb_soakDone = False, pb_err = None\<rparr>"

definition probe_error :: "string \<Rightarrow> string \<Rightarrow> probeResult" where
  "probe_error nodeID e =
     \<lparr>pb_nodeID = nodeID, pb_action = ActionSkip, pb_note = '''', pb_soakDone = False, pb_err = Some e\<rparr>"

definition resetNode :: "'w renv \<Rightarrow> string \<Rightarrow> UpdateResponse \<Rightarrow> 'w drv \<Rightarrow> string option \<times> 'w drv" where
  "resetNode env nodeID probe d =
     (case send env nodeID (plain_command d CmdRollback) d of
        (resp, d') \<Rightarrow>
          (let what = ''reset '' @ ur_State probe @ '' '' @ labelOr (ur_Version probe) ''binary'' @ '': '' in
           case resp of
             Inl e \<Rightarrow> (Some (what @ e), d')
           | Inr r \<Rightarrow> if ur_Status r = ''error'' then (Some (what @ ''node error: '' @ ur_Error r), d') else (None, d')))"

text \<open>A node with a pending version: resume it if it is the target, otherwise roll it back first.\<close>

definition resume_or_reset ::
  "'w renv \<Rightarrow> string \<Rightarrow> UpdateResponse \<Rightarrow> probeResult \<Rightarrow> string \<Rightarrow> 'w drv \<Rightarrow> probeResult \<times> 'w drv" where
  "resume_or_reset env nodeID resp resumed what d =
     (if sameVersion (ur_Version resp) (rc_Version (ro_Config (dv_state d))) then (resumed, d)
      else case resetNode env nodeID resp d of
        (Some e, d') \<Rightarrow> (probe_error nodeID e, d')
      | (None, d') \<Rightarrow>
          (probe_action nodeID ActionPrepare (what @ '' '' @ labelOr (ur_Version resp) ''binary''), d'))"

fun probe_loop :: "'w renv \<Rightarrow> string \<Rightarrow> nat \<Rightarrow> 'w drv \<Rightarrow> probeResult \<times> 'w drv" where
  "probe_loop env nodeID 0 d = (probe_error nodeID ''node still busy after 1m0s'', d)"
| "probe_loop env nodeID (Suc n) d =
     (case check (re_aborted env (ro_ID (dv_state d))) d of
        (True, d1) \<Rightarrow> (probe_error nodeID ''aborted'', d1)
      | (False, d1) \<Rightarrow>
          (case send env nodeID (plain_command d1 CmdStatus) d1 of
             (Inl e, d2) \<Rightarrow> (probe_error nodeID (''status probe: '' @ e), d2)
           | (Inr resp, d2) \<Rightarrow>
               if ur_Status resp = ''error''
               then (probe_error nodeID (''status probe: node error: '' @ ur_Error resp), d2)
               else if ur_State resp = StateIdle \<or> ur_State resp = StateConfirmed
               then (if sameVersion (ur_RunningVersion resp) (rc_Version (ro_Config (dv_state d2)))
                     then (probe_action nodeID ActionSkip (''already running '' @ ur_RunningVersion resp), d2)
                     else (probe_action nodeID ActionPrepare '''', d2))
               else if ur_State resp = StateStaged
               then resume_or_reset env nodeID resp (probe_action nodeID ActionApply ''resumed from staged'')
                      ''discarded staged'' d2
               else if ur_State resp = StateSoaking
               then resume_or_reset env nodeID resp
                      ((probe_action nodeID ActionConfirm
                         (if ur_SoakPassed resp then ''resumed from soaking (soak already passed)''
                          else ''resumed from soaking''))\<lparr>pb_soakDone := ur_SoakPassed resp\<rparr>)
                      ''rolled back soaking'' d2
               else if ur_State resp \<in> {StatePreparing, StateApplying, StateRollingBack}
               then (case check (re_aborted env (ro_ID (dv_state d2))) d2 of
                       (True, d3) \<Rightarrow> (probe_error nodeID ''aborted'', d3)
                     | (False, d3) \<Rightarrow>
                         (case check (re_done env) d3 of
                            (True, d4) \<Rightarrow> (probe_error nodeID ''context canceled'', d4)
                          | (False, d4) \<Rightarrow> probe_loop env nodeID n d4))
               else (probe_error nodeID (''status probe: unknown node state '' @ quote_q (ur_State resp)), d2)))"

definition probeBusyRetries :: nat where
  "probeBusyRetries = 12"

definition probeNode :: "'w renv \<Rightarrow> string \<Rightarrow> 'w drv \<Rightarrow> probeResult \<times> 'w drv" where
  "probeNode env nodeID d = probe_loop env nodeID probeBusyRetries d"

text \<open>The goroutines of a batch, in the order in which they finish.\<close>

fun each :: "('a \<Rightarrow> 'w drv \<Rightarrow> 'b \<times> 'w drv) \<Rightarrow> 'a list \<Rightarrow> 'w drv \<Rightarrow> 'b list \<times> 'w drv" where
  "each f [] d = ([], d)"
| "each f (x # xs) d = (case f x d of (y, d1) \<Rightarrow> case each f xs d1 of (ys, d2) \<Rightarrow> (y # ys, d2))"

section \<open>Aborting\<close>

definition firstErr :: "UpdateResponse result \<Rightarrow> string" where
  "firstErr r = (case r of Inl e \<Rightarrow> e | Inr resp \<Rightarrow> ur_Error resp)"

text \<open>The status and the note to record for a node of an aborted batch; both empty if it is left alone.\<close>

definition revert_node :: "'w renv \<Rightarrow> string \<Rightarrow> 'w drv \<Rightarrow> (string \<times> string \<times> string) \<times> 'w drv" where
  "revert_node env nodeID d =
     (case send env nodeID (plain_command d CmdStatus) d of
        (probe, d1) \<Rightarrow>
          if reply_error probe \<noteq> None
          then ((nodeID, '''', ''abort: status probe failed: '' @ firstErr probe), d1)
          else
            (let resp = projr probe in
             if ur_State resp \<notin> {StatePreparing, StateStaged, StateApplying, StateSoaking}
             then ((nodeID, '''', ''''), d1)
             else if ur_Version resp \<noteq> '''' \<and> \<not> sameVersion (ur_Version resp) (rc_Version (ro_Config (dv_state d)))
             then ((nodeID, '''', ''abort: left '' @ ur_State resp @ '' '' @ ur_Version resp @
                     '' alone (not this rollout'' @ [CHR 0x27] @ ''s version)''), d1)
             else
               (case send env nodeID (plain_command d1 CmdRollback) d1 of
                  (r, d2) \<Rightarrow>
                    if reply_error r \<noteq> None
                    then ((nodeID, '''', ''abort: rollback from '' @ ur_State resp @ '' failed: '' @ firstErr r), d2)
                    else ((nodeID, ''rolled_back'', ''rolled back on abort from '' @ ur_State resp), d2))))"

definition record_revert :: "string \<times> string \<times> string \<Rightarrow> RolloutState \<Rightarrow> RolloutState" where
  "record_revert o' st =
     (case o' of (nodeID, status, note) \<Rightarrow>
        if status = '''' \<and> note = '''' then st
        else set_result nodeID
          (\<lambda>nr. (if status \<noteq> '''' then nr\<lparr>nr_Status := status, nr_Error := ''''\<rparr> else nr)\<lparr>nr_Note := note\<rparr>) st)"

definition current_batch :: "RolloutState \<Rightarrow> string list" where
  "current_batch st = (if ro_CurrentBatch st < length (ro_Batches st) then ro_Batches st ! ro_CurrentBatch st else [])"

definition revertBatch :: "'w renv \<Rightarrow> 'w drv \<Rightarrow> 'w drv" where
  "revertBatch env d =
     (if current_batch (dv_state d) = [] then d
      else case check (re_order env (current_batch (dv_state d))) d of
        (nodes, d1) \<Rightarrow>
          (case each (revert_node env) nodes d1 of
             (outcomes, d2) \<Rightarrow> d2\<lparr>dv_state := fold record_revert outcomes (dv_state d2)\<rparr>))"

definition set_rollout :: "string \<Rightarrow> 'w drv \<Rightarrow> 'w drv" where
  "set_rollout s d = d\<lparr>dv_state := (dv_state d)\<lparr>ro_State := s\<rparr>\<rparr>"

definition finishAborted :: "'w renv \<Rightarrow> 'w drv \<Rightarrow> 'w drv" where
  "finishAborted env d =
     (let d1 = set_rollout RolloutAborting (revertBatch env d);
          d2 = snd (save_drv env d1)
      in snd (save_drv env (set_rollout RolloutAborted d2)))"

definition abortForPersistFailure :: "'w renv \<Rightarrow> string \<Rightarrow> 'w drv \<Rightarrow> 'w drv" where
  "abortForPersistFailure env cause d =
     snd (save_drv env (d\<lparr>dv_state := (dv_state d)\<lparr>ro_State := RolloutAborted,
       ro_Error := ''aborted: rollout state persistence failed: '' @ cause\<rparr>\<rparr>))"

definition handlePersistError :: "'w renv \<Rightarrow> save_error \<Rightarrow> 'w drv \<Rightarrow> 'w drv" where
  "handlePersistError env err d =
     (case err of
        AbortedExternally \<Rightarrow> revertBatch env d
      | Superseded \<Rightarrow> d
      | SaveFailed e \<Rightarrow>
          (case check (re_done env) d of
             (True, d1) \<Rightarrow> d1
           | (False, d1) \<Rightarrow> abortForPersistFailure env e d1))"

definition persistProgress :: "'w renv \<Rightarrow> 'w drv \<Rightarrow> bool \<times> 'w drv" where
  "persistProgress env d =
     (case save_drv env d of
        (None, d1) \<Rightarrow> (True, d1)
      | (Some err, d1) \<Rightarrow> (False, handlePersistError env err d1))"

text \<open>One beat of \<^verbatim>\<open>heartbeatLoop\<close>, which runs beside the driver.\<close>

definition heartbeat :: "'w renv \<Rightarrow> 'w drv \<Rightarrow> 'w drv" where
  "heartbeat env d = snd (save_drv env d)"

section \<open>Driving a batch\<close>

datatype batchOutcome = BatchOK | BatchAbort | BatchStop

record batchPlan =
  pl_prepare :: "string list"
  pl_apply :: "string list"
  pl_confirm :: "string list"
  pl_needSoak :: bool

definition record_probe :: "probeResult \<Rightarrow> RolloutState \<Rightarrow> RolloutState" where
  "record_probe res st =
     (case pb_err res of
        Some e \<Rightarrow>
          (set_result (pb_nodeID res) (\<lambda>nr. nr\<lparr>nr_Status := ''failed'', nr_Error := e, nr_Note := ''''\<rparr>) st)
            \<lparr>ro_FailedCount := ro_FailedCount st + 1\<rparr>
      | None \<Rightarrow>
          if pb_action res = ActionSkip
          then set_result (pb_nodeID res) (\<lambda>nr. nr\<lparr>nr_Status := ''skipped'', nr_Error := '''', nr_Note := pb_note res\<rparr>) st
          else set_result (pb_nodeID res) (\<lambda>nr. nr\<lparr>nr_Note := pb_note res, nr_Error := ''''\<rparr>) st)"

definition extend_plan :: "probeResult \<Rightarrow> batchPlan \<Rightarrow> batchPlan" where
  "extend_plan res plan =
     (if pb_err res \<noteq> None then plan
      else case pb_action res of
        ActionSkip \<Rightarrow> plan
      | ActionPrepare \<Rightarrow> plan\<lparr>pl_prepare := pl_prepare plan @ [pb_nodeID res], pl_needSoak := True\<rparr>
      | ActionApply \<Rightarrow> plan\<lparr>pl_apply := pl_apply plan @ [pb_nodeID res], pl_needSoak := True\<rparr>
      | ActionConfirm \<Rightarrow>
          plan\<lparr>pl_confirm := pl_confirm plan @ [pb_nodeID res], pl_needSoak := pl_needSoak plan \<or> \<not> pb_soakDone res\<rparr>)"

definition max_failed :: "'w drv \<Rightarrow> bool" where
  "max_failed d \<longleftrightarrow> ro_FailedCount (dv_state d) \<ge> rc_MaxFailed (ro_Config (dv_state d))"

fun plan_results :: "'w renv \<Rightarrow> probeResult list \<Rightarrow> batchPlan \<Rightarrow> 'w drv \<Rightarrow> batchPlan \<times> batchOutcome \<times> 'w drv" where
  "plan_results env [] plan d = (plan, BatchOK, d)"
| "plan_results env (res # rest) plan d =
     (case save_drv env (d\<lparr>dv_state := record_probe res (dv_state d)\<rparr>) of
        (Some err, d1) \<Rightarrow> (plan, BatchStop, handlePersistError env err d1)
      | (None, d1) \<Rightarrow>
          (let plan' = extend_plan res plan in
           if max_failed d1 then (plan', BatchAbort, d1) else plan_results env rest plan' d1))"

definition planBatch :: "'w renv \<Rightarrow> string list \<Rightarrow> 'w drv \<Rightarrow> batchPlan \<times> batchOutcome \<times> 'w drv" where
  "planBatch env batch d =
     (case check (re_order env batch) d of
        (nodes, d1) \<Rightarrow>
          (case each (probeNode env) nodes d1 of
             (collected, d2) \<Rightarrow>
               plan_results env (sort_key pb_nodeID collected)
                 \<lparr>pl_prepare = [], pl_apply = [], pl_confirm = [], pl_needSoak = False\<rparr> d2))"

definition node_status :: "'w renv \<Rightarrow> string \<Rightarrow> string \<Rightarrow> NodeStatus option" where
  "node_status env component nodeID = Option.bind (re_statusKV env) (\<lambda>kv. kv component nodeID)"

definition platform :: "'w renv \<Rightarrow> string \<Rightarrow> string \<Rightarrow> string \<times> string" where
  "platform env component nodeID =
     (case node_status env component nodeID of
        None \<Rightarrow> (''linux'', ''amd64'')
      | Some ns \<Rightarrow> (ns_GOOS ns, ns_GOARCH ns))"

text \<open>One goroutine of \<^verbatim>\<open>runBatchCommand\<close>: the node and the error, if there is one.\<close>

definition node_command :: "'w renv \<Rightarrow> string \<Rightarrow> string \<Rightarrow> 'w drv \<Rightarrow> (string \<times> string option) \<times> 'w drv" where
  "node_command env cmd nodeID d =
     (case check (re_aborted env (ro_ID (dv_state d))) d of
        (True, d1) \<Rightarrow> ((nodeID, Some ''aborted''), d1)
      | (False, d1) \<Rightarrow>
          (let config = ro_Config (dv_state d1); (goos, goarch) = platform env (rc_Component config) nodeID in
           case re_manifest env (rc_Component config) goos goarch (rc_Version config) of
             Inl e \<Rightarrow> ((nodeID, Some (''manifest: '' @ e)), d1)
           | Inr m \<Rightarrow>
               (case send env nodeID
                       \<lparr>uc_Command = cmd, uc_Version = rc_Version config, uc_Component = rc_Component config,
                        uc_SHA256 = mf_SHA256 m, uc_ObjectKey = mf_ObjectKey m\<rparr> d1 of
                  (Inl e, d2) \<Rightarrow> ((nodeID, Some (''request: '' @ e)), d2)
                | (Inr resp, d2) \<Rightarrow>
                    if ur_Status resp = ''error'' then ((nodeID, Some (''node error: '' @ ur_Error resp)), d2)
                    else ((nodeID, None), d2))))"

definition record_command :: "string \<Rightarrow> string \<times> string option \<Rightarrow> RolloutState \<Rightarrow> RolloutState" where
  "record_command successStatus res st =
     (case res of
        (nodeID, Some e) \<Rightarrow>
          (set_result nodeID (\<lambda>nr. nr\<lparr>nr_Status := ''failed'', nr_Error := e\<rparr>) st)\<lparr>ro_FailedCount := ro_FailedCount st + 1\<rparr>
      | (nodeID, None) \<Rightarrow> set_result nodeID (\<lambda>nr. nr\<lparr>nr_Status := successStatus, nr_Error := ''''\<rparr>) st)"

fun collect_results :: "'w renv \<Rightarrow> string \<Rightarrow> (string \<times> string option) list \<Rightarrow> 'w drv \<Rightarrow> batchOutcome \<times> 'w drv" where
  "collect_results env successStatus [] d = (BatchOK, d)"
| "collect_results env successStatus (res # rest) d =
     (case save_drv env (d\<lparr>dv_state := record_command successStatus res (dv_state d)\<rparr>) of
        (Some err, d1) \<Rightarrow> (BatchStop, handlePersistError env err d1)
      | (None, d1) \<Rightarrow> if max_failed d1 then (BatchAbort, d1) else collect_results env successStatus rest d1)"

definition runBatchCommand :: "'w renv \<Rightarrow> string list \<Rightarrow> string \<Rightarrow> string \<Rightarrow> 'w drv \<Rightarrow> batchOutcome \<times> 'w drv" where
  "runBatchCommand env batch cmd successStatus d =
     (case check (re_order env batch) d of
        (nodes, d1) \<Rightarrow>
          (case each (node_command env cmd) nodes d1 of
             (results, d2) \<Rightarrow> collect_results env successStatus results d2))"

text \<open>Waiting, with a look at the store after each of the \<open>n\<close> polls (every five seconds) before the deadline.\<close>

fun wait_polls :: "'w renv \<Rightarrow> nat \<Rightarrow> 'w drv \<Rightarrow> bool \<times> 'w drv" where
  "wait_polls env n d =
     (case check (re_aborted env (ro_ID (dv_state d))) d of
        (True, d1) \<Rightarrow> (True, finishAborted env d1)
      | (False, d1) \<Rightarrow>
          (case n of
             0 \<Rightarrow> (False, d1)
           | Suc m \<Rightarrow>
               (case check (isAbortedInKV env (ro_ID (dv_state d1))) d1 of
                  (True, d2) \<Rightarrow> (True, revertBatch env d2)
                | (False, d2) \<Rightarrow> wait_polls env m d2)))"

declare wait_polls.simps [simp del]

definition waitOrAbort :: "'w renv \<Rightarrow> int \<Rightarrow> 'w drv \<Rightarrow> bool \<times> 'w drv" where
  "waitOrAbort env seconds d = wait_polls env (nat (seconds div 5)) d"

text \<open>Continue with \<open>k\<close>, or end the rollout.\<close>

definition on_ok :: "'w renv \<Rightarrow> batchOutcome \<times> 'w drv \<Rightarrow> ('w drv \<Rightarrow> bool \<times> 'w drv) \<Rightarrow> bool \<times> 'w drv" where
  "on_ok env r k =
     (case r of
        (BatchOK, d) \<Rightarrow> k d
      | (BatchAbort, d) \<Rightarrow> (False, finishAborted env d)
      | (BatchStop, d) \<Rightarrow> (False, d))"

definition run_command :: "'w renv \<Rightarrow> string list \<Rightarrow> string \<Rightarrow> string \<Rightarrow> 'w drv \<Rightarrow> batchOutcome \<times> 'w drv" where
  "run_command env nodes cmd successStatus d =
     (if nodes = [] then (BatchOK, d) else runBatchCommand env nodes cmd successStatus d)"

definition wait_unless :: "'w renv \<Rightarrow> bool \<Rightarrow> int \<Rightarrow> 'w drv \<Rightarrow> ('w drv \<Rightarrow> bool \<times> 'w drv) \<Rightarrow> bool \<times> 'w drv" where
  "wait_unless env skip seconds d k =
     (if skip then k d
      else case waitOrAbort env seconds d of (True, d1) \<Rightarrow> (False, d1) | (False, d1) \<Rightarrow> k d1)"

text \<open>The body of the loop over the batches; \<open>True\<close> to go on with the next one.\<close>

definition drive_plan :: "'w renv \<Rightarrow> batchPlan \<Rightarrow> bool \<Rightarrow> 'w drv \<Rightarrow> bool \<times> 'w drv" where
  "drive_plan env plan last_one d =
     on_ok env (run_command env (pl_prepare plan) CmdPrepare ''prepared'' d) (\<lambda>d1.
     let applyNodes = pl_prepare plan @ pl_apply plan in
     on_ok env (run_command env applyNodes CmdApply ''applied'' d1) (\<lambda>d2.
     wait_unless env (\<not> pl_needSoak plan) (rc_SoakTime (ro_Config (dv_state d2))) d2 (\<lambda>d3.
     on_ok env (run_command env (applyNodes @ pl_confirm plan) CmdConfirm ''confirmed'' d3) (\<lambda>d4.
     wait_unless env last_one (rc_BatchPause (ro_Config (dv_state d4))) d4 (\<lambda>d5. (True, d5))))))"

definition run_batch :: "'w renv \<Rightarrow> nat \<Rightarrow> string list \<Rightarrow> 'w drv \<Rightarrow> bool \<times> 'w drv" where
  "run_batch env batchIdx batch d =
     (case check (re_aborted env (ro_ID (dv_state d))) d of
        (True, d1) \<Rightarrow> (False, finishAborted env d1)
      | (False, d1) \<Rightarrow>
          (case check (isAbortedInKV env (ro_ID (dv_state d1))) d1 of
             (True, d2) \<Rightarrow> (False, revertBatch env d2)
           | (False, d2) \<Rightarrow>
               (case persistProgress env
                       (d2\<lparr>dv_state := (dv_state d2)\<lparr>ro_State := RolloutRolling, ro_CurrentBatch := batchIdx\<rparr>\<rparr>) of
                  (False, d3) \<Rightarrow> (False, d3)
                | (True, d3) \<Rightarrow>
                    (case planBatch env batch d3 of
                       (plan, outcome, d4) \<Rightarrow>
                         on_ok env (outcome, d4)
                           (drive_plan env plan (batchIdx + 1 = length (ro_Batches (dv_state d4))))))))"

fun run_batches :: "'w renv \<Rightarrow> nat \<Rightarrow> string list list \<Rightarrow> 'w drv \<Rightarrow> bool \<times> 'w drv" where
  "run_batches env batchIdx [] d = (True, d)"
| "run_batches env batchIdx (batch # batches) d =
     (case run_batch env batchIdx batch d of
        (False, d1) \<Rightarrow> (False, d1)
      | (True, d1) \<Rightarrow> run_batches env (batchIdx + 1) batches d1)"

definition executeRollout :: "'w renv \<Rightarrow> 'w drv \<Rightarrow> 'w drv" where
  "executeRollout env d =
     (if ro_State (dv_state d) = RolloutAborting then finishAborted env d
      else case run_batches env (ro_CurrentBatch (dv_state d))
                  (drop (ro_CurrentBatch (dv_state d)) (ro_Batches (dv_state d))) d of
        (False, d1) \<Rightarrow> d1
      | (True, d1) \<Rightarrow> snd (save_drv env (set_rollout RolloutCompleted d1)))"

section \<open>Starting, aborting and adopting\<close>

definition with_defaults :: "RolloutConfig \<Rightarrow> RolloutConfig" where
  "with_defaults c =
     c\<lparr>rc_Target := (if rc_Target c = '''' then ''*'' else rc_Target c),
       rc_BatchSize := (if rc_BatchSize c = 0 \<and> rc_BatchPercent c = 0 then 1 else rc_BatchSize c),
       rc_SoakTime := (if rc_SoakTime c = 0 then 60 else rc_SoakTime c),
       rc_BatchPause := (if rc_BatchPause c = 0 then 30 else rc_BatchPause c),
       rc_MaxFailed := (if rc_MaxFailed c = 0 then 1 else rc_MaxFailed c)\<rparr>"

definition degraded_node :: "'w renv \<Rightarrow> RolloutConfig \<Rightarrow> string \<Rightarrow> bool" where
  "degraded_node env config nodeID \<longleftrightarrow>
     (case node_status env (rc_Component config) nodeID of None \<Rightarrow> False | Some ns \<Rightarrow> ns_Degraded ns)"

definition protocol_of :: "'w renv \<Rightarrow> RolloutConfig \<Rightarrow> string \<Rightarrow> int" where
  "protocol_of env config nodeID =
     (case node_status env (rc_Component config) nodeID of None \<Rightarrow> 0 | Some ns \<Rightarrow> ns_Protocol ns)"

definition min_protocol :: "'w renv \<Rightarrow> RolloutConfig \<Rightarrow> string \<Rightarrow> int" where
  "min_protocol env config nodeID =
     (let (goos, goarch) = platform env (rc_Component config) nodeID in
      case re_manifest env (rc_Component config) goos goarch (rc_Version config) of
        Inl _ \<Rightarrow> 0
      | Inr m \<Rightarrow> mf_MinProtocol m)"

definition too_old :: "'w renv \<Rightarrow> RolloutConfig \<Rightarrow> string \<Rightarrow> bool" where
  "too_old env config nodeID \<longleftrightarrow>
     min_protocol env config nodeID > 0 \<and> protocol_of env config nodeID < min_protocol env config nodeID"

definition filterTargets :: "'w renv \<Rightarrow> RolloutConfig \<Rightarrow> string list \<Rightarrow> string list result" where
  "filterTargets env config nodeIDs =
     (if re_statusKV env = None \<or> nodeIDs = [] then Inr nodeIDs
      else
        let degraded = filter (degraded_node env config) nodeIDs;
            rest = filter (\<lambda>n. \<not> degraded_node env config n) nodeIDs;
            incompatible = filter (too_old env config) rest;
            eligible = filter (\<lambda>n. \<not> too_old env config n) rest
        in if incompatible \<noteq> []
           then Inl (''update: start rollout: manifest '' @ rc_Component config @ ''/'' @ rc_Version config @
                     '' requires a newer node protocol; incompatible nodes: '' @
                     join_with '', '' (map (\<lambda>n. n @ '' (protocol '' @ int_dec (protocol_of env config n) @ '' < '' @
                       int_dec (min_protocol env config n) @ '')'') incompatible))
           else if eligible = []
           then Inl (''update: start rollout: no eligible nodes ('' @ nat_dec (length degraded) @ '' degraded excluded)'')
           else Inr eligible)"

definition save_message :: "save_error \<Rightarrow> string" where
  "save_message err =
     (case err of
        AbortedExternally \<Rightarrow> ''update: rollout aborted externally''
      | Superseded \<Rightarrow> ''update: rollout adopted by another driver''
      | SaveFailed e \<Rightarrow> e)"

text \<open>
  The new state, saved; unless the rollout is a dry run, a driver then runs \<open>executeRollout\<close> on it. \<open>ksuid\<close> is
  the generated identifier.
\<close>

definition new_rollout :: "string \<Rightarrow> RolloutConfig \<Rightarrow> string list \<Rightarrow> RolloutState" where
  "new_rollout ksuid config eligible =
     \<lparr>ro_ID = (if rc_RolloutID config = '''' then ''rol-'' @ ksuid else rc_RolloutID config),
      ro_Config = config, ro_State = RolloutCreated,
      ro_Batches = computeBatches (sort eligible) (rc_BatchSize config) (rc_BatchPercent config),
      ro_NodeResults = [], ro_CurrentBatch = 0, ro_FailedCount = 0, ro_Error = '''', ro_DriverID = '''',
      ro_DriverHeartbeat = 0, ro_Revision = 0\<rparr>"

definition StartRollout :: "'w renv \<Rightarrow> string \<Rightarrow> RolloutConfig \<Rightarrow> string list \<Rightarrow> 'w \<Rightarrow> RolloutState result \<times> 'w" where
  "StartRollout env ksuid config0 nodeIDs w =
     (let config = with_defaults config0 in
      case filterTargets env config nodeIDs of
        Inl e \<Rightarrow> (Inl e, w)
      | Inr eligible \<Rightarrow>
          (case saveStateLocked env (new_rollout ksuid config eligible) w of
             (Some err, st, w') \<Rightarrow> (Inl (''update: start rollout: '' @ save_message err), w')
           | (None, st, w') \<Rightarrow> (Inr st, w')))"

definition drive :: "'w renv \<Rightarrow> RolloutState \<Rightarrow> 'w \<Rightarrow> 'w drv" where
  "drive env st w = executeRollout env \<lparr>dv_state = st, dv_world = w, dv_sent = []\<rparr>"

text \<open>An abort on a master that does not drive the rollout itself.\<close>

fun abort_attempts :: "'w renv \<Rightarrow> nat \<Rightarrow> string \<Rightarrow> 'w \<Rightarrow> string option \<times> 'w" where
  "abort_attempts env 0 ident w =
     (Some (''update: abort rollout '' @ ident @ '': could not write abort after '' @ nat_dec rolloutSaveRetries @
            '' attempts''), w)"
| "abort_attempts env (Suc n) ident w =
     (case Rollout_Get env ident w of
        (Inl e, w1) \<Rightarrow> (Some (''update: abort rollout '' @ ident @ '': '' @ e), w1)
      | (Inr persisted, w1) \<Rightarrow>
          if ro_State persisted = RolloutAborted then (None, w1)
          else if ro_State persisted = RolloutCompleted
          then (Some (''update: abort rollout '' @ ident @ '': already completed''), w1)
          else
            (let p = persisted\<lparr>ro_State := RolloutAborted,
                       ro_Error := (if ro_Error persisted = '''' then ''aborted by operator'' else ro_Error persisted)\<rparr> in
             case Save env p w1 of
               (Inl _, w2) \<Rightarrow> abort_attempts env n ident w2
             | (Inr p', w2) \<Rightarrow>
                 (let d = revertBatch env \<lparr>dv_state = p', dv_world = w2, dv_sent = []\<rparr> in
                  case Save env (dv_state d) (dv_world d) of (_, w3) \<Rightarrow> (None, w3))))"

record controller =
  ct_active :: "string list"
  ct_abortCh :: "string list"

text \<open>The controller afterwards; closing the channel is what \<open>re_aborted\<close> sees in the driver.\<close>

definition AbortRollout :: "'w renv \<Rightarrow> string \<Rightarrow> controller \<Rightarrow> 'w \<Rightarrow> string option \<times> controller \<times> 'w" where
  "AbortRollout env ident c w =
     (if ident \<in> set (ct_active c)
      then (None, c\<lparr>ct_abortCh := removeAll ident (ct_abortCh c)\<rparr>, w)
      else case abort_attempts env rolloutSaveRetries ident w of (e, w') \<Rightarrow> (e, c, w'))"

definition rolloutHeartbeatInterval :: int where
  "rolloutHeartbeatInterval = 10"

definition DefaultRolloutStaleAfter :: int where
  "DefaultRolloutStaleAfter = 60"

definition staleAfter :: "int \<Rightarrow> int" where
  "staleAfter configured =
     (if configured > 0 then max configured (2 * rolloutHeartbeatInterval) else DefaultRolloutStaleAfter)"

text \<open>Adopt one of the listed rollouts: \<open>Some\<close> is the adopted state, which this controller then drives.\<close>

definition adopt :: "'w renv \<Rightarrow> int \<Rightarrow> controller \<Rightarrow> RolloutState \<Rightarrow> 'w \<Rightarrow> RolloutState option \<times> 'w" where
  "adopt env configured c st w =
     (if RolloutTerminal (ro_State st) \<or> rc_DryRun (ro_Config st) \<or> ro_ID st \<in> set (ct_active c) then (None, w)
      else case re_now env w of
        (now, w1) \<Rightarrow>
          if now - ro_DriverHeartbeat st < staleAfter configured then (None, w1)
          else
            (case re_now env w1 of
               (now', w2) \<Rightarrow>
                 (case Save env (st\<lparr>ro_DriverID := re_driver env, ro_DriverHeartbeat := now'\<rparr>) w2 of
                    (Inl _, w3) \<Rightarrow> (None, w3)
                  | (Inr st', w3) \<Rightarrow> (Some st', w3))))"

fun ResumeOrphaned :: "'w renv \<Rightarrow> int \<Rightarrow> controller \<Rightarrow> RolloutState list \<Rightarrow> 'w \<Rightarrow> RolloutState list \<times> controller \<times> 'w" where
  "ResumeOrphaned env configured c [] w = ([], c, w)"
| "ResumeOrphaned env configured c (st # states) w =
     (case adopt env configured c st w of
        (None, w1) \<Rightarrow> ResumeOrphaned env configured c states w1
      | (Some st', w1) \<Rightarrow>
          (case ResumeOrphaned env configured
                  (c\<lparr>ct_active := ro_ID st' # ct_active c, ct_abortCh := ro_ID st' # ct_abortCh c\<rparr>) states w1 of
             (sts, c', w2) \<Rightarrow> (st' # sts, c', w2)))"

end
