(* ===== verification/RolloutTouch.thy ===== *)
theory RolloutTouch
  imports Rollout
begin

text \<open>
  What the steps of a rollout can change, in any environment: which nodes they talk to, and which results they
  record.
\<close>

section \<open>Batches\<close>

lemma concat_chunks: "0 < n \<Longrightarrow> concat (chunks n xs) = xs"
  by (induction n xs rule: chunks.induct) (subst chunks.simps, simp)

lemma chunks_sizes: "b \<in> set (chunks n xs) \<Longrightarrow> b \<noteq> [] \<and> length b \<le> n"
proof (induction n xs rule: chunks.induct)
  case (1 n xs)
  show ?case
  proof (cases "xs = [] \<or> n = 0")
    case False
    then have "b = take n xs \<or> b \<in> set (chunks n (drop n xs))"
      using 1(2) by (subst (asm) chunks.simps) simp
    then show ?thesis using 1(1) [OF False] False by auto
  qed (use 1(2) in \<open>simp add: chunks.simps\<close>)
qed

lemma batch_size_pos: "batch_size n s p \<ge> 1"
  by (simp add: batch_size_def Let_def)

lemma computeBatches_partition:
  "concat (computeBatches nodes s p) = nodes"
  "b \<in> set (computeBatches nodes s p) \<Longrightarrow> b \<noteq> [] \<and> int (length b) \<le> batch_size (length nodes) s p"
  using concat_chunks [of "nat (batch_size (length nodes) s p)" nodes] batch_size_pos [of "length nodes" s p]
    chunks_sizes [of b "nat (batch_size (length nodes) s p)" nodes]
  by (auto simp: computeBatches_def split: if_splits)

section \<open>What saving changes\<close>

definition core :: "RolloutState \<Rightarrow> string \<times> RolloutConfig \<times> string \<times> string list list \<times> (string, NodeResult) gomap \<times> nat \<times> int" where
  "core st = (ro_ID st, ro_Config st, ro_State st, ro_Batches st, ro_NodeResults st, ro_CurrentBatch st, ro_FailedCount st)"

lemma core_simps [simp]:
  "core (st\<lparr>ro_DriverID := i\<rparr>) = core st" "core (st\<lparr>ro_DriverHeartbeat := h\<rparr>) = core st"
  "core (st\<lparr>ro_Revision := n\<rparr>) = core st"
  by (simp_all add: core_def)

lemma Save_core: "Save env st w = (Inr st', w') \<Longrightarrow> core st' = core st"
  by (auto simp: Save_def split: prod.splits sum.splits)

lemma save_attempts_core: "save_attempts env n first e st w = (err, st', w') \<Longrightarrow> core st' = core st"
proof (induction n arbitrary: first e st w)
  case (Suc n)
  show ?case using Suc.prems
    by (auto simp: Let_def dest!: Save_core Suc.IH split: prod.splits sum.splits bool.splits if_splits)
qed simp

lemma save_drv_frame:
  assumes "save_drv env d = (err, d')"
  shows "core (dv_state d') = core (dv_state d)" "dv_sent d' = dv_sent d"
proof -
  obtain st w where s: "saveStateLocked env (dv_state d) (dv_world d) = (err, st, w)" "d' = d\<lparr>dv_state := st, dv_world := w\<rparr>"
    using assms by (auto simp: save_drv_def split: prod.splits)
  then show "core (dv_state d') = core (dv_state d)" "dv_sent d' = dv_sent d"
    using save_attempts_core [OF s(1) [unfolded saveStateLocked_def]] by simp_all
qed

section \<open>Touching only some nodes\<close>

text \<open>
  A step from \<open>d\<close> to \<open>d'\<close> that talks to the nodes in \<open>N\<close> only, leaves the results of the other nodes
  alone and stays in its batch.
\<close>

definition touches :: "string set \<Rightarrow> 'w drv \<Rightarrow> 'w drv \<Rightarrow> bool" where
  "touches N d d' \<longleftrightarrow>
     (\<exists>t. dv_sent d' = dv_sent d @ t \<and> fst ` set t \<subseteq> N) \<and>
     ro_ID (dv_state d') = ro_ID (dv_state d) \<and> ro_Config (dv_state d') = ro_Config (dv_state d) \<and>
     ro_Batches (dv_state d') = ro_Batches (dv_state d) \<and>
     ro_CurrentBatch (dv_state d') = ro_CurrentBatch (dv_state d) \<and>
     (ro_State (dv_state d') = RolloutCompleted \<longrightarrow> ro_State (dv_state d) = RolloutCompleted) \<and>
     (\<forall>n. n \<notin> N \<longrightarrow> map_of (ro_NodeResults (dv_state d')) n = map_of (ro_NodeResults (dv_state d)) n)"

lemma touches_refl [simp]: "touches N d d"
  by (simp add: touches_def)

lemma touches_trans:
  assumes "touches N d d'" "touches M d' d''"
  shows "touches (N \<union> M) d d''"
proof -
  obtain t t' where t: "dv_sent d' = dv_sent d @ t" "fst ` set t \<subseteq> N" "dv_sent d'' = dv_sent d' @ t'" "fst ` set t' \<subseteq> M"
    using assms unfolding touches_def by blast
  then have "dv_sent d'' = dv_sent d @ (t @ t') \<and> fst ` set (t @ t') \<subseteq> N \<union> M" by auto
  then show ?thesis using assms unfolding touches_def by (intro conjI exI [of _ "t @ t'"]) simp_all
qed

lemma touches_step [trans]: "touches N d d' \<Longrightarrow> touches N d' d'' \<Longrightarrow> touches N d d''"
  using touches_trans [of N d d' N d''] by simp

lemma touches_mono: "touches N d d' \<Longrightarrow> N \<subseteq> M \<Longrightarrow> touches M d d'"
  unfolding touches_def by (meson subset_iff order_trans)

text \<open>Talking to nodes in \<open>N\<close> without changing the state of the rollout.\<close>

definition talks :: "string set \<Rightarrow> 'w drv \<Rightarrow> 'w drv \<Rightarrow> bool" where
  "talks N d d' \<longleftrightarrow> dv_state d' = dv_state d \<and> (\<exists>t. dv_sent d' = dv_sent d @ t \<and> fst ` set t \<subseteq> N)"

lemma talks_touches: "talks N d d' \<Longrightarrow> touches N d d'"
  by (auto simp: talks_def touches_def)

lemma talks_refl [simp]: "talks N d d"
  by (simp add: talks_def)

lemma talks_trans [trans]:
  assumes "talks N d d'" "talks N d' d''"
  shows "talks N d d''"
proof -
  obtain t t' where "dv_sent d' = dv_sent d @ t" "fst ` set t \<subseteq> N" "dv_sent d'' = dv_sent d' @ t'" "fst ` set t' \<subseteq> N"
    using assms unfolding talks_def by blast
  then have "dv_sent d'' = dv_sent d @ (t @ t') \<and> fst ` set (t @ t') \<subseteq> N" by auto
  then show ?thesis using assms unfolding talks_def by metis
qed

lemma talks_mono: "talks N d d' \<Longrightarrow> N \<subseteq> M \<Longrightarrow> talks M d d'"
  unfolding talks_def by (meson order_trans)

lemma check_talks: "check f d = (a, d') \<Longrightarrow> talks N d d'"
  by (auto simp: check_def talks_def split: prod.splits)

lemma send_talks: "send env n c d = (r, d') \<Longrightarrow> n \<in> N \<Longrightarrow> talks N d d'"
  by (auto simp: send_def talks_def split: prod.splits)

lemma resetNode_talks: "resetNode env n p d = (r, d') \<Longrightarrow> n \<in> N \<Longrightarrow> talks N d d'"
  by (auto simp: resetNode_def Let_def dest: send_talks split: prod.splits sum.splits if_splits)

lemma resume_talks:
  "resume_or_reset env n resp x what d = (r, d') \<Longrightarrow> n \<in> N \<Longrightarrow> talks N d d'"
  by (auto simp: resume_or_reset_def dest: resetNode_talks split: prod.splits option.splits if_splits)

lemma resume_node: "resume_or_reset env n resp x what d = (r, d') \<Longrightarrow> pb_nodeID x = n \<Longrightarrow> pb_nodeID r = n"
  by (auto simp: resume_or_reset_def probe_error_def probe_action_def split: prod.splits option.splits if_splits)

lemma probe_loop_talks: "probe_loop env n k d = (r, d') \<Longrightarrow> talks {n} d d' \<and> pb_nodeID r = n"
proof (induction k arbitrary: d)
  case (Suc k)
  obtain b1 d1 where c1: "check (re_aborted env (ro_ID (dv_state d))) d = (b1, d1)"
    by (cases "check (re_aborted env (ro_ID (dv_state d))) d")
  obtain r2 d2 where s2: "send env n (plain_command d1 CmdStatus) d1 = (r2, d2)"
    by (cases "send env n (plain_command d1 CmdStatus) d1")
  obtain b3 d3 where c3: "check (re_aborted env (ro_ID (dv_state d2))) d2 = (b3, d3)"
    by (cases "check (re_aborted env (ro_ID (dv_state d2))) d2")
  obtain b4 d4 where c4: "check (re_done env) d3 = (b4, d4)" by (cases "check (re_done env) d3")
  have t1: "talks {n} d d1" by (rule check_talks [OF c1])
  have t2: "talks {n} d d2" using talks_trans [OF t1 send_talks [OF s2]] by simp
  have t3: "talks {n} d d3" by (rule talks_trans [OF t2 check_talks [OF c3]])
  have t4: "talks {n} d d4" by (rule talks_trans [OF t3 check_talks [OF c4]])
  have resume: "talks {n} d e \<and> pb_nodeID r' = n" if "resume_or_reset env n resp x what d2 = (r', e)" "pb_nodeID x = n" for resp x what e r'
    using talks_trans [OF t2 resume_talks [OF that(1)]] resume_node [OF that] by simp
  show ?case using Suc.prems c1 s2 c3 c4 t1 t2 t3 t4 talks_trans [OF t4] Suc.IH resume
    by (auto simp: probe_error_def probe_action_def split: sum.splits bool.splits if_splits)
qed (auto simp: probe_error_def)

lemma each_talks:
  assumes "\<And>x d y d'. x \<in> set xs \<Longrightarrow> f x d = (y, d') \<Longrightarrow> talks N d d' \<and> P x y"
    and "each f xs d = (ys, d')"
  shows "talks N d d' \<and> list_all2 P xs ys"
  using assms
proof (induction xs arbitrary: d ys)
  case (Cons x xs)
  obtain y d1 ys' where "f x d = (y, d1)" "each f xs d1 = (ys', d')" "ys = y # ys'"
    using Cons.prems(2) by (auto split: prod.splits)
  then show ?case using Cons.IH [of d1 ys'] Cons.prems(1) talks_trans by (metis list.set_intros list_all2_Cons)
qed simp

section \<open>The steps of a batch\<close>

text \<open>The goroutines of a batch are those of its nodes.\<close>

definition orders :: "'w renv \<Rightarrow> bool" where
  "orders env \<longleftrightarrow> (\<forall>xs w. mset (fst (re_order env xs w)) = mset xs)"

lemma order_set: "orders env \<Longrightarrow> check (re_order env xs) d = (ys, d') \<Longrightarrow> mset ys = mset xs"
proof -
  assume "orders env" "check (re_order env xs) d = (ys, d')"
  moreover from this(1) have "mset (fst (re_order env xs (dv_world d))) = mset xs" by (simp add: orders_def)
  ultimately show ?thesis by (auto simp: check_def split: prod.splits)
qed

lemma save_touches: "save_drv env d = (err, d') \<Longrightarrow> touches N d d'"
  using save_drv_frame [of env d err d'] by (auto simp: touches_def core_def)

lemma save_failed: "save_drv env d = (err, d') \<Longrightarrow> ro_FailedCount (dv_state d') = ro_FailedCount (dv_state d)"
  using save_drv_frame [of env d err d'] by (auto simp: core_def)

lemma save_results: "save_drv env d = (err, d') \<Longrightarrow> ro_NodeResults (dv_state d') = ro_NodeResults (dv_state d)"
  using save_drv_frame [of env d err d'] by (auto simp: core_def)

lemma set_result_simps [simp]:
  "ro_ID (set_result n f st) = ro_ID st" "ro_Config (set_result n f st) = ro_Config st"
  "ro_Batches (set_result n f st) = ro_Batches st" "ro_CurrentBatch (set_result n f st) = ro_CurrentBatch st"
  "ro_FailedCount (set_result n f st) = ro_FailedCount st" "ro_State (set_result n f st) = ro_State st"
  "map_of (ro_NodeResults (set_result n f st)) m =
     (if m = n then Some (f (case map_of (ro_NodeResults st) n of None \<Rightarrow> fresh_result n | Some nr \<Rightarrow> nr))
      else map_of (ro_NodeResults st) m)"
  by (simp_all add: set_result_def map_of_m_set)

lemma touches_state:
  "ro_ID st = ro_ID (dv_state d) \<Longrightarrow> ro_Config st = ro_Config (dv_state d) \<Longrightarrow> ro_Batches st = ro_Batches (dv_state d) \<Longrightarrow>
   ro_CurrentBatch st = ro_CurrentBatch (dv_state d) \<Longrightarrow> (ro_State st = RolloutCompleted \<Longrightarrow> ro_State (dv_state d) = RolloutCompleted) \<Longrightarrow>
   (\<And>n. n \<notin> N \<Longrightarrow> map_of (ro_NodeResults st) n = map_of (ro_NodeResults (dv_state d)) n) \<Longrightarrow>
   touches N d (d\<lparr>dv_state := st\<rparr>)"
  by (simp add: touches_def)

lemma record_probe_touches: "pb_nodeID res \<in> N \<Longrightarrow> touches N d (d\<lparr>dv_state := record_probe res (dv_state d)\<rparr>)"
  by (rule touches_state) (auto simp: record_probe_def split: option.splits if_splits)

lemma record_command_touches: "fst res \<in> N \<Longrightarrow> touches N d (d\<lparr>dv_state := record_command s res (dv_state d)\<rparr>)"
  by (rule touches_state) (auto simp: record_command_def split: prod.splits option.splits)

lemma record_reverts_touches:
  "fst ` set os \<subseteq> N \<Longrightarrow> touches N d (d\<lparr>dv_state := fold record_revert os (dv_state d)\<rparr>)"
proof (induction os arbitrary: d)
  case (Cons a os)
  have "touches N d (d\<lparr>dv_state := record_revert a (dv_state d)\<rparr>)"
    using Cons.prems by (intro touches_state) (auto simp: record_revert_def split: prod.splits if_splits)
  also have "touches N \<dots> (d\<lparr>dv_state := fold record_revert os (record_revert a (dv_state d))\<rparr>)"
    using Cons.IH [of "d\<lparr>dv_state := record_revert a (dv_state d)\<rparr>"] Cons.prems by simp
  finally show ?case by simp
qed simp

lemma revert_node_talks: "revert_node env n d = (r, d') \<Longrightarrow> talks {n} d d' \<and> fst r = n"
proof -
  assume r: "revert_node env n d = (r, d')"
  obtain p d1 where s1: "send env n (plain_command d CmdStatus) d = (p, d1)" by (cases "send env n (plain_command d CmdStatus) d")
  obtain q d2 where s2: "send env n (plain_command d1 CmdRollback) d1 = (q, d2)" by (cases "send env n (plain_command d1 CmdRollback) d1")
  have "talks {n} d d1" "talks {n} d d2"
    using send_talks [OF s1] talks_trans [OF send_talks [OF s1] send_talks [OF s2]] by simp_all
  then show ?thesis using r s1 s2 by (auto simp: revert_node_def Let_def split: if_splits)
qed

lemma each_nodes:
  assumes "\<And>x d y d'. f x d = (y, d') \<Longrightarrow> talks {x} d d' \<and> nm y = x" "each f xs d = (ys, d')"
  shows "talks (set xs) d d'" "map nm ys = xs"
proof -
  have "talks (set xs) d d' \<and> list_all2 (\<lambda>x y. nm y = x) xs ys"
    by (rule each_talks [OF _ assms(2)]) (use assms(1) talks_mono in blast)
  then show "talks (set xs) d d'" "map nm ys = xs" by (auto simp: list_all2_conv_all_nth intro: nth_equalityI)
qed

lemma revertBatch_touches:
  assumes "orders env"
  shows "touches (set (current_batch (dv_state d))) d (revertBatch env d)"
proof (cases "current_batch (dv_state d) = []")
  case False
  obtain nodes d1 where c: "check (re_order env (current_batch (dv_state d))) d = (nodes, d1)"
    by (cases "check (re_order env (current_batch (dv_state d))) d")
  obtain os d2 where e: "each (revert_node env) nodes d1 = (os, d2)" by (cases "each (revert_node env) nodes d1")
  let ?N = "set (current_batch (dv_state d))"
  have N: "set nodes = ?N" using order_set [OF assms c] by (metis set_mset_mset)
  have each: "talks (set nodes) d1 d2" "map fst os = nodes"
    by (rule each_nodes [where nm = fst, OF revert_node_talks e]; assumption)+
  have "touches ?N d d1" by (rule talks_touches [OF check_talks [OF c]])
  also have "touches ?N d1 d2" using talks_touches [OF each(1)] unfolding N .
  also have "touches ?N d2 (d2\<lparr>dv_state := fold record_revert os (dv_state d2)\<rparr>)"
    using each(2) N by (intro record_reverts_touches) (metis list.set_map order_refl)
  finally show ?thesis using False c e by (simp add: revertBatch_def)
qed (simp add: revertBatch_def)

lemma touches_batch: "touches N d d' \<Longrightarrow> current_batch (dv_state d') = current_batch (dv_state d)"
  by (simp add: touches_def current_batch_def)

lemma set_rollout_touches: "s \<noteq> RolloutCompleted \<Longrightarrow> touches N d (set_rollout s d)"
  by (simp add: set_rollout_def touches_def)

lemma finishAborted_touches:
  assumes "orders env"
  shows "touches (set (current_batch (dv_state d))) d (finishAborted env d)"
proof -
  let ?N = "set (current_batch (dv_state d))"
  define d1 where "d1 = set_rollout RolloutAborting (revertBatch env d)"
  obtain e2 d2 where s2: "save_drv env d1 = (e2, d2)" by (cases "save_drv env d1")
  obtain e3 d3 where s3: "save_drv env (set_rollout RolloutAborted d2) = (e3, d3)"
    by (cases "save_drv env (set_rollout RolloutAborted d2)")
  have "touches ?N d (revertBatch env d)" by (rule revertBatch_touches [OF assms])
  also have "touches ?N \<dots> d1" unfolding d1_def by (rule set_rollout_touches) simp
  also have "touches ?N \<dots> d2" by (rule save_touches [OF s2])
  also have "touches ?N \<dots> (set_rollout RolloutAborted d2)" by (rule set_rollout_touches) simp
  also have "touches ?N \<dots> d3" by (rule save_touches [OF s3])
  finally show ?thesis using s2 s3 by (simp add: finishAborted_def d1_def Let_def)
qed

lemma persist_error_touches:
  assumes "orders env"
  shows "touches (set (current_batch (dv_state d))) d (handlePersistError env err d)"
proof (cases err)
  case AbortedExternally
  then show ?thesis using revertBatch_touches [OF assms] by (simp add: handlePersistError_def)
next
  case (SaveFailed e)
  let ?N = "set (current_batch (dv_state d))"
  obtain b d1 where c: "check (re_done env) d = (b, d1)" by (cases "check (re_done env) d")
  let ?d2 = "d1\<lparr>dv_state := (dv_state d1)\<lparr>ro_State := RolloutAborted,
       ro_Error := ''aborted: rollout state persistence failed: '' @ e\<rparr>\<rparr>"
  obtain e3 d3 where s3: "save_drv env ?d2 = (e3, d3)" by (cases "save_drv env ?d2")
  have t1: "touches ?N d d1" by (rule talks_touches [OF check_talks [OF c]])
  also have "touches ?N d1 ?d2" by (rule touches_state) simp_all
  also have "touches ?N ?d2 d3" by (rule save_touches [OF s3])
  finally show ?thesis using t1 SaveFailed c s3 by (simp add: handlePersistError_def abortForPersistFailure_def split: bool.splits)
qed (simp add: handlePersistError_def)

section \<open>Statuses\<close>

definition status_in :: "string set \<Rightarrow> string \<Rightarrow> 'w drv \<Rightarrow> bool" where
  "status_in S n d \<longleftrightarrow> (\<exists>nr. map_of (ro_NodeResults (dv_state d)) n = Some nr \<and> nr_Status nr \<in> S)"

lemma status_in_untouched: "touches N d d' \<Longrightarrow> n \<notin> N \<Longrightarrow> status_in S n d' = status_in S n d"
  by (simp add: touches_def status_in_def)

lemma status_in_save: "save_drv env d = (err, d') \<Longrightarrow> status_in S n d' = status_in S n d"
  using save_results [of env d err d'] by (simp add: status_in_def)

lemma status_in_talks: "talks N d d' \<Longrightarrow> status_in S n d' = status_in S n d"
  by (simp add: talks_def status_in_def)

lemma status_in_mono: "status_in S n d \<Longrightarrow> S \<subseteq> T \<Longrightarrow> status_in T n d"
  unfolding status_in_def by blast

text \<open>The count of failures is never less than the number of failed nodes.\<close>

definition failed_nodes :: "RolloutState \<Rightarrow> string set" where
  "failed_nodes st = {n. \<exists>nr. map_of (ro_NodeResults st) n = Some nr \<and> nr_Status nr = ''failed''}"

definition counted :: "RolloutState \<Rightarrow> bool" where
  "counted st \<longleftrightarrow> int (card (failed_nodes st)) \<le> ro_FailedCount st"

lemma finite_failed [simp]: "finite (failed_nodes st)"
proof -
  have "failed_nodes st \<subseteq> dom (map_of (ro_NodeResults st))" by (auto simp: failed_nodes_def)
  then show ?thesis using finite_dom_map_of finite_subset by blast
qed

lemma counted_same: "counted st \<Longrightarrow> ro_NodeResults st' = ro_NodeResults st \<Longrightarrow> ro_FailedCount st' = ro_FailedCount st \<Longrightarrow> counted st'"
  by (simp add: counted_def failed_nodes_def)

lemma counted_failure:
  assumes "counted st" "failed_nodes st' \<subseteq> insert n (failed_nodes st)" "ro_FailedCount st' = ro_FailedCount st + 1"
  shows "counted st'"
proof -
  have "card (failed_nodes st') \<le> card (insert n (failed_nodes st))" using assms(2) by (intro card_mono) auto
  also have "\<dots> \<le> card (failed_nodes st) + 1" by (simp add: card_insert_le_m1 card_insert_if)
  finally show ?thesis using assms(1,3) by (simp add: counted_def)
qed

lemma counted_other:
  assumes "counted st" "failed_nodes st' \<subseteq> failed_nodes st" "ro_FailedCount st' = ro_FailedCount st"
  shows "counted st'"
  using card_mono [OF _ assms(2)] assms(1,3) by (simp add: counted_def)

lemma counted_probe: "counted st \<Longrightarrow> counted (record_probe res st)"
proof (cases "pb_err res")
  case None
  moreover assume "counted st"
  ultimately show ?thesis
    by (elim counted_other) (auto simp: record_probe_def failed_nodes_def fresh_result_def split: if_splits option.splits)
next
  case (Some e)
  moreover assume "counted st"
  ultimately show ?thesis
    by (elim counted_failure [where n = "pb_nodeID res"]) (auto simp: record_probe_def failed_nodes_def split: if_splits)
qed

lemma counted_command: "counted st \<Longrightarrow> s \<noteq> ''failed'' \<Longrightarrow> counted (record_command s res st)"
proof (cases res)
  case (Pair n e)
  assume c: "counted st" "s \<noteq> ''failed''"
  show ?thesis
  proof (cases e)
    case None
    show ?thesis using c Pair None
      by (elim counted_other) (auto simp: record_command_def failed_nodes_def split: if_splits)
  next
    case (Some m)
    show ?thesis using c Pair Some
      by (elim counted_failure [where n = n]) (auto simp: record_command_def failed_nodes_def split: if_splits)
  qed
qed

end
