(* ===== verification/RolloutRun.thy ===== *)
theory RolloutRun
  imports RolloutTouch
begin

text \<open>
  A rollout in any environment: batches are worked on one after the other, a batch is left only when all its nodes
  are settled and the failures are below the limit, and no node of a later batch is ever contacted.
\<close>

section \<open>Planning a batch\<close>

lemma save_counted: "save_drv env d = (err, d') \<Longrightarrow> counted (dv_state d') = counted (dv_state d)"
  using save_results [of env d err d'] save_failed [of env d err d'] by (simp add: counted_def failed_nodes_def)

definition planned :: "batchPlan \<Rightarrow> string set" where
  "planned plan = set (pl_prepare plan) \<union> set (pl_apply plan) \<union> set (pl_confirm plan)"

lemma extend_planned:
  "planned (extend_plan res plan) =
     planned plan \<union> (if pb_err res = None \<and> pb_action res \<noteq> ActionSkip then {pb_nodeID res} else {})"
  by (auto simp: extend_plan_def planned_def split: nodeAction.splits)

lemma record_probe_status:
  "pb_err res \<noteq> None \<or> pb_action res = ActionSkip \<Longrightarrow>
     status_in {''skipped'', ''failed''} (pb_nodeID res) (d\<lparr>dv_state := record_probe res (dv_state d)\<rparr>)"
  by (auto simp: status_in_def record_probe_def split: option.splits)

lemma plan_results_ok:
  assumes "orders env" "pb_nodeID ` set rs \<subseteq> set (current_batch (dv_state d))" "plan_results env rs plan d = (plan', out, d')"
  shows "touches (set (current_batch (dv_state d))) d d' \<and> planned plan' \<subseteq> planned plan \<union> pb_nodeID ` set rs \<and>
     (out = BatchOK \<longrightarrow> counted (dv_state d) \<longrightarrow> counted (dv_state d') \<and> (rs \<noteq> [] \<longrightarrow> \<not> max_failed d'))"
  using assms(2,3)
proof (induction rs arbitrary: d plan)
  case (Cons res rs)
  let ?N = "set (current_batch (dv_state d))" and ?d0 = "d\<lparr>dv_state := record_probe res (dv_state d)\<rparr>"
  obtain err d1 where s: "save_drv env ?d0 = (err, d1)" by (cases "save_drv env ?d0")
  have t0: "touches ?N d ?d0" using Cons.prems(1) by (intro record_probe_touches) auto
  have t1: "touches ?N d d1" by (rule touches_step [OF t0 save_touches [OF s]])
  have b1: "current_batch (dv_state d1) = current_batch (dv_state d)" by (rule touches_batch [OF t1])
  have c1: "counted (dv_state d) \<Longrightarrow> counted (dv_state d1)"
    using save_counted [OF s] counted_probe [of "dv_state d" res] by simp
  have pl: "planned (extend_plan res plan) \<subseteq> planned plan \<union> pb_nodeID ` set (res # rs)"
    by (auto simp: extend_planned split: if_splits)
  show ?case
  proof (cases err)
    case (Some e)
    have "touches ?N d (handlePersistError env e d1)"
      using touches_step [OF t1 persist_error_touches [OF assms(1), of d1 e, unfolded b1]] .
    then show ?thesis using Cons.prems(2) s Some by auto
  next
    case None
    show ?thesis
    proof (cases "max_failed d1")
      case True
      then show ?thesis using Cons.prems(2) s None t1 pl by (auto simp: Let_def)
    next
      case False
      then have rest: "plan_results env rs (extend_plan res plan) d1 = (plan', out, d')"
        using Cons.prems(2) s None by (simp add: Let_def)
      have "rs = [] \<Longrightarrow> d' = d1" using rest by simp
      then show ?thesis using Cons.IH [of d1 "extend_plan res plan"] rest Cons.prems(1) b1 c1 pl False touches_step [OF t1]
        by auto
    qed
  qed
qed auto

lemma plan_results_settled:
  assumes "orders env" "pb_nodeID ` set rs \<subseteq> set (current_batch (dv_state d))" "distinct (map pb_nodeID rs)"
    and "plan_results env rs plan d = (plan', BatchOK, d')"
  shows "(\<forall>n. n \<notin> pb_nodeID ` set rs \<longrightarrow> map_of (ro_NodeResults (dv_state d')) n = map_of (ro_NodeResults (dv_state d)) n) \<and>
     planned plan \<subseteq> planned plan' \<and>
     (\<forall>n \<in> pb_nodeID ` set rs. n \<in> planned plan' \<or> status_in {''skipped'', ''failed''} n d')"
  using assms(2-4)
proof (induction rs arbitrary: d plan)
  case (Cons res rs)
  let ?d0 = "d\<lparr>dv_state := record_probe res (dv_state d)\<rparr>"
  obtain d1 where s: "save_drv env ?d0 = (None, d1)" and rest: "plan_results env rs (extend_plan res plan) d1 = (plan', BatchOK, d')"
    using Cons.prems(3) by (auto simp: Let_def split: prod.splits option.splits if_splits)
  have t1: "touches (set (current_batch (dv_state d))) d d1"
    using Cons.prems(1) touches_step [OF record_probe_touches save_touches [OF s]] by auto
  have same: "map_of (ro_NodeResults (dv_state d1)) n = map_of (ro_NodeResults (dv_state d)) n" if "n \<noteq> pb_nodeID res" for n
    using that save_results [OF s] by (simp add: record_probe_def split: option.splits)
  have IH: "(\<forall>n. n \<notin> pb_nodeID ` set rs \<longrightarrow> map_of (ro_NodeResults (dv_state d')) n = map_of (ro_NodeResults (dv_state d1)) n) \<and>
     planned (extend_plan res plan) \<subseteq> planned plan' \<and>
     (\<forall>n \<in> pb_nodeID ` set rs. n \<in> planned plan' \<or> status_in {''skipped'', ''failed''} n d')"
    using Cons.prems(1,2) by (intro Cons.IH [OF _ _ rest]) (auto simp: touches_batch [OF t1])
  have "pb_nodeID res \<in> planned plan' \<or> status_in {''skipped'', ''failed''} (pb_nodeID res) d'"
  proof (cases "pb_err res \<noteq> None \<or> pb_action res = ActionSkip")
    case True
    then have "status_in {''skipped'', ''failed''} (pb_nodeID res) d1"
      using record_probe_status [of res d] status_in_save [OF s] by simp
    then show ?thesis using IH Cons.prems(2) by (simp add: status_in_def)
  next
    case False
    then show ?thesis using IH by (auto simp: extend_planned)
  qed
  then show ?case using IH same by (auto simp: extend_planned)
qed simp

lemma planBatch_ok:
  assumes "orders env" "set batch \<subseteq> set (current_batch (dv_state d))" "planBatch env batch d = (plan, out, d')"
  shows "touches (set (current_batch (dv_state d))) d d'" "planned plan \<subseteq> set batch"
    "out = BatchOK \<Longrightarrow> counted (dv_state d) \<Longrightarrow> counted (dv_state d')"
    "out = BatchOK \<Longrightarrow> distinct batch \<Longrightarrow> n \<in> set batch \<Longrightarrow> n \<in> planned plan \<or> status_in {''skipped'', ''failed''} n d'"
    "out = BatchOK \<Longrightarrow> counted (dv_state d) \<Longrightarrow> batch \<noteq> [] \<Longrightarrow> \<not> max_failed d'"
proof -
  let ?N = "set (current_batch (dv_state d))"
  let ?plan = "\<lparr>pl_prepare = [], pl_apply = [], pl_confirm = [], pl_needSoak = False\<rparr>"
  obtain nodes d1 where c: "check (re_order env batch) d = (nodes, d1)" by (cases "check (re_order env batch) d")
  obtain rs d2 where e: "each (probeNode env) nodes d1 = (rs, d2)" by (cases "each (probeNode env) nodes d1")
  have pr: "plan_results env (sort_key pb_nodeID rs) ?plan d2 = (plan, out, d')"
    using assms(3) c e by (simp add: planBatch_def)
  have N: "mset nodes = mset batch" "set nodes = set batch"
    using order_set [OF assms(1) c] by (auto dest: mset_eq_setD)
  have each: "talks (set nodes) d1 d2" "map pb_nodeID rs = nodes"
    by (rule each_nodes [where nm = pb_nodeID, OF _ e]; simp add: probeNode_def probe_loop_talks)+
  have "talks (set batch) d d2"
    using talks_trans [OF check_talks [OF c] each(1) [unfolded N]] .
  then have t2: "touches ?N d d2" using talks_touches talks_mono assms(2) by blast
  have st: "dv_state d2 = dv_state d" using \<open>talks (set batch) d d2\<close> by (simp add: talks_def)
  have ids: "pb_nodeID ` set (sort_key pb_nodeID rs) = set batch" using each(2) N(2) by (metis list.set_map set_sort)
  have sub: "pb_nodeID ` set (sort_key pb_nodeID rs) \<subseteq> set (current_batch (dv_state d2))" using ids assms(2) st by simp
  note ok = plan_results_ok [OF assms(1) sub pr]
  show "touches ?N d d'" using touches_step [OF t2] ok st by simp
  show "planned plan \<subseteq> set batch" using ok ids by (auto simp: planned_def)
  show "out = BatchOK \<Longrightarrow> counted (dv_state d) \<Longrightarrow> counted (dv_state d')" using ok st by simp
  show "\<not> max_failed d'" if "out = BatchOK" "counted (dv_state d)" "batch \<noteq> []"
  proof -
    have "set (sort_key pb_nodeID rs) \<noteq> {}" using ids that(3) by (metis image_empty set_empty)
    then have "sort_key pb_nodeID rs \<noteq> []" by (metis set_empty)
    then show ?thesis using ok st that by simp
  qed
  show "n \<in> planned plan \<or> status_in {''skipped'', ''failed''} n d'" if "out = BatchOK" "distinct batch" "n \<in> set batch"
  proof -
    have "mset (map pb_nodeID (sort_key pb_nodeID rs)) = mset batch" using each(2) N(1) by (metis mset_map mset_sort)
    then have "distinct (map pb_nodeID (sort_key pb_nodeID rs))" using that(2) mset_eq_imp_distinct_iff by blast
    note plan_results_settled [OF assms(1) sub this pr [unfolded that(1)], unfolded ids]
    then show ?thesis using that(3) by blast
  qed
qed

section \<open>Commands\<close>

lemma node_command_talks: "node_command env cmd n d = (r, d') \<Longrightarrow> talks {n} d d' \<and> fst r = n"
proof -
  assume r: "node_command env cmd n d = (r, d')"
  obtain b d1 where c: "check (re_aborted env (ro_ID (dv_state d))) d = (b, d1)"
    by (cases "check (re_aborted env (ro_ID (dv_state d))) d")
  have t1: "talks {n} d d1" by (rule check_talks [OF c])
  have "talks {n} d d2" if "send env n u d1 = (q, d2)" for u q d2
    using talks_trans [OF t1 send_talks [OF that]] by simp
  then show ?thesis using r c t1 by (auto simp: node_command_def Let_def split: prod.splits sum.splits bool.splits if_splits)
qed

lemma record_command_status:
  "status_in {s, ''failed''} (fst res) (d\<lparr>dv_state := record_command s res (dv_state d)\<rparr>)"
  "status_in {s, ''failed''} n d \<Longrightarrow> status_in {s, ''failed''} n (d\<lparr>dv_state := record_command s res (dv_state d)\<rparr>)"
  by (auto simp: status_in_def record_command_def split: prod.splits option.splits)

lemma collect_ok:
  assumes "orders env" "fst ` set rs \<subseteq> set (current_batch (dv_state d))" "s \<noteq> ''failed''" "collect_results env s rs d = (out, d')"
  shows "touches (set (current_batch (dv_state d))) d d' \<and>
     (out = BatchOK \<longrightarrow> (counted (dv_state d) \<longrightarrow> counted (dv_state d')) \<and> (\<not> max_failed d \<longrightarrow> \<not> max_failed d') \<and>
       touches (fst ` set rs) d d' \<and> (\<forall>n. n \<in> fst ` set rs \<or> status_in {s, ''failed''} n d \<longrightarrow> status_in {s, ''failed''} n d'))"
  using assms(2,4)
proof (induction rs arbitrary: d)
  case (Cons res rs)
  let ?N = "set (current_batch (dv_state d))" and ?d0 = "d\<lparr>dv_state := record_command s res (dv_state d)\<rparr>"
  obtain err d1 where sv: "save_drv env ?d0 = (err, d1)" by (cases "save_drv env ?d0")
  have t1: "touches M d d1" if "fst res \<in> M" for M
    using touches_step [OF record_command_touches save_touches [OF sv]] that .
  have b1: "current_batch (dv_state d1) = current_batch (dv_state d)" by (rule touches_batch [OF t1 [of ?N]]) (use Cons.prems(1) in auto)
  have c1: "counted (dv_state d) \<Longrightarrow> counted (dv_state d1)"
    using save_counted [OF sv] counted_command [of "dv_state d" s res] assms(3) by simp
  have s1: "status_in {s, ''failed''} (fst res) d1" "status_in {s, ''failed''} n d \<Longrightarrow> status_in {s, ''failed''} n d1" for n
    using record_command_status(1) [of s res d] record_command_status(2) [of s n d res] status_in_save [OF sv] by auto
  show ?case
  proof (cases err)
    case (Some e)
    have "touches ?N d (handlePersistError env e d1)"
      using touches_step [OF t1 persist_error_touches [OF assms(1), of d1 e, unfolded b1]] Cons.prems(1) by auto
    then show ?thesis using Cons.prems(2) sv Some by auto
  next
    case None
    show ?thesis
    proof (cases "max_failed d1")
      case True
      then show ?thesis using Cons.prems t1 sv None by auto
    next
      case False
      then have rest: "collect_results env s rs d1 = (out, d')" using Cons.prems(2) sv None by simp
      have IH: "touches ?N d1 d' \<and>
         (out = BatchOK \<longrightarrow> (counted (dv_state d1) \<longrightarrow> counted (dv_state d')) \<and> (\<not> max_failed d1 \<longrightarrow> \<not> max_failed d') \<and>
           touches (fst ` set rs) d1 d' \<and> (\<forall>n. n \<in> fst ` set rs \<or> status_in {s, ''failed''} n d1 \<longrightarrow> status_in {s, ''failed''} n d'))"
        using Cons.IH [OF _ rest] Cons.prems(1) b1 by simp
      have "touches (fst ` set (res # rs)) d d'" if "out = BatchOK"
        by (rule touches_step [OF t1 touches_mono [of "fst ` set rs"]]) (use IH that in auto)
      moreover have "touches ?N d d'" using touches_step [OF t1, of ?N d'] IH Cons.prems(1) by auto
      ultimately show ?thesis using IH c1 s1 False by auto
    qed
  qed
qed simp

text \<open>What a step of the current batch leaves behind when the batch goes on: it has talked to nodes of the batch
  only, the failures are still counted and still below the limit.\<close>

definition goes_on :: "string set \<Rightarrow> 'w drv \<Rightarrow> 'w drv \<Rightarrow> bool" where
  "goes_on N d d' \<longleftrightarrow> touches N d d' \<and> (counted (dv_state d) \<longrightarrow> counted (dv_state d')) \<and> (\<not> max_failed d \<longrightarrow> \<not> max_failed d')"

lemma goes_on_refl [simp]: "goes_on N d d"
  by (simp add: goes_on_def)

lemma goes_on_trans [trans]: "goes_on N d d' \<Longrightarrow> goes_on N d' d'' \<Longrightarrow> goes_on N d d''"
  by (auto simp: goes_on_def dest: touches_step)

lemma goes_on_touches: "goes_on N d d' \<Longrightarrow> touches N d d'"
  by (simp add: goes_on_def)

lemma goes_on_talks: "talks N d d' \<Longrightarrow> goes_on N d d'"
  using talks_touches [of N d d'] by (simp add: goes_on_def talks_def max_failed_def)

lemma goes_on_mono: "goes_on N d d' \<Longrightarrow> N \<subseteq> M \<Longrightarrow> goes_on M d d'"
  by (auto simp: goes_on_def dest: touches_mono)

lemma run_command_ok:
  assumes "orders env" "set nodes \<subseteq> set (current_batch (dv_state d))" "s \<noteq> ''failed''" "run_command env nodes cmd s d = (out, d')"
  shows "touches (set (current_batch (dv_state d))) d d'"
    "out = BatchOK \<Longrightarrow> goes_on (set nodes) d d' \<and> (\<forall>n \<in> set nodes. status_in {s, ''failed''} n d')"
proof -
  let ?N = "set (current_batch (dv_state d))"
  have "touches ?N d d' \<and> (out = BatchOK \<longrightarrow> goes_on (set nodes) d d' \<and> (\<forall>n \<in> set nodes. status_in {s, ''failed''} n d'))"
  proof (cases "nodes = []")
    case False
    obtain ns d1 where c: "check (re_order env nodes) d = (ns, d1)" by (cases "check (re_order env nodes) d")
    obtain rs d2 where e: "each (node_command env cmd) ns d1 = (rs, d2)" by (cases "each (node_command env cmd) ns d1")
    have cr: "collect_results env s rs d2 = (out, d')"
      using assms(4) False c e by (simp add: run_command_def runBatchCommand_def)
    have N: "set ns = set nodes" using order_set [OF assms(1) c] by (metis set_mset_mset)
    have each: "talks (set ns) d1 d2" "map fst rs = ns"
      by (rule each_nodes [where nm = fst, OF node_command_talks e]; assumption)+
    have t: "talks (set nodes) d d2" using talks_trans [OF check_talks [OF c] each(1) [unfolded N]] .
    have ids: "fst ` set rs = set nodes" using each(2) N by (metis list.set_map)
    have b: "current_batch (dv_state d2) = current_batch (dv_state d)" using t by (simp add: talks_def)
    have ok: "touches ?N d2 d' \<and>
       (out = BatchOK \<longrightarrow> (counted (dv_state d2) \<longrightarrow> counted (dv_state d')) \<and> (\<not> max_failed d2 \<longrightarrow> \<not> max_failed d') \<and>
         touches (set nodes) d2 d' \<and> (\<forall>n. n \<in> set nodes \<or> status_in {s, ''failed''} n d2 \<longrightarrow> status_in {s, ''failed''} n d'))"
      using collect_ok [OF assms(1) _ assms(3) cr] assms(2) unfolding ids b by blast
    have "touches ?N d d'" using touches_step [OF talks_touches [OF talks_mono [OF t assms(2)]]] ok by blast
    moreover have "goes_on (set nodes) d d'" if "out = BatchOK"
      by (rule goes_on_trans [OF goes_on_talks [OF t]]) (use ok that in \<open>simp add: goes_on_def\<close>)
    ultimately show ?thesis using ok by blast
  qed (use assms(4) in \<open>simp add: run_command_def\<close>)
  then show "touches ?N d d'"
    "out = BatchOK \<Longrightarrow> goes_on (set nodes) d d' \<and> (\<forall>n \<in> set nodes. status_in {s, ''failed''} n d')" by simp_all
qed

section \<open>Waiting\<close>

lemma wait_polls_ok:
  assumes "orders env" "wait_polls env n d = (b, d')"
  shows "touches (set (current_batch (dv_state d))) d d' \<and> (\<not> b \<longrightarrow> talks {} d d')"
  using assms(2)
proof (induction n arbitrary: d)
  case (0 d)
  obtain b1 d1 where c1: "check (re_aborted env (ro_ID (dv_state d))) d = (b1, d1)"
    by (cases "check (re_aborted env (ro_ID (dv_state d))) d")
  have t1: "talks N d d1" for N by (rule check_talks [OF c1])
  then have "dv_state d1 = dv_state d" by (simp add: talks_def)
  then show ?case
    using 0 c1 t1 touches_step [OF talks_touches [OF t1] finishAborted_touches [OF assms(1), of d1]] talks_touches [OF t1]
    by (auto simp: wait_polls.simps [of env 0] split: bool.splits)
next
  case (Suc n d)
  obtain b1 d1 where c1: "check (re_aborted env (ro_ID (dv_state d))) d = (b1, d1)"
    by (cases "check (re_aborted env (ro_ID (dv_state d))) d")
  obtain b2 d2 where c2: "check (isAbortedInKV env (ro_ID (dv_state d1))) d1 = (b2, d2)"
    by (cases "check (isAbortedInKV env (ro_ID (dv_state d1))) d1")
  let ?N = "set (current_batch (dv_state d))"
  have t1: "talks N d d1" for N by (rule check_talks [OF c1])
  have t2: "talks N d d2" for N by (rule talks_trans [OF t1 check_talks [OF c2]])
  have st: "dv_state d1 = dv_state d" "dv_state d2 = dv_state d" using t1 t2 by (simp_all add: talks_def)
  have ends: "touches ?N d (finishAborted env d1)" "touches ?N d (revertBatch env d2)"
    using touches_step [OF talks_touches [OF t1] finishAborted_touches [OF assms(1), of d1]]
      touches_step [OF talks_touches [OF t2] revertBatch_touches [OF assms(1), of d2]] st by simp_all
  have r: "(if b1 then (True, finishAborted env d1) else if b2 then (True, revertBatch env d2) else wait_polls env n d2) = (b, d')"
    using Suc.prems c1 c2 by (simp add: wait_polls.simps [of env "Suc n"] split: bool.splits)
  show ?case
  proof (cases "b1 \<or> b2")
    case True
    then show ?thesis using r ends by (auto split: if_splits)
  next
    case False
    then have "touches ?N d2 d' \<and> (\<not> b \<longrightarrow> talks {} d2 d')" using Suc.IH [of d2] r st by simp
    then show ?thesis using touches_step [OF talks_touches [OF t2]] talks_trans [OF t2] by blast
  qed
qed

section \<open>A batch\<close>

definition batch_step :: "string set \<Rightarrow> ('w drv \<Rightarrow> bool) \<Rightarrow> 'w drv \<Rightarrow> bool \<times> 'w drv \<Rightarrow> bool" where
  "batch_step M Q d r \<longleftrightarrow> touches (set (current_batch (dv_state d))) d (snd r) \<and> (fst r \<longrightarrow> goes_on M d (snd r) \<and> Q (snd r))"

lemma batch_step_after:
  assumes "batch_step M Q d1 r" "touches (set (current_batch (dv_state d))) d d1" "fst r \<Longrightarrow> goes_on M d d1"
  shows "batch_step M Q d r"
  using assms goes_on_trans [of M d d1 "snd r"] touches_step [OF assms(2)] touches_batch [OF assms(2)]
  by (auto simp: batch_step_def)

lemma on_ok_ok:
  assumes "orders env" "touches (set (current_batch (dv_state d))) d d1" "out = BatchOK \<Longrightarrow> goes_on M d d1"
    and "out = BatchOK \<Longrightarrow> batch_step M Q d1 (k d1)"
  shows "batch_step M Q d (on_ok env (out, d1) k)"
proof (cases out)
  case BatchOK
  then show ?thesis using batch_step_after [OF assms(4) assms(2)] assms(3) by (simp add: on_ok_def)
next
  case BatchAbort
  then show ?thesis
    using touches_step [OF assms(2) finishAborted_touches [OF assms(1), of d1, unfolded touches_batch [OF assms(2)]]]
    by (simp add: on_ok_def batch_step_def)
qed (use assms(2) in \<open>simp add: on_ok_def batch_step_def\<close>)

lemma run_command_step:
  assumes "orders env" "set nodes \<subseteq> M" "M \<subseteq> set (current_batch (dv_state d))" "s \<noteq> ''failed''"
    and "\<And>d1. current_batch (dv_state d1) = current_batch (dv_state d) \<Longrightarrow> \<forall>n \<in> set nodes. status_in {s, ''failed''} n d1 \<Longrightarrow> batch_step M Q d1 (k d1)"
  shows "batch_step M Q d (on_ok env (run_command env nodes cmd s d) k)"
proof -
  obtain out d1 where r: "run_command env nodes cmd s d = (out, d1)" by (cases "run_command env nodes cmd s d")
  note ok = run_command_ok [OF assms(1) order_trans [OF assms(2,3)] assms(4) r]
  show ?thesis unfolding r
    by (rule on_ok_ok [OF assms(1) ok(1)]) (use ok(2) assms(2,5) goes_on_mono touches_batch [OF ok(1)] in blast)+
qed

lemma wait_step:
  assumes "orders env" "\<And>d1. dv_state d1 = dv_state d \<Longrightarrow> batch_step M Q d1 (k d1)"
  shows "batch_step M Q d (wait_unless env skip secs d k)"
proof (cases skip)
  case False
  obtain b d1 where w: "waitOrAbort env secs d = (b, d1)" by (cases "waitOrAbort env secs d")
  then have ok: "touches (set (current_batch (dv_state d))) d d1 \<and> (\<not> b \<longrightarrow> talks {} d d1)"
    using wait_polls_ok [OF assms(1)] by (simp add: waitOrAbort_def)
  show ?thesis
  proof (cases b)
    case True
    then show ?thesis using False w ok by (simp add: wait_unless_def batch_step_def)
  next
    case no_abort: False
    then have t: "talks {} d d1" using ok by simp
    have "batch_step M Q d1 (k d1)" by (rule assms(2)) (use t in \<open>simp add: talks_def\<close>)
    then have "batch_step M Q d (k d1)"
      by (rule batch_step_after) (use ok goes_on_mono [OF goes_on_talks [OF t]] in simp_all)
    then show ?thesis using False no_abort w by (simp add: wait_unless_def)
  qed
qed (use assms in \<open>simp add: wait_unless_def\<close>)

lemma drive_plan_ok:
  assumes "orders env" "planned plan \<subseteq> set (current_batch (dv_state d))"
  shows "batch_step (planned plan) (\<lambda>d'. \<forall>n \<in> planned plan. status_in {''confirmed'', ''failed''} n d') d (drive_plan env plan last_one d)"
proof -
  let ?M = "planned plan" and ?Q = "\<lambda>d'. \<forall>n \<in> planned plan. status_in {''confirmed'', ''failed''} n d'"
  have M: "set (pl_prepare plan) \<subseteq> ?M" "set (pl_prepare plan @ pl_apply plan) \<subseteq> ?M"
    "set ((pl_prepare plan @ pl_apply plan) @ pl_confirm plan) = ?M" by (auto simp: planned_def)
  have final: "batch_step ?M ?Q d5 (wait_unless env last_one secs d5 (\<lambda>d. (True, d)))" if "?Q d5" for d5 :: "'a drv" and secs
    by (rule wait_step [OF assms(1)]) (use that in \<open>simp add: batch_step_def status_in_def\<close>)
  show ?thesis unfolding drive_plan_def Let_def
    by (rule run_command_step [OF assms(1)], rule M, rule assms(2), simp,
        rule run_command_step [OF assms(1)], rule M, use assms(2) in simp, simp,
        rule wait_step [OF assms(1)],
        rule run_command_step [OF assms(1)], use M in simp, use assms(2) in simp, simp,
        rule final, use M in simp)
qed

definition settled :: "string \<Rightarrow> 'w drv \<Rightarrow> bool" where
  "settled n d = status_in {''skipped'', ''confirmed'', ''failed''} n d"

text \<open>Taking up batch \<open>i\<close>: the state is persisted with it as the current batch.\<close>

definition enters :: "nat \<Rightarrow> 'w drv \<Rightarrow> 'w drv \<Rightarrow> bool" where
  "enters i d d' \<longleftrightarrow> dv_sent d' = dv_sent d \<and> core (dv_state d') = core ((dv_state d)\<lparr>ro_State := RolloutRolling, ro_CurrentBatch := i\<rparr>)"

lemma enters_simps:
  assumes "enters i d d'"
  shows "dv_sent d' = dv_sent d" "ro_State (dv_state d') = RolloutRolling" "ro_CurrentBatch (dv_state d') = i"
    "ro_Batches (dv_state d') = ro_Batches (dv_state d)" "status_in S n d' = status_in S n d"
    "counted (dv_state d') = counted (dv_state d)" "ro_Config (dv_state d') = ro_Config (dv_state d)"
  using assms by (auto simp: enters_def core_def status_in_def counted_def failed_nodes_def)

lemma plan_driven:
  assumes "orders env" "current_batch (dv_state d) = batch" "distinct batch" "batch \<noteq> []"
    and "planBatch env batch d = (plan, out, d1)" "on_ok env (out, d1) (drive_plan env plan last_one) = (b, d')"
  shows "touches (set batch) d d' \<and>
     (b \<and> counted (dv_state d) \<longrightarrow> counted (dv_state d') \<and> \<not> max_failed d' \<and> (\<forall>n \<in> set batch. settled n d'))"
proof -
  note plan = planBatch_ok [OF assms(1) _ assms(5)]
  have t1: "touches (set batch) d d1" using plan(1) assms(2) by simp
  have b1: "current_batch (dv_state d1) = batch" using touches_batch [OF t1] assms(2) by simp
  have P: "planned plan \<subseteq> set batch" using plan(2) assms(2) by simp
  have dp: "batch_step (planned plan) (\<lambda>d'. \<forall>n \<in> planned plan. status_in {''confirmed'', ''failed''} n d') d1 (drive_plan env plan last_one d1)"
    by (rule drive_plan_ok [OF assms(1)]) (use P b1 in simp)
  have "batch_step (set batch) (\<lambda>_. True) d1 (drive_plan env plan last_one d1)"
    using dp goes_on_mono [OF _ P] b1 by (auto simp: batch_step_def)
  then have t: "touches (set batch) d d'"
    using on_ok_ok [OF assms(1), of d1 d1 out "set batch" "\<lambda>_. True" "drive_plan env plan last_one"] assms(6) b1
      touches_step [OF t1, of d'] by (simp add: batch_step_def)
  have "counted (dv_state d') \<and> \<not> max_failed d' \<and> (\<forall>n \<in> set batch. settled n d')" if b: "b" "counted (dv_state d)"
  proof -
    have out: "out = BatchOK" using assms(6) b(1) by (simp add: on_ok_def split: batchOutcome.splits)
    have g: "goes_on (planned plan) d1 d'" "\<forall>n \<in> planned plan. status_in {''confirmed'', ''failed''} n d'"
      using dp assms(6) b(1) out by (simp_all add: batch_step_def on_ok_def)
    have "settled n d'" if "n \<in> set batch" for n
    proof (cases "n \<in> planned plan")
      case True
      then show ?thesis using g(2) unfolding settled_def by (blast intro: status_in_mono)
    next
      case False
      then have "status_in {''skipped'', ''failed''} n d1" using plan(4) out assms(2,3) that by blast
      then have "status_in {''skipped'', ''failed''} n d'" using status_in_untouched [OF goes_on_touches [OF g(1)] False] by simp
      then show ?thesis unfolding settled_def by (rule status_in_mono) simp
    qed
    moreover have "counted (dv_state d1)" "\<not> max_failed d1" using plan(3,5) out assms(2,4) b(2) by simp_all
    ultimately show ?thesis using g(1) by (simp add: goes_on_def)
  qed
  then show ?thesis using t by blast
qed

lemma run_batch_ok:
  assumes "orders env" "i < length (ro_Batches (dv_state d))" "ro_Batches (dv_state d) ! i = batch" "distinct batch" "batch \<noteq> []"
    and "run_batch env i batch d = (b, d')"
  shows "(\<not> b \<and> touches (set (current_batch (dv_state d))) d d') \<or>
     (\<exists>d3. enters i d d3 \<and> touches (set batch) d3 d' \<and>
       (b \<and> counted (dv_state d) \<longrightarrow> counted (dv_state d') \<and> \<not> max_failed d' \<and> (\<forall>n \<in> set batch. settled n d')))"
proof -
  obtain b1 d1 where c1: "check (re_aborted env (ro_ID (dv_state d))) d = (b1, d1)"
    by (cases "check (re_aborted env (ro_ID (dv_state d))) d")
  obtain b2 d2 where c2: "check (isAbortedInKV env (ro_ID (dv_state d1))) d1 = (b2, d2)"
    by (cases "check (isAbortedInKV env (ro_ID (dv_state d1))) d1")
  let ?N = "set (current_batch (dv_state d))"
  have t: "talks {} d d1" "talks {} d d2"
    by (rule check_talks [OF c1], rule talks_trans [OF check_talks [OF c1] check_talks [OF c2]])
  have st: "dv_state d1 = dv_state d" "dv_state d2 = dv_state d" "dv_sent d2 = dv_sent d" using t by (auto simp: talks_def)
  have ends: "touches ?N d (finishAborted env d1)" "touches ?N d (revertBatch env d2)"
    using touches_step [OF talks_touches [OF talks_mono [OF t(1)]] finishAborted_touches [OF assms(1), of d1]]
      touches_step [OF talks_touches [OF talks_mono [OF t(2)]] revertBatch_touches [OF assms(1), of d2]] st by simp_all
  let ?d2 = "d2\<lparr>dv_state := (dv_state d2)\<lparr>ro_State := RolloutRolling, ro_CurrentBatch := i\<rparr>\<rparr>"
  obtain err d3 where sv: "save_drv env ?d2 = (err, d3)" by (cases "save_drv env ?d2")
  have e3: "enters i d d3" using save_drv_frame [OF sv] st by (simp add: enters_def)
  have cb: "current_batch (dv_state d3) = batch" using assms(2,3) enters_simps [OF e3] by (simp add: current_batch_def)
  obtain plan out d4 where pb: "planBatch env batch d3 = (plan, out, d4)" by (cases "planBatch env batch d3")
  define last_one where "last_one \<longleftrightarrow> i + 1 = length (ro_Batches (dv_state d4))"
  have r: "(if b1 then (False, finishAborted env d1) else if b2 then (False, revertBatch env d2)
      else case err of Some e \<Rightarrow> (False, handlePersistError env e d3)
           | None \<Rightarrow> on_ok env (out, d4) (drive_plan env plan last_one)) = (b, d')"
    using assms(6) c1 c2 sv pb by (cases b1; cases b2; cases err) (simp_all add: run_batch_def persistProgress_def last_one_def)
  show ?thesis
  proof (cases "b1 \<or> b2")
    case True
    then show ?thesis using r ends by (auto split: if_splits)
  next
    case False
    show ?thesis
    proof (cases err)
      case None
      with r False have "on_ok env (out, d4) (drive_plan env plan last_one) = (b, d')" by simp
      from plan_driven [OF assms(1) cb assms(4,5) pb this] show ?thesis using e3 enters_simps(6) [OF e3] by blast
    next
      case (Some e)
      then show ?thesis using r False e3 persist_error_touches [OF assms(1), of d3 e, unfolded cb] by auto
    qed
  qed
qed

section \<open>All batches\<close>

text \<open>The rollout is contained: it has only talked to nodes of batches up to the current one, and the nodes of the
  batches before it are settled.\<close>

definition contained :: "'w drv \<Rightarrow> bool" where
  "contained d \<longleftrightarrow>
     fst ` set (dv_sent d) \<subseteq> set (concat (take (Suc (ro_CurrentBatch (dv_state d))) (ro_Batches (dv_state d)))) \<and>
     (\<forall>n \<in> set (concat (take (ro_CurrentBatch (dv_state d)) (ro_Batches (dv_state d)))). settled n d)"

lemma current_batch_take: "set (current_batch st) \<subseteq> set (concat (take (Suc (ro_CurrentBatch st)) (ro_Batches st)))"
  by (auto simp: current_batch_def take_Suc_conv_app_nth)

lemma current_batch_fresh:
  assumes "distinct (concat (ro_Batches st))"
  shows "set (current_batch st) \<inter> set (concat (take (ro_CurrentBatch st) (ro_Batches st))) = {}"
proof (cases "ro_CurrentBatch st < length (ro_Batches st)")
  case True
  have "distinct (concat (take (Suc (ro_CurrentBatch st)) (ro_Batches st)))"
    using assms by (metis append_take_drop_id concat_append distinct_append)
  then show ?thesis using True by (simp add: current_batch_def take_Suc_conv_app_nth Int_commute)
qed (simp add: current_batch_def)

lemma contained_touches:
  assumes "contained d" "distinct (concat (ro_Batches (dv_state d)))" "touches (set (current_batch (dv_state d))) d d'"
  shows "contained d'"
proof -
  have eq: "ro_Batches (dv_state d') = ro_Batches (dv_state d)" "ro_CurrentBatch (dv_state d') = ro_CurrentBatch (dv_state d)"
    using assms(3) by (simp_all add: touches_def)
  obtain t where "dv_sent d' = dv_sent d @ t" "fst ` set t \<subseteq> set (current_batch (dv_state d))"
    using assms(3) by (auto simp: touches_def)
  then have "fst ` set (dv_sent d') \<subseteq> set (concat (take (Suc (ro_CurrentBatch (dv_state d))) (ro_Batches (dv_state d))))"
    using assms(1) current_batch_take [of "dv_state d"] by (auto simp: contained_def)
  moreover have "settled n d'" if "n \<in> set (concat (take (ro_CurrentBatch (dv_state d)) (ro_Batches (dv_state d))))" for n
    using current_batch_fresh [OF assms(2)] that assms(1) status_in_untouched [OF assms(3)] unfolding contained_def settled_def by blast
  ultimately show ?thesis by (simp add: contained_def eq)
qed

lemma contained_enters:
  assumes "contained d" "enters i d d'" "ro_CurrentBatch (dv_state d) \<le> i"
    and "\<forall>n \<in> set (concat (take i (ro_Batches (dv_state d)))). settled n d"
  shows "contained d'"
proof -
  have "set (concat (take (Suc (ro_CurrentBatch (dv_state d))) (ro_Batches (dv_state d)))) \<subseteq> set (concat (take (Suc i) (ro_Batches (dv_state d))))"
    using assms(3) set_take_subset_set_take [of "Suc (ro_CurrentBatch (dv_state d))" "Suc i" "ro_Batches (dv_state d)"] by auto
  then show ?thesis using assms(1,4) unfolding contained_def settled_def enters_simps [OF assms(2)] by blast
qed

lemma run_batches_ok:
  assumes "orders env" "run_batches env i batches d = (b, d')" "drop i (ro_Batches (dv_state d)) = batches"
    and "distinct (concat (ro_Batches (dv_state d)))" "[] \<notin> set (ro_Batches (dv_state d))" "ro_CurrentBatch (dv_state d) \<le> i"
    and "contained d" "\<forall>n \<in> set (concat (take i (ro_Batches (dv_state d)))). settled n d" "counted (dv_state d)"
    and "ro_State (dv_state d) \<noteq> RolloutCompleted"
  shows "contained d' \<and> ro_Batches (dv_state d') = ro_Batches (dv_state d) \<and> ro_State (dv_state d') \<noteq> RolloutCompleted \<and>
    (b \<longrightarrow> (\<forall>n \<in> set (concat (ro_Batches (dv_state d))). settled n d') \<and> counted (dv_state d') \<and> (batches \<noteq> [] \<longrightarrow> \<not> max_failed d'))"
  using assms(2-)
proof (induction batches arbitrary: i d)
  case Nil
  then show ?case by auto
next
  case (Cons batch batches)
  let ?bs = "ro_Batches (dv_state d)"
  obtain b1 d1 where rb: "run_batch env i batch d = (b1, d1)" by (cases "run_batch env i batch d")
  have i: "i < length ?bs" "?bs ! i = batch" "drop (Suc i) ?bs = batches"
    using Cons.prems(2) by (metis drop_eq_Nil list.distinct(1) not_le, metis nth_via_drop, metis drop_Suc list.sel(3) tl_drop)
  have "batch \<in> set ?bs" using i by auto
  then have batch: "distinct batch" "batch \<noteq> []" using Cons.prems(3,4) distinct_concat_iff by auto
  from run_batch_ok [OF assms(1) i(1,2) batch rb] show ?case
  proof (elim disjE exE conjE)
    assume "\<not> b1" "touches (set (current_batch (dv_state d))) d d1"
    then show ?thesis using Cons.prems(1,9) rb contained_touches [OF Cons.prems(6,3)] by (auto simp: touches_def)
  next
    fix d3 assume e: "enters i d d3" and t: "touches (set batch) d3 d1"
      and ok: "b1 \<and> counted (dv_state d) \<longrightarrow> counted (dv_state d1) \<and> \<not> max_failed d1 \<and> (\<forall>n \<in> set batch. settled n d1)"
    have cb: "current_batch (dv_state d3) = batch" using i enters_simps [OF e] by (simp add: current_batch_def)
    have c3: "contained d3" by (rule contained_enters [OF Cons.prems(6) e Cons.prems(5,7)])
    have c1: "contained d1" by (rule contained_touches [OF c3]) (use Cons.prems(3) enters_simps [OF e] cb t in simp_all)
    have s1: "ro_Batches (dv_state d1) = ?bs" "ro_CurrentBatch (dv_state d1) = i" "ro_State (dv_state d1) \<noteq> RolloutCompleted"
      using t enters_simps [OF e] by (auto simp: touches_def)
    show ?thesis
    proof (cases b1)
      case False
      then show ?thesis using Cons.prems(1) rb c1 s1 by simp
    next
      case True
      have next_batches: "run_batches env (Suc i) batches d1 = (b, d')" using Cons.prems(1) rb True by simp
      have settled1: "\<forall>n \<in> set (concat (take (Suc i) ?bs)). settled n d1"
        using c1 ok True Cons.prems(8) i(1,2) s1 unfolding contained_def by (auto simp: take_Suc_conv_app_nth)
      have "contained d' \<and> ro_Batches (dv_state d') = ?bs \<and> ro_State (dv_state d') \<noteq> RolloutCompleted \<and>
        (b \<longrightarrow> (\<forall>n \<in> set (concat ?bs). settled n d') \<and> counted (dv_state d') \<and> (batches \<noteq> [] \<longrightarrow> \<not> max_failed d'))"
        using Cons.IH [OF next_batches] Cons.prems(3,4,8) i(3) s1 c1 settled1 ok True by simp
      moreover have "batches = [] \<Longrightarrow> d' = d1" using next_batches by simp
      ultimately show ?thesis using ok True Cons.prems(8) by auto
    qed
  qed
qed

end
