(* ===== verification/UpdateNode.thy ===== *)
theory UpdateNode
  imports UpdateHandler
begin

text \<open>
  A node that is being updated: the handler and its soak goroutine as a system that reacts to commands,
  probes, timers and exits of the child.

  The first part takes each reaction as one step, which is what the handler's comments assume, and shows
  what a node guarantees then. The second part interleaves the command goroutine and the soak goroutine at the
  granularity of the code, and shows that the assumption matters.
\<close>

section \<open>Running without faults\<close>

definition calm :: "'z slots_scheme \<Rightarrow> bool" where
  "calm s \<longleftrightarrow> sl_faults s = []"

lemma calm_tick [simp]: "calm s \<Longrightarrow> tick s = s"
  by (simp add: calm_def tick_def)

lemma calm_call [simp]: "calm s \<Longrightarrow> next_fault s = None"
  "calm s \<Longrightarrow> call_error p s = (if content p s = None then Some no_such_file else None)"
  by (simp_all add: calm_def next_fault_def call_error_def)

lemma calm_update [simp]:
  "calm (s\<lparr>sl_current := a\<rparr>) = calm s" "calm (s\<lparr>sl_previous := a\<rparr>) = calm s" "calm (s\<lparr>sl_staging := a\<rparr>) = calm s"
  "calm (t\<lparr>sv_running := r\<rparr>) = calm t" "calm (t\<lparr>sv_generation := g\<rparr>) = calm t" "calm (t\<lparr>sv_bin := b\<rparr>) = calm t"
  "calm (t\<lparr>sv_pauseCount := i\<rparr>) = calm t" "calm (t\<lparr>sv_consecutiveFails := i\<rparr>) = calm t"
  "calm (t\<lparr>sv_degraded := r\<rparr>) = calm t"
  "calm (n\<lparr>h_state := st\<rparr>) = calm n" "calm (n\<lparr>h_pendingVersion := st\<rparr>) = calm n" "calm (n\<lparr>h_pendingHash := st\<rparr>) = calm n"
  "calm (n\<lparr>h_soakPassed := r\<rparr>) = calm n" "calm (n\<lparr>h_soakCancel := o'\<rparr>) = calm n"
  "calm (n\<lparr>h_cancelled := ks\<rparr>) = calm n" "calm (n\<lparr>h_soaks := k\<rparr>) = calm n"
  by (simp_all add: calm_def)

lemma calm_Stage:
  assumes "calm s" "sha256 data = h"
  shows "exec (Stage sha256 data h) s = (None, s\<lparr>sl_staging := Some data\<rparr>)"
  using assms by (simp add: Stage_def os_defs)

lemma calm_Apply:
  assumes "calm s" "sl_current s = Some c" "sl_staging s = Some b"
  shows "exec Slots_Apply s = (None, s\<lparr>sl_current := Some b, sl_previous := Some c, sl_staging := None\<rparr>)"
  using assms by (cases "sl_previous s") (simp_all add: Slots_Apply_def Apply_swap_def os_defs)

lemma calm_Rollback:
  assumes "calm s" "sl_current s = Some c" "sl_previous s = Some p"
  shows "exec Slots_Rollback s = (None, s\<lparr>sl_current := Some p, sl_previous := None, sl_staging := None\<rparr>)"
  using assms by (cases "sl_staging s") (simp_all add: Slots_Rollback_def os_defs)

lemma calm_Rollback_none:
  assumes "calm s" "sl_previous s = None"
  shows "exec Slots_Rollback s = (Some ''update: rollback: no previous binary'', s)"
  using assms by (simp add: Slots_Rollback_def os_defs)

lemma calm_Confirm:
  assumes "calm s"
  shows "exec Slots_Confirm s = (None, s\<lparr>sl_staging := None\<rparr>)"
  using assms by (cases "sl_staging s") (simp_all add: Slots_Confirm_def os_defs)

lemma calm_Stop:
  assumes "calm s"
  shows "exec Stop s = (None, s\<lparr>sv_running := False\<rparr>)"
  using assms by (cases "sv_running s") (simp_all add: Stop_def)

lemma calm_Start:
  assumes "calm s" "sl_current s = Some c" "\<not> sv_running s"
  shows "exec Start s = (None, s\<lparr>sv_running := True, sv_generation := sv_generation s + 1, sv_bin := c\<rparr>)"
  using assms by (simp add: Start_def startLocked_def)

lemmas calm_exec = calm_Stage calm_Apply calm_Rollback calm_Rollback_none calm_Confirm calm_Stop calm_Start

section \<open>The node as a reactive system\<close>

datatype event = Command "UpdateCommand result" | Soak soak_event | ChildExit | AutoRestart

type_synonym system = "node \<times> (nat \<times> soak_phase) option"

text \<open>
  A command that starts a soak goroutine, or cancels the one that runs. A cancelled goroutine ends before it
  reacts to anything else.
\<close>

definition after_command :: "node \<Rightarrow> node \<Rightarrow> (nat \<times> soak_phase) option \<Rightarrow> (nat \<times> soak_phase) option" where
  "after_command s s' sk =
     (if h_soaks s' \<noteq> h_soaks s then Some (h_soaks s, WaitHealthy 0)
      else case sk of
        None \<Rightarrow> None
      | Some (k, ph) \<Rightarrow> if k \<in> set (h_cancelled s') then None else sk)"

fun react :: "HandlerConfig \<Rightarrow> event \<Rightarrow> system \<Rightarrow> system" where
  "react cfg (Command m) (s, sk) =
     (let s' = snd (exec (handleMessage cfg m) s) in (s', after_command s s' sk))"
| "react cfg (Soak ev) (s, None) = (s, None)"
| "react cfg (Soak ev) (s, Some (k, ph)) =
     (case soak_step cfg k ev ph s of
        (SoakRollback p, s') \<Rightarrow> (snd (exec p s'), None)
      | (SoakDone, s') \<Rightarrow> (s', None)
      | (ph', s') \<Rightarrow> (s', Some (k, ph')))"
| "react cfg ChildExit (s, sk) = (snd (exec (childExited (sv_generation s)) s), sk)"
| "react cfg AutoRestart (s, sk) = (snd (exec auto_restart_round s), sk)"

definition reacts :: "HandlerConfig \<Rightarrow> event list \<Rightarrow> system \<Rightarrow> system" where
  "reacts cfg evs sys = fold (react cfg) evs sys"

text \<open>
  The binaries \<open>G\<close> are good; a controller announces only their hashes.
\<close>

definition announces :: "HandlerConfig \<Rightarrow> string set \<Rightarrow> event \<Rightarrow> bool" where
  "announces cfg G ev \<longleftrightarrow>
     (\<forall>c. ev = Command (Inr c) \<longrightarrow> uc_Command c = CmdPrepare \<longrightarrow> (\<forall>d. hc_sha256 cfg d = uc_SHA256 c \<longrightarrow> d \<in> G))"

definition watching :: "soak_phase \<Rightarrow> bool" where
  "watching ph \<longleftrightarrow> (case ph of WaitHealthy f \<Rightarrow> f \<ge> 0 | SoakLoop _ _ \<Rightarrow> True | _ \<Rightarrow> False)"

definition files_ok :: "string set \<Rightarrow> 'z supervised_scheme \<Rightarrow> bool" where
  "files_ok G s \<longleftrightarrow> calm s \<and> sv_pauseCount s = 0 \<and>
     (\<exists>c \<in> G. sl_current s = Some c \<and> (sv_running s \<longrightarrow> sv_bin s = c)) \<and> (\<forall>p. sl_previous s = Some p \<longrightarrow> p \<in> G)"

definition contexts_ok :: "node \<Rightarrow> bool" where
  "contexts_ok s \<longleftrightarrow> (\<forall>k \<in> set (h_cancelled s). k < h_soaks s) \<and> (\<forall>k. h_soakCancel s = Some k \<longrightarrow> k < h_soaks s)"

definition node_ok :: "HandlerConfig \<Rightarrow> string set \<Rightarrow> system \<Rightarrow> bool" where
  "node_ok cfg G sys \<longleftrightarrow>
     (case sys of (s, sk) \<Rightarrow>
        files_ok G s \<and> contexts_ok s \<and>
        h_state s \<in> {StateIdle, StateConfirmed, StateStaged, StateSoaking} \<and>
        (h_state s = StateStaged \<longrightarrow> (\<exists>b \<in> G. sl_staging s = Some b \<and> hc_sha256 cfg b = h_pendingHash s)) \<and>
        (if h_state s = StateSoaking
         then sl_previous s \<noteq> None \<and> sl_staging s = None \<and> hc_sha256 cfg (the (sl_current s)) = h_pendingHash s \<and>
           (\<exists>k ph. sk = Some (k, ph) \<and> watching ph \<and> h_soakCancel s = Some k \<and> k \<notin> set (h_cancelled s))
         else sk = None))"

lemma rollback_soaking:
  assumes "files_ok G s" "sl_current s = Some c" "sl_previous s = Some p" "h_state s \<noteq> StateConfirmed" "h_state s \<noteq> StateIdle"
  shows "exec rollback s = ((), s\<lparr>sl_current := Some p, sl_previous := None, sl_staging := None,
     sv_running := True, sv_generation := sv_generation s + 1, sv_bin := p,
     h_state := StateIdle, h_pendingVersion := '''', h_pendingHash := '''', h_soakPassed := False\<rparr>)"
  using assms by (simp add: rollback_def files_ok_def finally_resume_def Pause_def Resume_def calm_exec)

lemma rollback_first:
  assumes "files_ok G s" "sl_current s = Some c" "sl_previous s = None" "h_state s \<noteq> StateConfirmed" "h_state s \<noteq> StateIdle"
  shows "exec rollback s = ((), s\<lparr>sv_running := True, sv_generation := sv_generation s + 1, sv_bin := c,
     h_state := StateIdle, h_pendingVersion := '''', h_pendingHash := '''', h_soakPassed := False\<rparr>)"
  using assms by (simp add: rollback_def files_ok_def finally_resume_def Pause_def Resume_def calm_exec)

lemma apply_staged:
  assumes "files_ok G s" "sl_current s = Some c" "sl_staging s = Some b" "h_state s = StateStaged"
  shows "exec (handleApply cmd) s = ((response ''applying'')\<lparr>ur_Version := h_pendingVersion s\<rparr>,
     s\<lparr>sl_current := Some b, sl_previous := Some c, sl_staging := None,
       sv_running := True, sv_generation := sv_generation s + 1, sv_bin := b,
       h_state := StateSoaking, h_soakCancel := Some (h_soaks s), h_soaks := h_soaks s + 1, h_soakPassed := False\<rparr>)"
  using assms by (simp add: handleApply_def enter_def files_ok_def finally_resume_def Pause_def Resume_def calm_exec)

lemma prepare_idle:
  assumes "files_ok G s" "h_state s = StateIdle \<or> h_state s = StateConfirmed"
  shows "exec (handlePrepare cfg cmd) s =
     (case Download cfg (uc_ObjectKey cmd) (uc_SHA256 cmd) of
        Inl e \<Rightarrow> (error_response (''download: '' @ e), s\<lparr>h_state := StateIdle\<rparr>)
      | Inr data \<Rightarrow> ((response ''staged'')\<lparr>ur_Hash := uc_SHA256 cmd, ur_Version := uc_Version cmd\<rparr>,
          s\<lparr>sl_staging := Some data, h_state := StateStaged, h_pendingVersion := uc_Version cmd,
            h_pendingHash := uc_SHA256 cmd, h_soakPassed := False\<rparr>))"
proof (cases "Download cfg (uc_ObjectKey cmd) (uc_SHA256 cmd)")
  case (Inl e)
  then show ?thesis using assms by (auto simp: handlePrepare_def enter_def set_state_def)
next
  case (Inr data)
  then have "hc_sha256 cfg data = uc_SHA256 cmd"
    by (auto simp: Download_def Let_def split: sum.splits if_splits)
  then show ?thesis using assms Inr by (auto simp: handlePrepare_def enter_def files_ok_def calm_exec)
qed

lemma confirm_soaking:
  assumes "files_ok G s" "h_state s = StateSoaking" "h_soakCancel s = Some k"
  shows "exec handleConfirm s = ((response ''confirmed'')\<lparr>ur_Version := h_pendingVersion s\<rparr>,
     s\<lparr>sl_staging := None, h_state := StateConfirmed, h_soakPassed := False, h_cancelled := k # h_cancelled s,
       h_soakCancel := None\<rparr>)"
  using assms by (simp add: handleConfirm_def files_ok_def cancel_soak_def calm_exec)

text \<open>A command in a state that does not allow it changes nothing, and the reply tells the state.\<close>

lemma refused:
  "h_state s \<noteq> StateIdle \<and> h_state s \<noteq> StateConfirmed \<Longrightarrow> exec (handlePrepare cfg cmd) s = (refuse ''prepare'' (h_state s), s)"
  "h_state s \<noteq> StateStaged \<Longrightarrow> exec (handleApply cmd) s = (refuse ''apply'' (h_state s), s)"
  "h_state s \<noteq> StateSoaking \<Longrightarrow> exec handleConfirm s = (refuse ''confirm'' (h_state s), s)"
  "h_state s \<notin> {StateSoaking, StateStaged, StateApplying} \<Longrightarrow> exec handleRollback s = (refuse ''rollback'' (h_state s), s)"
  by (simp_all add: handlePrepare_def handleApply_def handleConfirm_def handleRollback_def enter_def)

lemma status_keeps: "snd (exec (handleStatus cfg) s) = s"
  by (simp add: handleStatus_def)

lemma handle_rollback:
  assumes "h_state s \<in> {StateSoaking, StateStaged, StateApplying}"
  shows "exec handleRollback s =
     (response ''rolled_back'', snd (exec rollback (cancel_soak (s\<lparr>h_state := StateRollingBack\<rparr>))))"
  using assms by (auto simp: handleRollback_def split: prod.splits)

lemma cancel_soak_simps [simp]:
  "calm (cancel_soak s) = calm s" "sl_current (cancel_soak s) = sl_current s" "sl_previous (cancel_soak s) = sl_previous s"
  "sl_staging (cancel_soak s) = sl_staging s" "sv_running (cancel_soak s) = sv_running s" "sv_bin (cancel_soak s) = sv_bin s"
  "sv_pauseCount (cancel_soak s) = sv_pauseCount s" "h_state (cancel_soak s) = h_state s" "h_soaks (cancel_soak s) = h_soaks s"
  "h_soakCancel (cancel_soak s) = None"
  "set (h_cancelled (cancel_soak s)) = set_option (h_soakCancel s) \<union> set (h_cancelled s)"
  by (auto simp: cancel_soak_def calm_def split: option.splits)

lemma files_ok_cancel [simp]: "files_ok G (cancel_soak s) = files_ok G s"
  by (simp add: files_ok_def)

lemma files_ok_state [simp]: "files_ok G (s\<lparr>h_state := st\<rparr>) = files_ok G s"
  by (simp add: files_ok_def)

lemma contexts_ok_cancel: "contexts_ok s \<Longrightarrow> contexts_ok (cancel_soak s)"
  by (auto simp: contexts_ok_def)

text \<open>What a rollback leaves behind, whatever the handler was doing.\<close>

lemma rollback_result:
  assumes "files_ok G s" "contexts_ok s" "h_state s \<noteq> StateConfirmed" "h_state s \<noteq> StateIdle"
  defines "s' \<equiv> snd (exec rollback s)"
  shows "files_ok G s'" "contexts_ok s'" "h_state s' = StateIdle" "h_soaks s' = h_soaks s" "h_cancelled s' = h_cancelled s"
    "sl_current s' = (if sl_previous s = None then sl_current s else sl_previous s)"
proof -
  obtain c where c: "sl_current s = Some c" "c \<in> G" using assms(1) by (auto simp: files_ok_def)
  show "files_ok G s'" "contexts_ok s'" "h_state s' = StateIdle" "h_soaks s' = h_soaks s" "h_cancelled s' = h_cancelled s"
    "sl_current s' = (if sl_previous s = None then sl_current s else sl_previous s)"
    using rollback_soaking [OF assms(1) c(1) _ assms(3,4)] rollback_first [OF assms(1) c(1) _ assms(3,4)] assms(1,2) c
    by (cases "sl_previous s"; simp add: s'_def files_ok_def contexts_ok_def)+
qed

lemma node_ok_rollback:
  assumes "files_ok G s" "contexts_ok s" "h_state s \<noteq> StateConfirmed" "h_state s \<noteq> StateIdle"
  shows "node_ok cfg G (snd (exec rollback s), None)"
  using rollback_result [OF assms] by (simp add: node_ok_def)

text \<open>Each command keeps the invariant; \<open>step_ok\<close> is the invariant after a command that left the node in \<open>s'\<close>.\<close>

definition step_ok :: "HandlerConfig \<Rightarrow> string set \<Rightarrow> system \<Rightarrow> node \<Rightarrow> bool" where
  "step_ok cfg G sys s' \<longleftrightarrow> node_ok cfg G (s', after_command (fst sys) s' (snd sys))"

lemma step_ok_same: "node_ok cfg G (s, sk) \<Longrightarrow> step_ok cfg G (s, sk) s"
  by (cases sk) (auto simp: step_ok_def node_ok_def after_command_def split: if_splits)

lemma step_prepare:
  assumes "node_ok cfg G (s, sk)" "\<And>d. hc_sha256 cfg d = uc_SHA256 c \<Longrightarrow> d \<in> G"
  shows "step_ok cfg G (s, sk) (snd (exec (handlePrepare cfg c) s))"
proof (cases "h_state s = StateIdle \<or> h_state s = StateConfirmed")
  case True
  have ok: "files_ok G s" "contexts_ok s" "sk = None" using assms(1) True by (auto simp: node_ok_def)
  have "d \<in> G" "hc_sha256 cfg d = uc_SHA256 c" if "Download cfg (uc_ObjectKey c) (uc_SHA256 c) = Inr d" for d
    using that assms(2) by (auto simp: Download_def Let_def split: sum.splits if_splits)
  then show ?thesis using ok
    by (auto simp: prepare_idle [OF ok(1) True] step_ok_def node_ok_def after_command_def files_ok_def contexts_ok_def
        split: sum.splits)
next
  case False
  then show ?thesis using step_ok_same [OF assms(1)] refused(1) [of s] by simp
qed

lemma step_apply:
  assumes "node_ok cfg G (s, sk)"
  shows "step_ok cfg G (s, sk) (snd (exec (handleApply c) s))"
proof (cases "h_state s = StateStaged")
  case True
  obtain b c' where ok: "files_ok G s" "contexts_ok s" "sl_staging s = Some b" "b \<in> G" "hc_sha256 cfg b = h_pendingHash s"
    "sl_current s = Some c'" "c' \<in> G"
    using assms True by (auto simp: node_ok_def files_ok_def)
  then show ?thesis
    by (auto simp: apply_staged [OF ok(1) ok(6) ok(3) True] step_ok_def node_ok_def after_command_def files_ok_def
        contexts_ok_def watching_def)
next
  case False
  then show ?thesis using step_ok_same [OF assms] refused(2) [of s] by simp
qed

lemma step_confirm:
  assumes "node_ok cfg G (s, sk)"
  shows "step_ok cfg G (s, sk) (snd (exec handleConfirm s))"
proof (cases "h_state s = StateSoaking")
  case True
  then obtain k ph where ok: "files_ok G s" "contexts_ok s" "sk = Some (k, ph)" "h_soakCancel s = Some k"
    using assms by (auto simp: node_ok_def)
  then show ?thesis
    by (auto simp: confirm_soaking [OF ok(1) True ok(4)] step_ok_def node_ok_def after_command_def files_ok_def contexts_ok_def)
next
  case False
  then show ?thesis using step_ok_same [OF assms] refused(3) [of s] by simp
qed

lemma step_rollback:
  assumes "node_ok cfg G (s, sk)"
  shows "step_ok cfg G (s, sk) (snd (exec handleRollback s))"
proof (cases "h_state s \<in> {StateSoaking, StateStaged, StateApplying}")
  case True
  let ?t = "cancel_soak (s\<lparr>h_state := StateRollingBack\<rparr>)"
  have ok: "files_ok G s" "contexts_ok s" using assms by (auto simp: node_ok_def)
  then have r: "files_ok G ?t" "contexts_ok ?t" "h_state ?t \<noteq> StateConfirmed" "h_state ?t \<noteq> StateIdle"
    by (auto simp: contexts_ok_def)
  have "after_command s (snd (exec rollback ?t)) sk = None"
    using assms rollback_result(4,5) [OF r] by (cases sk) (auto simp: after_command_def node_ok_def split: if_splits)
  then show ?thesis using node_ok_rollback [OF r] by (simp add: handle_rollback [OF True] step_ok_def)
next
  case False
  then show ?thesis using step_ok_same [OF assms] refused(4) [of s] by simp
qed

lemma react_command:
  assumes "node_ok cfg G (s, sk)" "announces cfg G (Command m)"
  shows "node_ok cfg G (react cfg (Command m) (s, sk))"
proof -
  have "step_ok cfg G (s, sk) (snd (exec (handleMessage cfg m) s))"
  proof (cases m)
    case (Inr c)
    then show ?thesis
      using step_prepare [OF assms(1)] step_apply [OF assms(1)] step_confirm [OF assms(1)] step_rollback [OF assms(1)]
        step_ok_same [OF assms(1)] assms(2)
      by (simp add: handleMessage_def announces_def status_keeps case_prod_beta)
  qed (use step_ok_same [OF assms(1)] in \<open>simp add: handleMessage_def\<close>)
  then show ?thesis by (simp add: step_ok_def Let_def)
qed

lemma startLocked_ok:
  assumes "files_ok G s"
  shows "files_ok G (snd (startLocked s))"
  using assms by (auto simp: startLocked_def files_ok_def)

text \<open>The handler's part of the state, which the supervisor does not touch.\<close>

definition handler_part :: "node \<Rightarrow> string \<times> string \<times> string \<times> bool \<times> nat option \<times> nat list \<times> nat" where
  "handler_part s = (h_state s, h_pendingVersion s, h_pendingHash s, h_soakPassed s, h_soakCancel s, h_cancelled s, h_soaks s)"

definition same_files :: "node \<Rightarrow> node \<Rightarrow> bool" where
  "same_files s s' \<longleftrightarrow> handler_part s' = handler_part s \<and> sl_current s' = sl_current s \<and>
     sl_previous s' = sl_previous s \<and> sl_staging s' = sl_staging s"

lemma node_ok_same_files:
  "node_ok cfg G (s, sk) \<Longrightarrow> same_files s s' \<Longrightarrow> files_ok G s' \<Longrightarrow> node_ok cfg G (s', sk)"
  by (auto simp: node_ok_def same_files_def handler_part_def contexts_ok_def)

lemma child_exit_same:
  "files_ok G s \<Longrightarrow> files_ok G (snd (exec (childExited g) s))" "same_files s (snd (exec (childExited g) s))"
  by (auto simp: childExited_def files_ok_def same_files_def handler_part_def)

lemma restart_same:
  assumes "files_ok G s"
  shows "files_ok G (snd (exec auto_restart_round s))" "same_files s (snd (exec auto_restart_round s))"
  using assms
  by (auto simp: auto_restart_round_def files_ok_def same_files_def handler_part_def startLocked_def case_prod_beta)

lemma react_soak:
  assumes "node_ok cfg G (s, sk)"
  shows "node_ok cfg G (react cfg (Soak ev) (s, sk))"
proof (cases sk)
  case (Some kp)
  obtain k ph where kp: "kp = (k, ph)" by (cases kp)
  have soaking: "h_state s = StateSoaking" "watching ph" "h_soakCancel s = Some k" "k \<notin> set (h_cancelled s)"
    and ok: "files_ok G s" "contexts_ok s"
    using assms Some kp by (auto simp: node_ok_def split: if_splits)
  have roll: "node_ok cfg G (snd (exec rollback s), None)"
    by (rule node_ok_rollback [OF ok]) (simp_all add: soaking(1))
  have keep: "node_ok cfg G (s\<lparr>h_soakPassed := b\<rparr>, Some (k, ph'))" "node_ok cfg G (s, Some (k, ph'))" if "watching ph'" for b ph'
    using assms Some kp that soaking by (auto simp: node_ok_def files_ok_def contexts_ok_def)
  show ?thesis
  proof (cases ph)
    case (WaitHealthy f)
    then show ?thesis using roll keep soaking(2,4) by (cases ev) (auto simp: Some kp watching_def split: bool.splits)
  next
    case (SoakLoop f p)
    then show ?thesis using roll keep soaking(1,4) by (cases ev) (auto simp: Some kp watching_def)
  qed (use soaking(2) in \<open>simp_all add: watching_def\<close>)
qed (use assms in simp)

lemma node_ok_react:
  assumes "node_ok cfg G sys" "announces cfg G ev"
  shows "node_ok cfg G (react cfg ev sys)"
proof -
  obtain s sk where sys: "sys = (s, sk)" by (cases sys)
  have ok: "files_ok G s" using assms(1) sys by (auto simp: node_ok_def)
  show ?thesis
  proof (cases ev)
    case ChildExit
    then show ?thesis using node_ok_same_files [OF assms(1) [unfolded sys] child_exit_same(2) child_exit_same(1) [OF ok]] sys by simp
  next
    case AutoRestart
    then show ?thesis
      using node_ok_same_files [OF assms(1) [unfolded sys] restart_same(2) [OF ok] restart_same(1) [OF ok]] sys by simp
  qed (use assms sys react_command react_soak in auto)
qed

lemma node_ok_reacts:
  "node_ok cfg G sys \<Longrightarrow> \<forall>ev \<in> set evs. announces cfg G ev \<Longrightarrow> node_ok cfg G (reacts cfg evs sys)"
  unfolding reacts_def by (induction evs arbitrary: sys) (simp_all add: node_ok_react del: split_paired_All)

section \<open>Crashes\<close>

text \<open>
  The watchdog may die after any atomic action of a reaction. At its next start (\<^verbatim>\<open>src/cmd/zester-watchdog/main.go\<close>) it
  recovers the slots, starts the child and makes a new handler.
\<close>

definition NewHandler :: "'z slots_scheme \<Rightarrow> node" where
  "NewHandler fs =
     \<lparr>sl_current = sl_current fs, sl_previous = sl_previous fs, sl_staging = sl_staging fs, sl_faults = sl_faults fs,
      sv_running = False, sv_generation = 0, sv_bin = '''', sv_pauseCount = 0, sv_consecutiveFails = 0, sv_degraded = False,
      h_state = StateIdle, h_pendingVersion = '''', h_pendingHash = '''', h_soakPassed = False, h_soakCancel = None,
      h_cancelled = [], h_soaks = 0\<rparr>"

definition watchdog_start :: "'z slots_scheme \<Rightarrow> node" where
  "watchdog_start fs = snd (exec (and_do Recover (\<lambda>_. Start)) (NewHandler fs))"

text \<open>What the goroutine that handles an event does, as a program.\<close>

fun reaction :: "HandlerConfig \<Rightarrow> event \<Rightarrow> system \<Rightarrow> (node, unit) prog" where
  "reaction cfg (Command m) sys = and_do (handleMessage cfg m) (\<lambda>_. Ret ())"
| "reaction cfg (Soak ev) (s, Some (k, ph)) =
     (case soak_step cfg k ev ph s of (SoakRollback p, s') \<Rightarrow> p | (_, s') \<Rightarrow> Ret ())"
| "reaction cfg (Soak ev) (s, None) = Ret ()"
| "reaction cfg ChildExit (s, sk) = childExited (sv_generation s)"
| "reaction cfg AutoRestart sys = auto_restart_round"

text \<open>An event that the node handles, or one during which, after \<open>n\<close> actions, the watchdog dies and is started again.\<close>

datatype life = Handled event | Died nat event

fun life_event :: "life \<Rightarrow> event" where
  "life_event (Handled ev) = ev"
| "life_event (Died n ev) = ev"

fun live :: "HandlerConfig \<Rightarrow> life \<Rightarrow> system \<Rightarrow> system" where
  "live cfg (Handled ev) sys = react cfg ev sys"
| "live cfg (Died n ev) sys = (watchdog_start (crash n (reaction cfg ev sys) (fst sys)), None)"

definition lives :: "HandlerConfig \<Rightarrow> life list \<Rightarrow> system \<Rightarrow> system" where
  "lives cfg ls sys = fold (live cfg) ls sys"

lemma files_ok_slots:
  assumes "files_ok G s" "\<forall>b. sl_staging s = Some b \<longrightarrow> b \<in> G"
  shows "good_slots G s" "next_fault s = None"
  using assms by (auto simp: files_ok_def good_slots_def)

lemma files_ok_restorable: "files_ok G s \<Longrightarrow> restorable G s \<and> sl_current s \<noteq> None"
  by (auto simp: files_ok_def restorable_eq)

text \<open>Actions on the supervisor and the handler leave the files alone.\<close>

lemma restorable_fields [simp]:
  "restorable G (t\<lparr>sv_running := r\<rparr>) = restorable G t" "restorable G (t\<lparr>sv_generation := g\<rparr>) = restorable G t"
  "restorable G (t\<lparr>sv_bin := b\<rparr>) = restorable G t" "restorable G (t\<lparr>sv_pauseCount := i\<rparr>) = restorable G t"
  "restorable G (t\<lparr>sv_consecutiveFails := i\<rparr>) = restorable G t" "restorable G (t\<lparr>sv_degraded := r\<rparr>) = restorable G t"
  "restorable G (n\<lparr>h_state := st\<rparr>) = restorable G n" "restorable G (n\<lparr>h_pendingVersion := st\<rparr>) = restorable G n"
  "restorable G (n\<lparr>h_pendingHash := st\<rparr>) = restorable G n" "restorable G (n\<lparr>h_soakPassed := r\<rparr>) = restorable G n"
  "restorable G (n\<lparr>h_soakCancel := o'\<rparr>) = restorable G n" "restorable G (n\<lparr>h_soaks := k\<rparr>) = restorable G n"
  "restorable G (tick s) = restorable G s" "restorable G (cancel_soak m) = restorable G m"
  by (simp_all add: restorable_eq split: option.splits)

text \<open>Every reaction of a node in order can be cut off anywhere.\<close>

definition keeps :: "('s \<Rightarrow> bool) \<Rightarrow> ('s, 'a) prog \<Rightarrow> bool" where
  "keeps P p \<longleftrightarrow> (\<forall>s. P s \<longrightarrow> always P p s)"

lemma keeps_always: "keeps P p \<Longrightarrow> P s \<Longrightarrow> always P p s"
  by (simp add: keeps_def)

lemma keeps_Ret: "keeps P (Ret a)"
  by (simp add: keeps_def always_Ret)

lemma keeps_act: "(\<And>s. P s \<Longrightarrow> P (snd (f s))) \<Longrightarrow> keeps P (act f)"
  by (simp add: keeps_def always_act)

lemma keeps_and_do: "keeps P p \<Longrightarrow> (\<And>a. keeps P (k a)) \<Longrightarrow> keeps P (and_do p k)"
  unfolding keeps_def by (blast intro: always_and_do dest: always_exec)

lemma always_then: "always P p s \<Longrightarrow> (\<And>a. keeps P (k a)) \<Longrightarrow> always P (and_do p k) s"
  unfolding keeps_def by (blast intro: always_and_do dest: always_exec)

lemma always_act_then: "P s \<Longrightarrow> P (snd (f s)) \<Longrightarrow> always P (k (fst (f s))) (snd (f s)) \<Longrightarrow> always P (and_do (act f) k) s"
  by (rule always_and_do [OF always_act]) auto

lemma always_run:
  assumes "always P p s" "exec p s = (a, s')" "P s' \<Longrightarrow> always P (k a) s'"
  shows "always P (and_do p k) s"
  by (rule always_and_do [OF assms(1)]) (use assms always_exec [OF assms(1,2)] in simp)

lemma keeps_If: "keeps P p \<Longrightarrow> keeps P q \<Longrightarrow> keeps P (if b then p else q)"
  by simp

lemmas keeps_intros = keeps_and_do keeps_If keeps_act keeps_Ret

lemma supervisor_keeps:
  "keeps (restorable G) Start" "keeps (restorable G) Stop" "keeps (restorable G) Pause" "keeps (restorable G) Resume"
  "keeps (restorable G) (childExited g)" "keeps (restorable G) auto_restart_round" "keeps (restorable G) (set_state st)"
  unfolding Start_def Stop_def Pause_def Resume_def childExited_def auto_restart_round_def set_state_def
  by (intro keeps_intros; auto simp: startLocked_def split: option.splits prod.splits if_splits)+

lemma finally_restorable: "always (restorable G) p s \<Longrightarrow> always (restorable G) (finally_resume p) s"
  unfolding finally_resume_def by (auto intro!: always_then keeps_intros supervisor_keeps)

lemma rollback_restorable:
  assumes "files_ok G s" "\<forall>b. sl_staging s = Some b \<longrightarrow> b \<in> G"
  shows "always (restorable G) rollback s"
proof -
  have r: "restorable G s" using files_ok_restorable [OF assms(1)] by simp
  let ?t = "s\<lparr>h_state := StateRollingBack, sv_pauseCount := sv_pauseCount s + 1\<rparr>"
  have t: "good_slots G ?t" "calm ?t" using assms by (auto simp: files_ok_def good_slots_def)
  have stop: "exec Stop ?t = (None, ?t\<lparr>sv_running := False\<rparr>)" by (rule calm_Stop [OF t(2)])
  have roll: "always (restorable G) Slots_Rollback (?t\<lparr>sv_running := False\<rparr>)"
    by (rule Rollback_restorable) (use t in \<open>simp_all add: good_slots_def\<close>)
  have rest: "keeps (restorable G) (and_do Start (\<lambda>_. and_do (act (\<lambda>s. ((), s\<lparr>h_state := StateIdle, h_pendingVersion := '''',
      h_pendingHash := '''', h_soakPassed := False\<rparr>))) (\<lambda>a. and_do Resume (\<lambda>_. Ret a))))"
    by (intro keeps_intros supervisor_keeps) simp
  have "always (restorable G) (and_do Stop (\<lambda>_. and_do Slots_Rollback (\<lambda>_. and_do Start (\<lambda>_. and_do (act (\<lambda>s. ((), s\<lparr>h_state := StateIdle,
      h_pendingVersion := '''', h_pendingHash := '''', h_soakPassed := False\<rparr>))) (\<lambda>a. and_do Resume (\<lambda>_. Ret a)))))) ?t"
    by (rule always_and_do [OF keeps_always [OF supervisor_keeps(2)]])
      (use r stop always_then [OF roll rest] in auto)
  then show ?thesis using r unfolding rollback_def finally_resume_def Pause_def
    by (intro always_act_then) (auto simp: and_do_assoc intro!: always_act_then always_Ret)
qed

lemma apply_body_restorable:
  fixes t :: node
  assumes "good_slots G t" "calm t" "sl_current t = Some c" "sl_staging t = Some b"
    and f: "\<And>s. restorable G s \<Longrightarrow> restorable G (snd (f s))"
  shows "always (restorable G) (and_do Stop (\<lambda>_. and_do Slots_Apply (case_option (and_do Start (case_option (act f) g)) h))) t"
proof -
  let ?u = "t\<lparr>sv_running := False\<rparr>"
  let ?v = "?u\<lparr>sl_current := Some b, sl_previous := Some c, sl_staging := None\<rparr>"
  have t: "restorable G t" using assms by (auto simp: good_slots_def restorable_eq)
  have app: "always (restorable G) Slots_Apply ?u" "exec Slots_Apply ?u = (None, ?v)"
    using assms Apply_restorable [of G ?u] calm_Apply [of ?u] by (simp_all add: good_slots_def)
  have v: "restorable G ?v" "exec Start ?v = (None, ?v\<lparr>sv_running := True, sv_generation := sv_generation t + 1, sv_bin := b\<rparr>)"
    using always_exec [OF app] calm_Start [of ?v b] assms(2) by simp_all
  show ?thesis
    by (rule always_run [OF keeps_always [OF supervisor_keeps(2) t] calm_Stop [OF assms(2)]], rule always_run [OF app], simp only: option.case,
        rule always_run [OF keeps_always [OF supervisor_keeps(1) v(1)] v(2)], simp only: option.case)
      (simp add: always_act f)
qed

lemma apply_restorable:
  assumes "files_ok G s" "sl_staging s = Some b" "b \<in> G" "h_state s = StateStaged"
  shows "always (restorable G) (handleApply cmd) s"
proof -
  have r: "restorable G s" using files_ok_restorable [OF assms(1)] by simp
  obtain c where c: "sl_current s = Some c" using assms(1) by (auto simp: files_ok_def)
  show ?thesis unfolding handleApply_def enter_def Pause_def
    by (rule always_act_then, simp add: r, simp add: r, simp only: assms(4) refl if_True fst_conv snd_conv option.case,
        rule always_act_then, simp add: r, simp add: r, rule finally_restorable, rule apply_body_restorable)
      (use assms c in \<open>auto simp: files_ok_def good_slots_def\<close>)
qed

lemma step_restorable:
  assumes "node_ok cfg G (s, sk)"
  shows "always (restorable G) (handlePrepare cfg c) s" "always (restorable G) (handleApply c) s"
    "always (restorable G) handleConfirm s" "always (restorable G) handleRollback s" "always (restorable G) (handleStatus cfg) s"
proof -
  have ok: "files_ok G s" using assms by (simp add: node_ok_def)
  have r: "restorable G s" "sl_current s \<noteq> None" using files_ok_restorable [OF ok] by auto
  have upd: "restorable G (s\<lparr>h_state := st\<rparr>)" for st using r by simp
  show "always (restorable G) (handlePrepare cfg c) s"
  proof -
    have "keeps (restorable G) (and_do (set_state st) (\<lambda>_. Ret a))" for st and a :: UpdateResponse
      by (intro keeps_intros supervisor_keeps)
    note idle = this and keeps_always [OF this]
    then show ?thesis unfolding handlePrepare_def enter_def
      by (intro always_act_then)
        (use r upd in \<open>auto split: sum.split option.split intro!: always_Ret always_then [OF Stage_restorable] keeps_intros idle\<close>)
  qed
  show "always (restorable G) (handleApply c) s"
  proof (cases "h_state s = StateStaged")
    case True
    then show ?thesis using apply_restorable [OF ok _ _ True] assms by (auto simp: node_ok_def)
  next
    case False
    then show ?thesis unfolding handleApply_def enter_def using r by (intro always_act_then) (auto intro: always_Ret)
  qed
  show "always (restorable G) handleConfirm s"
    unfolding handleConfirm_def
    by (intro always_act_then) (use r in \<open>auto intro!: always_Ret keeps_Ret always_then [OF Confirm_restorable]\<close>)
  show "always (restorable G) handleRollback s"
  proof (cases "h_state s \<in> {StateSoaking, StateStaged, StateApplying}")
    case True
    then have "always (restorable G) rollback (cancel_soak (s\<lparr>h_state := StateRollingBack\<rparr>))"
      using ok assms by (intro rollback_restorable) (auto simp: node_ok_def)
    then show ?thesis unfolding handleRollback_def using r True
      by (intro always_act_then) (auto intro!: always_then keeps_Ret)
  next
    case False
    then show ?thesis unfolding handleRollback_def using r by (intro always_act_then) (auto intro: always_Ret)
  qed
  show "always (restorable G) (handleStatus cfg) s"
    unfolding handleStatus_def using r by (intro always_act_then always_act) auto
qed

lemma reaction_restorable:
  assumes "node_ok cfg G (s, sk)"
  shows "always (restorable G) (reaction cfg ev (s, sk)) s"
proof -
  have ok: "files_ok G s" using assms by (simp add: node_ok_def)
  have r: "restorable G s" using files_ok_restorable [OF ok] by simp
  show ?thesis
  proof (cases ev)
    case (Command m)
    have "always (restorable G) (handleMessage cfg m) s"
      using step_restorable [OF assms] r
      by (auto simp: handleMessage_def split: sum.split intro!: always_Ret always_then keeps_Ret)
    then show ?thesis using Command by (auto intro!: always_then keeps_Ret)
  next
    case (Soak e)
    show ?thesis
    proof (cases sk)
      case (Some kp)
      obtain k ph where kp: "kp = (k, ph)" by (cases kp)
      have soaking: "h_state s = StateSoaking" "watching ph" "sl_staging s = None"
        using assms Some kp by (auto simp: node_ok_def split: if_splits)
      have "always (restorable G) rollback s" using soaking(3) by (intro rollback_restorable [OF ok]) simp
      then show ?thesis using Soak Some kp soaking(2) r
        by (cases ph; cases e) (auto simp: watching_def intro!: always_Ret split: bool.split)
    qed (use Soak r in \<open>auto intro: always_Ret\<close>)
  qed (use r keeps_always [OF supervisor_keeps(5)] keeps_always [OF supervisor_keeps(6)] in auto)
qed

lemma calm_Recover:
  assumes "calm s"
  shows "exec Recover s = (None,
     case sl_current s of Some c \<Rightarrow> s
     | None \<Rightarrow> case sl_staging s of Some b \<Rightarrow> s\<lparr>sl_current := Some b, sl_staging := None\<rparr>
     | None \<Rightarrow> case sl_previous s of Some p \<Rightarrow> s\<lparr>sl_current := Some p, sl_previous := None\<rparr> | None \<Rightarrow> s)"
  using assms by (simp add: Recover_def os_defs split: option.split)

lemma start_recovered:
  assumes "calm s" "restorable G s"
  shows "node_ok cfg G (watchdog_start s, None)"
proof -
  define t where "t = snd (exec Recover (NewHandler s))"
  have n: "calm (NewHandler s)" "restorable G (NewHandler s)" "\<not> sv_running (NewHandler s)" "sv_pauseCount (NewHandler s) = 0"
    "h_state (NewHandler s) = StateIdle" "contexts_ok (NewHandler s)"
    using assms by (simp_all add: NewHandler_def calm_def restorable_eq contexts_ok_def split: option.splits)
  obtain c where c: "sl_current t = Some c" "c \<in> G" "calm t" "\<forall>p. sl_previous t = Some p \<longrightarrow> p \<in> G"
    "\<not> sv_running t" "sv_pauseCount t = 0" "h_state t = StateIdle" "contexts_ok t"
    using n unfolding t_def calm_Recover [OF n(1)] by (auto simp: restorable_eq contexts_ok_def split: option.splits)
  have "watchdog_start s = snd (exec Start t)" by (simp add: watchdog_start_def t_def case_prod_beta)
  then show ?thesis using c by (simp add: calm_Start node_ok_def files_ok_def contexts_ok_def)
qed

lemma keeps_case:
  "keeps P p \<Longrightarrow> (\<And>a. keeps P (q a)) \<Longrightarrow> keeps P (case_option p q o')"
  "(\<And>a. keeps P (f a)) \<Longrightarrow> (\<And>b. keeps P (g b)) \<Longrightarrow> keeps P (case_sum f g r)"
  by (simp_all split: option.split sum.split)

lemma calm_slot: "calm s \<Longrightarrow> calm (set_content p d s)"
  by (cases p) simp_all

lemma system_calls_keep_calm:
  "keeps calm (os_Stat p)" "keeps calm (os_Remove p)" "keeps calm (os_Rename p q)" "keeps calm (os_WriteFile p data)"
  "keeps calm (hashFile sha256 p)"
  unfolding os_defs by (intro keeps_intros keeps_case; auto simp: calm_slot split: option.splits prod.splits)+

lemma slots_keep_calm:
  "keeps calm (Stage sha256 data h)" "keeps calm Slots_Apply" "keeps calm Slots_Rollback" "keeps calm Slots_Confirm"
  unfolding Stage_def Slots_Apply_def Apply_swap_def Slots_Rollback_def Slots_Confirm_def
  by (intro keeps_intros keeps_case system_calls_keep_calm)+

lemma supervisor_keeps_calm:
  "keeps calm Start" "keeps calm Stop" "keeps calm Pause" "keeps calm Resume"
  "keeps calm (childExited g)" "keeps calm auto_restart_round" "keeps calm (set_state st)" "keeps calm (enter ok st)"
  unfolding Start_def Stop_def Pause_def Resume_def childExited_def auto_restart_round_def set_state_def enter_def
  by (intro keeps_intros; auto simp: startLocked_def split: option.splits prod.splits if_splits)+

lemma rollback_keeps_calm: "keeps calm rollback"
  unfolding rollback_def finally_resume_def
  by (intro keeps_intros keeps_case slots_keep_calm supervisor_keeps_calm) (auto split: if_splits)

lemma commands_keep_calm:
  "keeps calm (handlePrepare cfg c)" "keeps calm (handleApply c)" "keeps calm handleConfirm" "keeps calm handleRollback"
  "keeps calm (handleStatus cfg)"
  unfolding handlePrepare_def handleApply_def handleConfirm_def handleRollback_def handleStatus_def finally_resume_def
  by (intro keeps_intros keeps_case slots_keep_calm supervisor_keeps_calm rollback_keeps_calm; auto split: if_splits)+

lemma reaction_keeps_calm:
  assumes "node_ok cfg G (s, sk)"
  shows "keeps calm (reaction cfg ev (s, sk))"
proof (cases ev)
  case (Command m)
  have "keeps calm (handleMessage cfg m)"
    unfolding handleMessage_def by (intro keeps_intros keeps_case commands_keep_calm)
  then show ?thesis using Command by (simp add: keeps_intros)
next
  case (Soak e)
  have "watching (snd (the sk))" if "sk \<noteq> None" using assms that by (auto simp: node_ok_def split: if_splits)
  then show ?thesis using rollback_keeps_calm Soak
    by (cases sk; cases "snd (the sk)"; cases e) (auto simp: keeps_Ret watching_def split: bool.split)
qed (simp_all add: supervisor_keeps_calm)

lemma crash_calm:
  assumes "calm s" "keeps calm p"
  shows "calm (crash n p s)"
  using keeps_always [OF assms(2,1)] by (simp add: always_def)

lemma node_ok_live:
  assumes "node_ok cfg G sys" "announces cfg G (life_event l)"
  shows "node_ok cfg G (live cfg l sys)"
proof (cases l)
  case (Died n ev)
  obtain s sk where sys: "sys = (s, sk)" by (cases sys)
  have "calm s" using assms(1) sys by (simp add: node_ok_def files_ok_def)
  then have "calm (crash n (reaction cfg ev sys) s)" using crash_calm reaction_keeps_calm [OF assms(1) [unfolded sys]] sys by blast
  moreover have "restorable G (crash n (reaction cfg ev sys) s)"
    using reaction_restorable [OF assms(1) [unfolded sys]] sys by (simp add: always_def)
  ultimately show ?thesis using start_recovered Died sys by simp
qed (use assms node_ok_react in simp)

lemma node_ok_lives:
  "node_ok cfg G sys \<Longrightarrow> \<forall>l \<in> set ls. announces cfg G (life_event l) \<Longrightarrow> node_ok cfg G (lives cfg ls sys)"
  unfolding lives_def by (induction ls arbitrary: sys) (simp_all add: node_ok_live del: split_paired_All)

section \<open>Every soak comes to an end\<close>

definition soaking_with :: "string \<Rightarrow> string \<Rightarrow> system \<Rightarrow> bool" where
  "soaking_with new old sys \<longleftrightarrow>
     h_state (fst sys) = StateSoaking \<and> sl_current (fst sys) = Some new \<and> sl_previous (fst sys) = Some old"

definition is_confirm :: "event \<Rightarrow> bool" where
  "is_confirm ev \<longleftrightarrow> (\<exists>c. ev = Command (Inr c) \<and> uc_Command c = CmdConfirm)"

text \<open>The update is confirmed, or the node is back on its old binary.\<close>

definition resolved :: "string \<Rightarrow> string \<Rightarrow> event \<Rightarrow> system \<Rightarrow> bool" where
  "resolved new old ev sys \<longleftrightarrow>
     (is_confirm ev \<and> h_state (fst sys) = StateConfirmed \<and> sl_current (fst sys) = Some new) \<or>
     (h_state (fst sys) = StateIdle \<and> sl_current (fst sys) = Some old)"

text \<open>How many probes the goroutine may still take until it listens to its deadline.\<close>

definition probes_left :: "HandlerConfig \<Rightarrow> system \<Rightarrow> int" where
  "probes_left cfg sys =
     (case snd sys of Some (k, WaitHealthy f) \<Rightarrow> max 1 (hc_HealthRetries cfg - f) | _ \<Rightarrow> 0)"

fun is_probe :: "event \<Rightarrow> bool" where
  "is_probe (Soak (Probe b)) = True"
| "is_probe ev = False"

lemma soaking_rollback:
  assumes "node_ok cfg G (s, sk)" "soaking_with new old (s, sk)"
  shows "resolved new old ev (snd (exec rollback s), sk')"
    "resolved new old ev (snd (exec rollback (cancel_soak (s\<lparr>h_state := StateRollingBack\<rparr>))), sk')"
proof -
  have ok: "files_ok G s" "contexts_ok s" using assms(1) by (auto simp: node_ok_def)
  show "resolved new old ev (snd (exec rollback s), sk')"
    using rollback_result [OF ok] assms(2) by (simp add: resolved_def soaking_with_def)
  have "contexts_ok (cancel_soak (s\<lparr>h_state := StateRollingBack\<rparr>))" using ok(2) by (auto simp: contexts_ok_def)
  then show "resolved new old ev (snd (exec rollback (cancel_soak (s\<lparr>h_state := StateRollingBack\<rparr>))), sk')"
    using rollback_result [of G "cancel_soak (s\<lparr>h_state := StateRollingBack\<rparr>)"] ok(1) assms(2)
    by (simp add: resolved_def soaking_with_def)
qed

lemma soaking_command:
  assumes "node_ok cfg G (s, sk)" "soaking_with new old (s, sk)"
  shows "react cfg (Command m) (s, sk) = (s, sk) \<or> resolved new old (Command m) (react cfg (Command m) (s, sk))"
proof -
  have st: "h_state s = StateSoaking" and cur: "sl_current s = Some new" using assms(2) by (auto simp: soaking_with_def)
  obtain k ph where sk: "sk = Some (k, ph)" "h_soakCancel s = Some k" "k \<notin> set (h_cancelled s)"
    and ok: "files_ok G s"
    using assms(1) st by (auto simp: node_ok_def)
  have same: "after_command s s sk = sk" using sk by (simp add: after_command_def)
  show ?thesis
  proof (cases m)
    case (Inr c)
    then show ?thesis
      using same refused(1,2) [of s] st cur confirm_soaking [OF ok st sk(2)] handle_rollback [of s] soaking_rollback(2) [OF assms]
      by (auto simp: handleMessage_def status_keeps case_prod_beta resolved_def is_confirm_def Let_def)
  qed (use same in \<open>simp add: handleMessage_def\<close>)
qed

lemma soaking_soak:
  assumes "node_ok cfg G (s, sk)" "soaking_with new old (s, sk)"
  shows "(soaking_with new old (react cfg (Soak ev) (s, sk)) \<and>
           probes_left cfg (react cfg (Soak ev) (s, sk)) \<le> probes_left cfg (s, sk) - (if is_probe (Soak ev) \<and> probes_left cfg (s, sk) > 0 then 1 else 0) \<and>
           (ev = DeadlineFired \<longrightarrow> probes_left cfg (s, sk) > 0)) \<or>
         resolved new old (Soak ev) (react cfg (Soak ev) (s, sk))"
proof -
  obtain k ph where sk: "sk = Some (k, ph)" "watching ph" "k \<notin> set (h_cancelled s)"
    using assms by (auto simp: node_ok_def soaking_with_def)
  show ?thesis
  proof (cases ph)
    case (WaitHealthy f)
    then show ?thesis using sk assms(2) soaking_rollback(1) [OF assms]
      by (cases ev) (auto simp: probes_left_def soaking_with_def split: bool.splits)
  next
    case (SoakLoop f p)
    then show ?thesis using sk assms(2) soaking_rollback(1) [OF assms]
      by (cases ev) (auto simp: probes_left_def soaking_with_def)
  qed (use sk(2) in \<open>simp_all add: watching_def\<close>)
qed

lemma soaking_react:
  assumes "node_ok cfg G sys" "soaking_with new old sys"
  shows "(soaking_with new old (react cfg ev sys) \<and>
           probes_left cfg (react cfg ev sys) \<le> probes_left cfg sys - (if is_probe ev \<and> probes_left cfg sys > 0 then 1 else 0) \<and>
           (ev = Soak DeadlineFired \<longrightarrow> probes_left cfg sys > 0)) \<or>
         resolved new old ev (react cfg ev sys)"
proof -
  obtain s sk where sys: "sys = (s, sk)" by (cases sys)
  have ok: "files_ok G s" using assms(1) sys by (auto simp: node_ok_def)
  show ?thesis
  proof (cases ev)
    case (Command m)
    then show ?thesis using soaking_command [OF assms [unfolded sys], of m] assms(2) sys
      by (auto simp: simp del: react.simps)
  next
    case (Soak e)
    then show ?thesis using soaking_soak [OF assms [unfolded sys], of e] sys by (simp del: react.simps)
  next
    case ChildExit
    then show ?thesis using child_exit_same(2) [of s "sv_generation s"] assms(2) sys
      by (simp add: soaking_with_def same_files_def handler_part_def probes_left_def)
  next
    case AutoRestart
    then show ?thesis using restart_same(2) [OF ok] assms(2) sys
      by (simp add: soaking_with_def same_files_def handler_part_def probes_left_def)
  qed
qed

lemma soak_ends:
  assumes "node_ok cfg G sys" "soaking_with new old sys" "\<forall>ev \<in> set (evs @ evs'). announces cfg G ev"
    and "int (length (filter is_probe evs)) \<ge> probes_left cfg sys"
  shows "\<exists>pre ev post. evs @ Soak DeadlineFired # evs' = pre @ ev # post \<and> length pre \<le> length evs \<and>
     soaking_with new old (reacts cfg pre sys) \<and> resolved new old ev (reacts cfg (pre @ [ev]) sys)"
  using assms
proof (induction evs arbitrary: sys)
  case Nil
  then have "resolved new old (Soak DeadlineFired) (react cfg (Soak DeadlineFired) sys)"
    using soaking_react [OF Nil.prems(1,2), of "Soak DeadlineFired"] by auto
  then show ?case using Nil.prems(2)
    by (intro exI [of _ "[]"] exI [of _ "Soak DeadlineFired"] exI [of _ evs']) (simp add: reacts_def)
next
  case (Cons e evs)
  show ?case
  proof (cases "resolved new old e (react cfg e sys)")
    case True
    then show ?thesis using Cons.prems(2)
      by (intro exI [of _ "[]"] exI [of _ e] exI [of _ "evs @ Soak DeadlineFired # evs'"]) (simp add: reacts_def)
  next
    case False
    then have step: "soaking_with new old (react cfg e sys)"
      "probes_left cfg (react cfg e sys) \<le> probes_left cfg sys - (if is_probe e \<and> probes_left cfg sys > 0 then 1 else 0)"
      using soaking_react [OF Cons.prems(1,2), of e] by auto
    have "probes_left cfg (react cfg e sys) \<le> int (length (filter is_probe evs))"
      using step(2) Cons.prems(4) by (auto split: if_splits)
    then obtain pre ev post where "evs @ Soak DeadlineFired # evs' = pre @ ev # post" "length pre \<le> length evs"
      "soaking_with new old (reacts cfg pre (react cfg e sys))" "resolved new old ev (reacts cfg (pre @ [ev]) (react cfg e sys))"
      using Cons.IH [OF node_ok_react [OF Cons.prems(1)] step(1)] Cons.prems(3) by auto
    then show ?thesis
      by (intro exI [of _ "e # pre"] exI [of _ ev] exI [of _ post]) (simp add: reacts_def)
  qed
qed

section \<open>Two goroutines\<close>

text \<open>
  The command goroutine and the soak goroutine, one atomic action at a time: an entry \<open>None\<close> of the schedule
  runs the command, \<open>Some ev\<close> the soak goroutine (with the event it receives, if it waits for one).
\<close>

fun interleave ::
  "HandlerConfig \<Rightarrow> nat \<Rightarrow> soak_event option list \<Rightarrow> (node, 'a) prog \<Rightarrow> soak_phase \<Rightarrow> node \<Rightarrow> (node, 'a) prog \<times> soak_phase \<times> node" where
  "interleave cfg k [] p ph s = (p, ph, s)"
| "interleave cfg k (None # sched) p ph s =
     (case step_prog p s of (p', s') \<Rightarrow> interleave cfg k sched p' ph s')"
| "interleave cfg k (Some ev # sched) p ph s =
     (case soak_step cfg k ev ph s of (ph', s') \<Rightarrow> interleave cfg k sched p ph' s')"

declare and_do_assoc [simp]

lemma soak_step_rollback [simp]:
  "soak_step cfg k ev (SoakRollback (and_do (act f) c)) s = (SoakRollback (c (fst (f s))), snd (f s))"
  "soak_step cfg k ev (SoakRollback (act g)) s = (SoakRollback (Ret (fst (g s))), snd (g s))"
  "soak_step cfg k ev (SoakRollback (Ret a)) s = (SoakDone, s)"
  by (cases "f s"; cases "g s"; simp add: act_def)+

declare soak_step.simps(3) [simp del]

text \<open>
  Both goroutines look at the slots, then the command restores the previous binary, then the soak goroutine
  removes it again.
\<close>

definition losing_schedule :: "soak_event option list" where
  "losing_schedule =
     (let d = Some DeadlineFired; c = None in
      [d, c, d, c, c, c, d, d, c, c, d, d, c, c, d, d, c, c, c, c, d, d, d, d])"

lemma losing_run:
  "case interleave cfg k losing_schedule handleRollback (SoakLoop f p)
     \<lparr>sl_current = Some new, sl_previous = Some old, sl_staging = None, sl_faults = [],
      sv_running = running, sv_generation = g, sv_bin = b, sv_pauseCount = 0, sv_consecutiveFails = cf, sv_degraded = dg,
      h_state = StateSoaking, h_pendingVersion = v, h_pendingHash = h, h_soakPassed = sp, h_soakCancel = Some k,
      h_cancelled = ks, h_soaks = n\<rparr> of
     (Ret r, SoakDone, s) \<Rightarrow> sl_faults s = [] \<and> h_state s = StateIdle \<and> recovered s = None
   | _ \<Rightarrow> False"
proof (cases running)
  case True
  show ?thesis unfolding True [THEN Eq_TrueI] by code_simp
next
  case False
  show ?thesis unfolding False [THEN Eq_FalseI] by code_simp
qed

lemma losing_race:
  assumes "node_ok cfg G (s, Some (k, SoakLoop f p))" "h_state s = StateSoaking"
  shows "case interleave cfg k losing_schedule handleRollback (SoakLoop f p) s of
     (Ret r, SoakDone, s') \<Rightarrow> sl_faults s' = [] \<and> h_state s' = StateIdle \<and> recovered s' = None
   | _ \<Rightarrow> False"
proof -
  obtain new old where s: "sl_faults s = []" "sl_current s = Some new" "sl_previous s = Some old" "sl_staging s = None"
    "sv_pauseCount s = 0" "h_soakCancel s = Some k"
    using assms by (auto simp: node_ok_def files_ok_def calm_def)
  let ?s = "\<lparr>sl_current = Some new, sl_previous = Some old, sl_staging = None, sl_faults = [],
      sv_running = sv_running s, sv_generation = sv_generation s, sv_bin = sv_bin s, sv_pauseCount = 0,
      sv_consecutiveFails = sv_consecutiveFails s, sv_degraded = sv_degraded s,
      h_state = StateSoaking, h_pendingVersion = h_pendingVersion s, h_pendingHash = h_pendingHash s,
      h_soakPassed = h_soakPassed s, h_soakCancel = Some k, h_cancelled = h_cancelled s, h_soaks = h_soaks s\<rparr>"
  have eq: "?s = s" using s assms(2) by simp
  have "case interleave cfg k losing_schedule handleRollback (SoakLoop f p) ?s of
      (Ret r, SoakDone, s') \<Rightarrow> sl_faults s' = [] \<and> h_state s' = StateIdle \<and> recovered s' = None | _ \<Rightarrow> False"
    by (rule losing_run)
  then show ?thesis unfolding eq .
qed

section \<open>Properties\<close>


text \<open>
  C0: a failing \<^verbatim>\<open>os.Stat\<close> costs a node its binary. \<^verbatim>\<open>Rollback\<close> gives up only if \<^verbatim>\<open>os.IsNotExist\<close> holds of the error
  for the previous slot; any other error counts as a previous binary. So if that call fails once on a node
  without a previous binary, the rollback removes the current binary and then finds nothing to put in its place. In the same way
  \<^verbatim>\<open>Recover\<close> takes every error for the current slot as a missing file: if that call fails once at a start and there is a staging file,
  the staging file replaces the binary.
\<close>
theorem stat_error_loses_binary:
  assumes "sl_current s = Some c" "e \<noteq> no_such_file"
  shows "(sl_previous s = None \<and> sl_faults s = [Some (e, k)] \<longrightarrow>
       (case exec Slots_Rollback s of (err, s') \<Rightarrow>
          err = Some (''update: rollback: previous to current: '' @ no_such_file) \<and> sl_current s' = None \<and>
          sl_previous s' = None \<and> recovered s' = sl_staging s)) \<and>
     (sl_staging s = Some b \<and> sl_faults s = [None, Some (e, k)] \<longrightarrow>
       (case exec Recover s of (err, s') \<Rightarrow> err = None \<and> sl_current s' = Some b \<and> sl_staging s' = None))"
  using assms by (auto simp: Slots_Rollback_def Recover_def os_defs call_error_def next_fault_def tick_def recovered_eq
      split: option.splits)



text \<open>
  C32: rolling back a node that has only staged an update downgrades it. A node that runs \<open>cur\<close> with an older
  binary in its previous slot is told to prepare an update and then, because the rollout is aborted, to roll back:
  it ends up on the older binary, although \<open>cur\<close> was never replaced.
\<close>
theorem rollback_of_staged_downgrades:
  assumes "node_ok cfg G (s, None)" "h_state s = StateIdle \<or> h_state s = StateConfirmed"
    and "sl_current s = Some cur" "sl_previous s = Some older"
    and "Download cfg (uc_ObjectKey c) (uc_SHA256 c) = Inr data" "uc_Command c = CmdPrepare" "uc_Component c = ''''"
    and "uc_Command r = CmdRollback" "uc_Component r = ''''" "announces cfg G (Command (Inr c))"
  shows "case reacts cfg [Command (Inr c), Command (Inr r)] (s, None) of (s', sk) \<Rightarrow>
     h_state s' = StateIdle \<and> sl_current s' = Some older \<and> sl_previous s' = None \<and> sv_bin s' = older \<and> sv_running s'"
proof -
  have ok: "files_ok G s" using assms(1) by (simp add: node_ok_def)
  let ?s = "s\<lparr>sl_staging := Some data, h_state := StateStaged, h_pendingVersion := uc_Version c,
      h_pendingHash := uc_SHA256 c, h_soakPassed := False\<rparr>"
  have s1: "fst (react cfg (Command (Inr c)) (s, None)) = ?s"
    using assms(5-7) by (simp add: handleMessage_def prepare_idle [OF ok assms(2)] Let_def)
  have f1: "files_ok G ?s" using ok by (simp add: files_ok_def)
  let ?t = "cancel_soak (?s\<lparr>h_state := StateRollingBack\<rparr>)"
  have t: "files_ok G ?t" "sl_current ?t = Some cur" "sl_previous ?t = Some older" "h_state ?t \<noteq> StateConfirmed" "h_state ?t \<noteq> StateIdle"
    using f1 assms(3,4) by (simp_all add: files_ok_def)
  have "fst (react cfg (Command (Inr r)) (?s, sk)) = snd (exec rollback ?t)" for sk
    using assms(8,9) by (simp add: handleMessage_def handle_rollback [of ?s] Let_def)
  then have "fst (reacts cfg [Command (Inr c), Command (Inr r)] (s, None)) = snd (exec rollback ?t)"
    using s1 by (cases "react cfg (Command (Inr c)) (s, None)") (simp add: reacts_def)
  then show ?thesis using rollback_soaking [OF t]
    by (cases "reacts cfg [Command (Inr c), Command (Inr r)] (s, None)") simp
qed

text \<open>
  C33: two rollbacks at the same time can destroy both binaries. A soaking node whose deadline fires just when the
  controller's rollback arrives runs the rollback in two goroutines; under one schedule, with no system call
  failing, both end, the handler is idle again, and the node has no binary left in any slot.
\<close>
theorem rollback_race_loses_binary:
  assumes "node_ok cfg G (s, Some (k, SoakLoop f p))" "h_state s = StateSoaking"
  shows "\<exists>sched r s'. interleave cfg k sched handleRollback (SoakLoop f p) s = (Ret r, SoakDone, s') \<and>
     sl_faults s' = [] \<and> h_state s' = StateIdle \<and> recovered s' = None"
proof -
  obtain c ph s' where run: "interleave cfg k losing_schedule handleRollback (SoakLoop f p) s = (c, ph, s')"
    by (cases "interleave cfg k losing_schedule handleRollback (SoakLoop f p) s") auto
  then show ?thesis using losing_race [OF assms] by (cases c; cases ph) auto
qed

section \<open>Witnesses\<close>

definition demo_handler :: HandlerConfig where
  "demo_handler =
     \<lparr>hc_Component = ''peel'', hc_SoakTime = 60, hc_ConfirmDeadline = 0, hc_HealthRetries = 2, hc_sha256 = id,
      hc_objects = (\<lambda>k. Inr k), hc_version = id\<rparr>"

definition demo_command :: "string \<Rightarrow> UpdateCommand" where
  "demo_command c =
     \<lparr>uc_Command = c, uc_Version = ''v3'', uc_Component = '''', uc_SHA256 = ''v3'', uc_ObjectKey = ''v3''\<rparr>"

definition demo_slots :: slots where
  "demo_slots = \<lparr>sl_current = Some ''v2'', sl_previous = Some ''v1'', sl_staging = None, sl_faults = []\<rparr>"

definition demo_update :: "event list" where
  "demo_update = [Command (Inr (demo_command CmdPrepare)), Command (Inr (demo_command CmdApply)), Soak (Probe True)]"

lemma demo_announces: "announces demo_handler UNIV ev"
  by (simp add: announces_def)

lemma demo_new_ok: "node_ok demo_handler UNIV (NewHandler demo_slots, None)"
  by (auto simp: node_ok_def NewHandler_def demo_slots_def files_ok_def contexts_ok_def calm_def)

lemma demo_soaking_ok: "node_ok demo_handler UNIV (reacts demo_handler demo_update (NewHandler demo_slots, None))"
  by (rule node_ok_reacts [OF demo_new_ok]) (simp add: demo_announces)

lemma demo_soaking:
  "soaking_with ''v3'' ''v2'' (reacts demo_handler demo_update (NewHandler demo_slots, None))"
  "snd (reacts demo_handler demo_update (NewHandler demo_slots, None)) = Some (0, SoakLoop 0 False)"
proof -
  show "soaking_with ''v3'' ''v2'' (reacts demo_handler demo_update (NewHandler demo_slots, None))" by code_simp
  have "case snd (reacts demo_handler demo_update (NewHandler demo_slots, None)) of
      Some (k, SoakLoop f p) \<Rightarrow> k = 0 \<and> f = 0 \<and> \<not> p | _ \<Rightarrow> False" by code_simp
  then show "snd (reacts demo_handler demo_update (NewHandler demo_slots, None)) = Some (0, SoakLoop 0 False)"
    by (cases "snd (reacts demo_handler demo_update (NewHandler demo_slots, None))") (auto split: soak_phase.split_asm)
qed


theorem stat_error_loses_binary_witness:
  "recovered (snd (exec Slots_Rollback (demo_slots\<lparr>sl_previous := None, sl_faults := [Some (''input/output error'', 0)]\<rparr>))) = None"
  using stat_error_loses_binary [of "demo_slots\<lparr>sl_previous := None, sl_faults := [Some (''input/output error'', 0)]\<rparr>"
      "''v2''" "''input/output error''" 0]
  by (simp add: demo_slots_def no_such_file_def split: prod.splits)



theorem rollback_of_staged_downgrades_witness:
  "sl_current (fst (reacts demo_handler [Command (Inr (demo_command CmdPrepare)), Command (Inr (demo_command CmdRollback))]
     (NewHandler demo_slots, None))) = Some ''v1''"
  using rollback_of_staged_downgrades [OF demo_new_ok, of "''v2''" "''v1''" "demo_command CmdPrepare" "''v3''" "demo_command CmdRollback"]
  by (auto simp: NewHandler_def demo_slots_def demo_command_def Download_def demo_handler_def announces_def split: prod.splits)

theorem rollback_race_loses_binary_witness:
  "\<exists>sched r s'. interleave demo_handler 0 sched handleRollback (SoakLoop 0 False)
     (fst (reacts demo_handler demo_update (NewHandler demo_slots, None))) = (Ret r, SoakDone, s') \<and> recovered s' = None"
proof -
  have "node_ok demo_handler UNIV (fst (reacts demo_handler demo_update (NewHandler demo_slots, None)), Some (0, SoakLoop 0 False))"
    using demo_soaking_ok unfolding demo_soaking(2) [symmetric] by simp
  then show ?thesis using rollback_race_loses_binary demo_soaking(1) unfolding soaking_with_def by blast
qed

end
