(* ===== verification/Fleet.thy ===== *)
theory Fleet
  imports Rollout UpdateNode
begin

text \<open>
  The controller and the nodes together: a fleet of nodes that run the handler of \<open>UpdateHandler\<close>, and a bucket
  whose writes are compare-and-swap on the revision, as an environment of the driver of \<open>Rollout\<close>. The bucket is a
  service outside the sources; the locale \<open>cas_bucket\<close> of \<open>RolloutAbort\<close> states what the controller relies on, and the bucket of this fleet
  satisfies it.
\<close>

section \<open>The environment\<close>

record fleet =
  fl_nodes :: "(string, system) gomap"
  fl_records :: "(string, RolloutState \<times> nat) gomap"
  fl_sequence :: nat
  fl_clock :: int
  fl_aborts :: "string list"

text \<open>A command to a node, with the effect it has on the node's soak goroutine.\<close>

definition fleet_request :: "HandlerConfig \<Rightarrow> string \<Rightarrow> UpdateCommand \<Rightarrow> fleet \<Rightarrow> UpdateResponse result \<times> fleet" where
  "fleet_request cfg n cmd w =
     (case map_of (fl_nodes w) n of
        None \<Rightarrow> (Inl ''nats: no responders available for request'', w)
      | Some (s, sk) \<Rightarrow>
          (case exec (handleMessage cfg (Inr cmd)) s of
             (resp, s') \<Rightarrow>
               (case resp of None \<Rightarrow> Inl ''context deadline exceeded'' | Some r \<Rightarrow> Inr r,
                w\<lparr>fl_nodes := m_set n (s', after_command s s' sk) (fl_nodes w)\<rparr>)))"

text \<open>The revisions of a bucket come from one sequence.\<close>

definition bucket_put :: "string \<Rightarrow> RolloutState \<Rightarrow> fleet \<Rightarrow> nat result \<times> fleet" where
  "bucket_put k r w =
     (Inr (Suc (fl_sequence w)),
      w\<lparr>fl_records := m_set k (r, Suc (fl_sequence w)) (fl_records w), fl_sequence := Suc (fl_sequence w)\<rparr>)"

definition bucket_create :: "string \<Rightarrow> RolloutState \<Rightarrow> fleet \<Rightarrow> nat result \<times> fleet" where
  "bucket_create k r w =
     (if map_of (fl_records w) k = None then bucket_put k r w else (Inl ''nats: key exists'', w))"

definition bucket_update :: "string \<Rightarrow> RolloutState \<Rightarrow> nat \<Rightarrow> fleet \<Rightarrow> nat result \<times> fleet" where
  "bucket_update k r rv w =
     (case map_of (fl_records w) k of
        None \<Rightarrow> (Inl ''nats: wrong last sequence'', w)
      | Some (_, cur) \<Rightarrow>
          if cur = rv \<and> rv \<le> fl_sequence w then bucket_put k r w else (Inl ''nats: wrong last sequence'', w))"

definition bucket_get :: "string \<Rightarrow> fleet \<Rightarrow> (RolloutState \<times> nat) result \<times> fleet" where
  "bucket_get k w =
     (case map_of (fl_records w) k of None \<Rightarrow> (Inl ''nats: key not found'', w) | Some e \<Rightarrow> (Inr e, w))"

definition fleet_env :: "string \<Rightarrow> HandlerConfig \<Rightarrow> Manifest result \<Rightarrow> fleet renv" where
  "fleet_env driver cfg manifest =
     \<lparr>re_driver = driver, re_request = fleet_request cfg, re_create = bucket_create, re_update = bucket_update,
      re_get = bucket_get, re_now = (\<lambda>w. (fl_clock w, w\<lparr>fl_clock := fl_clock w + 1\<rparr>)),
      re_aborted = (\<lambda>ident w. (ident \<in> set (fl_aborts w), w)), re_done = (\<lambda>w. (False, w)),
      re_order = (\<lambda>ns w. (ns, w)), re_statusKV = None, re_manifest = (\<lambda>_ _ _ _. manifest)\<rparr>"

lemma fleet_env_sel [simp]:
  "re_driver (fleet_env i cfg m) = i" "re_request (fleet_env i cfg m) = fleet_request cfg"
  "re_create (fleet_env i cfg m) = bucket_create" "re_update (fleet_env i cfg m) = bucket_update"
  "re_get (fleet_env i cfg m) = bucket_get" "re_now (fleet_env i cfg m) w = (fl_clock w, w\<lparr>fl_clock := fl_clock w + 1\<rparr>)"
  "re_aborted (fleet_env i cfg m) k w = (k \<in> set (fl_aborts w), w)" "re_done (fleet_env i cfg m) w = (False, w)"
  "re_order (fleet_env i cfg m) ns w = (ns, w)" "re_statusKV (fleet_env i cfg m) = None"
  "re_manifest (fleet_env i cfg m) c os arch v = m"
  by (simp_all add: fleet_env_def)

section \<open>An example fleet\<close>

definition demo_manifest :: Manifest where
  "demo_manifest =
     \<lparr>mf_Version = ''v3'', mf_Component = ''peel'', mf_GOOS = ''linux'', mf_GOARCH = ''amd64'', mf_SHA256 = ''v3'',
      mf_ObjectKey = ''v3'', mf_Published = 0, mf_MinProtocol = 0, mf_Promoted = False, mf_ExpiresAtUnix = 0\<rparr>"

definition demo_fleet_env :: "fleet renv" where
  "demo_fleet_env = fleet_env ''m1'' demo_handler (Inr demo_manifest)"

definition demo_config :: "int \<Rightarrow> RolloutConfig" where
  "demo_config limit =
     \<lparr>rc_Version = ''v3'', rc_Component = ''peel'', rc_Target = ''*'', rc_BatchSize = 1, rc_BatchPercent = 0, rc_SoakTime = 10,
      rc_BatchPause = 5, rc_MaxFailed = limit, rc_DryRun = False, rc_RolloutID = ''r1''\<rparr>"

definition demo_fleet :: "(string \<times> slots) list \<Rightarrow> fleet" where
  "demo_fleet nodes =
     \<lparr>fl_nodes = map (\<lambda>(n, fs). (n, NewHandler fs, None)) nodes, fl_records = [], fl_sequence = 0, fl_clock = 1000,
      fl_aborts = []\<rparr>"

definition demo_rollout :: "int \<Rightarrow> (string \<times> slots) list \<Rightarrow> fleet drv" where
  "demo_rollout limit nodes =
     (case StartRollout demo_fleet_env '''' (demo_config limit) (map fst nodes) (demo_fleet nodes) of
        (Inl e, w) \<Rightarrow> \<lparr>dv_state = new_rollout '''' (demo_config limit) [], dv_world = w, dv_sent = []\<rparr>
      | (Inr st, w) \<Rightarrow> drive demo_fleet_env st w)"

text \<open>What remains of a rollout: its state, the counted failures, the status of each node, and the commands sent.\<close>

definition outcome :: "'w drv \<Rightarrow> string \<times> int \<times> (string \<times> string) list \<times> (string \<times> string) list" where
  "outcome d =
     (ro_State (dv_state d), ro_FailedCount (dv_state d), map (\<lambda>(n, nr). (n, nr_Status nr)) (ro_NodeResults (dv_state d)),
      dv_sent d)"

end
