(* ===== verification/RolloutProps.thy ===== *)
theory RolloutProps
  imports RolloutRun Fleet
begin

text \<open>What a rollout promises: containment whatever the environment does, progress over a fleet that behaves, and what an
  abort and a second driver do to the record.\<close>

text \<open>C9: However the store and the nodes behave, a rollout is contained: when the driver stops (finished, aborted, or
  giving up the record), commands have gone to nodes of the batches up to the current one only, and every node of an earlier
  batch is settled (skipped, confirmed or failed).  A rollout that ends completed has settled
  every node, and has fewer failed nodes than the limit allows.\<close>

theorem rollout_contained:
  assumes "orders env" "distinct (concat (ro_Batches (dv_state d)))" "[] \<notin> set (ro_Batches (dv_state d))"
    and "ro_CurrentBatch (dv_state d) < length (ro_Batches (dv_state d))" "dv_sent d = []" "counted (dv_state d)"
    and "\<forall>n \<in> set (concat (take (ro_CurrentBatch (dv_state d)) (ro_Batches (dv_state d)))). settled n d"
    and "ro_State (dv_state d) \<noteq> RolloutCompleted" "executeRollout env d = d'"
  shows "contained d' \<and> ro_Batches (dv_state d') = ro_Batches (dv_state d) \<and>
    (ro_State (dv_state d') = RolloutCompleted \<longrightarrow>
       (\<forall>n \<in> set (concat (ro_Batches (dv_state d'))). settled n d') \<and>
       int (card (failed_nodes (dv_state d'))) < rc_MaxFailed (ro_Config (dv_state d')))"
proof -
  have c: "contained d" using assms(5,7) by (simp add: contained_def)
  show ?thesis
  proof (cases "ro_State (dv_state d) = RolloutAborting")
    case True
    then have "touches (set (current_batch (dv_state d))) d d'"
      using assms(9) finishAborted_touches [OF assms(1), of d] by (simp add: executeRollout_def)
    then show ?thesis using contained_touches [OF c assms(2)] assms(8) by (auto simp: touches_def)
  next
    case False
    obtain b d1 where r: "run_batches env (ro_CurrentBatch (dv_state d)) (drop (ro_CurrentBatch (dv_state d)) (ro_Batches (dv_state d))) d = (b, d1)"
      by (cases "run_batches env (ro_CurrentBatch (dv_state d)) (drop (ro_CurrentBatch (dv_state d)) (ro_Batches (dv_state d))) d")
    note ok = run_batches_ok [OF assms(1) r refl assms(2,3) order_refl c assms(7,6,8)]
    show ?thesis
    proof (cases b)
      case False
      then show ?thesis using ok r assms(9) \<open>ro_State (dv_state d) \<noteq> RolloutAborting\<close> by (simp add: executeRollout_def)
    next
      case True
      obtain e d2 where sv: "save_drv env (set_rollout RolloutCompleted d1) = (e, d2)"
        by (cases "save_drv env (set_rollout RolloutCompleted d1)")
      have d': "d' = d2" using assms(9) r True sv \<open>ro_State (dv_state d) \<noteq> RolloutAborting\<close> by (simp add: executeRollout_def)
      have same: "dv_sent d2 = dv_sent d1" "ro_Batches (dv_state d2) = ro_Batches (dv_state d1)"
        "ro_CurrentBatch (dv_state d2) = ro_CurrentBatch (dv_state d1)" "ro_NodeResults (dv_state d2) = ro_NodeResults (dv_state d1)"
        "ro_Config (dv_state d2) = ro_Config (dv_state d1)" "ro_FailedCount (dv_state d2) = ro_FailedCount (dv_state d1)"
        using save_drv_frame [OF sv] by (simp_all add: core_def set_rollout_def)
      have st: "settled n d2 = settled n d1" for n by (simp add: settled_def status_in_def same)
      have "contained d2" using ok unfolding contained_def st same by blast
      moreover have "int (card (failed_nodes (dv_state d2))) < rc_MaxFailed (ro_Config (dv_state d2))"
        using ok True assms(4) same by (simp add: counted_def failed_nodes_def max_failed_def)
      ultimately show ?thesis using ok True same st unfolding d' by simp
    qed
  qed
qed


lemma save_over_existing:
  assumes "map_of (fl_records w) (ro_ID st) = Some (old, rv)" "ro_State old \<noteq> RolloutAborted"
    and "ro_DriverID old \<in> {'''', driver}" "ro_Revision st = 0" "0 < rv" "rv \<le> fl_sequence w"
  shows "case saveStateLocked (fleet_env driver cfg m) st w of (err, st', w') \<Rightarrow>
    err = None \<and> core st' = core st \<and> (\<exists>r. map_of (fl_records w') (ro_ID st) = Some (r, ro_Revision st') \<and> core r = core st)"
  using assms by (auto simp: saveStateLocked_def rolloutSaveRetries_def numeral_3_eq_3 Save_def Rollout_Get_def bucket_create_def
      bucket_get_def bucket_update_def bucket_put_def map_of_m_set core_def)

text \<open>C35: Starting a rollout with the identifier of one that is running is not refused when the running one belongs to the
  same master: the failed creation makes the save adopt the revision of the existing record, and the second attempt overwrites
  the progress of the running rollout with a fresh state.\<close>

theorem duplicate_start_overwrites:
  assumes "map_of (fl_records w) (rc_RolloutID config) = Some (old, rv)" "0 < rv" "rv \<le> fl_sequence w" "rc_RolloutID config \<noteq> ''''"
    and "ro_State old \<noteq> RolloutAborted" "ro_DriverID old \<in> {'''', driver}"
  shows "\<exists>st w' r. StartRollout (fleet_env driver cfg m) ksuid config nodeIDs w = (Inr st, w') \<and> ro_ID st = rc_RolloutID config \<and>
    map_of (fl_records w') (ro_ID st) = Some (r, ro_Revision st) \<and>
    ro_State r = RolloutCreated \<and> ro_NodeResults r = [] \<and> ro_CurrentBatch r = 0"
proof -
  let ?st = "new_rollout ksuid (with_defaults config) nodeIDs"
  have st: "ro_ID ?st = rc_RolloutID config" "ro_Revision ?st = 0"
    using assms(4) by (simp_all add: new_rollout_def with_defaults_def)
  have "case saveStateLocked (fleet_env driver cfg m) ?st w of (err, st', w') \<Rightarrow>
      err = None \<and> core st' = core ?st \<and> (\<exists>r. map_of (fl_records w') (ro_ID ?st) = Some (r, ro_Revision st') \<and> core r = core ?st)"
    by (rule save_over_existing [of w ?st old rv]) (use assms st in simp_all)
  then obtain st' w' where s: "saveStateLocked (fleet_env driver cfg m) ?st w = (None, st', w')" "core st' = core ?st"
      "\<exists>r. map_of (fl_records w') (ro_ID ?st) = Some (r, ro_Revision st') \<and> core r = core ?st"
    by (auto split: prod.splits)
  then show ?thesis using st by (auto simp: StartRollout_def filterTargets_def core_def new_rollout_def)
qed

section \<open>Witnesses\<close>

lemma demo_orders: "orders demo_fleet_env"
  by (simp add: orders_def demo_fleet_env_def)

definition demo_start :: "fleet drv" where
  "demo_start =
     \<lparr>dv_state = new_rollout '''' (demo_config 2) [''a'', ''b''], dv_world = demo_fleet [(''a'', demo_slots), (''b'', demo_slots)],
      dv_sent = []\<rparr>"

lemma demo_batches: "computeBatches [''a'', ''b''] 1 0 = [[''a''], [''b'']]" "sort [''a'', ''b''] = [''a'', ''b'']"
  by code_simp+

theorem rollout_contained_witness: "contained (executeRollout demo_fleet_env demo_start)"
  using rollout_contained [OF demo_orders, of demo_start]
  by (simp add: demo_start_def new_rollout_def demo_config_def demo_batches counted_def failed_nodes_def)

theorem duplicate_start_overwrites_witness:
  "\<exists>st w' r. StartRollout (fleet_env ''m1'' demo_handler (Inr demo_manifest)) '''' (demo_config 2) [''a'']
     ((demo_fleet [])\<lparr>fl_sequence := 7, fl_records := [(''r1'', (new_rollout '''' (demo_config 2) [])\<lparr>ro_State := RolloutRolling, ro_CurrentBatch := 5\<rparr>, 7)]\<rparr>)
     = (Inr st, w') \<and> ro_ID st = ''r1'' \<and> map_of (fl_records w') (ro_ID st) = Some (r, ro_Revision st) \<and>
     ro_State r = RolloutCreated \<and> ro_NodeResults r = [] \<and> ro_CurrentBatch r = 0"
  using duplicate_start_overwrites [of
      "(demo_fleet [])\<lparr>fl_sequence := 7, fl_records := [(''r1'', (new_rollout '''' (demo_config 2) [])\<lparr>ro_State := RolloutRolling, ro_CurrentBatch := 5\<rparr>, 7)]\<rparr>"
      "demo_config 2"]
  by (simp add: demo_config_def new_rollout_def)

end
