(* ===== verification/RolloutAbort.thy ===== *)
theory RolloutAbort
  imports Fleet RolloutTouch
begin

text \<open>
  Aborts and compare-and-swap: what the controller relies on from the bucket with the rollouts (\<open>cas_bucket\<close>, a
  service outside the sources), and that no driver ever overwrites a record that an operator aborted through another
  master. The environment may change the record at every call; it obeys the rule the driver obeys itself.
\<close>

section \<open>The bucket\<close>

definition aborted_record :: "(RolloutState \<times> nat) option \<Rightarrow> bool" where
  "aborted_record x = (case x of None \<Rightarrow> False | Some (r, _) \<Rightarrow> ro_State r = RolloutAborted)"

lemma aborted_record_simps [simp]:
  "\<not> aborted_record None" "aborted_record (Some (r, rv)) \<longleftrightarrow> ro_State r = RolloutAborted"
  by (simp_all add: aborted_record_def)

text \<open>How a record may change behind the back of a driver: revisions grow with every write, an aborted record stays aborted.\<close>

fun moves :: "(RolloutState \<times> nat) option \<Rightarrow> (RolloutState \<times> nat) option \<Rightarrow> bool" where
  "moves None None \<longleftrightarrow> True"
| "moves None (Some (r', rv')) \<longleftrightarrow> 0 < rv'"
| "moves (Some x) None \<longleftrightarrow> False"
| "moves (Some (r, rv)) (Some (r', rv')) \<longleftrightarrow>
     rv \<le> rv' \<and> (rv' = rv \<longrightarrow> r' = r) \<and> (ro_State r = RolloutAborted \<longrightarrow> ro_State r' = RolloutAborted)"

lemma moves_refl [simp]: "moves x x"
  by (cases x) auto

lemma moves_trans [trans]:
  assumes "moves x y" "moves y z"
  shows "moves x z"
  using assms by (cases "(x, y)" rule: moves.cases; cases z) auto

lemma moves_aborted: "moves x y \<Longrightarrow> aborted_record x \<Longrightarrow> aborted_record y"
  by (cases "(x, y)" rule: moves.cases) auto

text \<open>What a driver with revision \<open>rv\<close> in hand knows of the record: it is not newer than the stored one, and older
  than an aborted one.\<close>

definition behind :: "nat \<Rightarrow> (RolloutState \<times> nat) option \<Rightarrow> bool" where
  "behind rv x \<longleftrightarrow> (case x of None \<Rightarrow> rv = 0 | Some (r, cur) \<Rightarrow> rv \<le> cur \<and> 0 < cur \<and> (ro_State r = RolloutAborted \<longrightarrow> rv < cur))"

lemma behind_moves: "behind rv x \<Longrightarrow> moves x y \<Longrightarrow> behind rv y"
  by (cases "(x, y)" rule: moves.cases) (auto simp: behind_def)

lemma behind_current: "behind rv (Some (r, rv)) \<Longrightarrow> ro_State r \<noteq> RolloutAborted"
  by (simp add: behind_def)

text \<open>The calls that do not write the record.\<close>

inductive observes :: "'w renv \<Rightarrow> 'w \<Rightarrow> 'w \<Rightarrow> bool" for env :: "'w renv" where
  ask_request: "re_request env n c w = (resp, w1) \<Longrightarrow> observes env w w1"
| ask_now: "re_now env w = (t, w1) \<Longrightarrow> observes env w w1"
| ask_aborted: "re_aborted env i w = (b, w1) \<Longrightarrow> observes env w w1"
| ask_done: "re_done env w = (b, w1) \<Longrightarrow> observes env w w1"
| ask_order: "re_order env ns w = (ns1, w1) \<Longrightarrow> observes env w w1"
| ask_get: "re_get env i w = (got, w1) \<Longrightarrow> observes env w w1"

text \<open>
  The bucket, seen through one key \<open>k\<close>: \<open>stored\<close> is the record and its revision. Writes are compare-and-swap and take
  effect at some moment of the call; others may change the record before and after that moment. \<open>ok\<close> is a property
  of the history that survives the calls of whoever keeps the rule: a record is written under its own identifier, and
  over another one only by who knows no newer abort, or aborts.
\<close>

locale cas_bucket =
  fixes env :: "'w renv" and stored :: "'w \<Rightarrow> (RolloutState \<times> nat) option" and k :: string and ok :: "'w \<Rightarrow> bool"
  assumes observes_moves: "observes env w w1 \<Longrightarrow> ok w \<Longrightarrow> moves (stored w) (stored w1)"
    and get_stored: "re_get env k w = (Inr (r, rv), w1) \<Longrightarrow> ok w \<Longrightarrow>
      moves (stored w) (Some (r, rv)) \<and> moves (Some (r, rv)) (stored w1)"
    and create_fails: "re_create env k r w = (Inl e, w1) \<Longrightarrow> ok w \<Longrightarrow> moves (stored w) (stored w1)"
    and create_stores: "re_create env k r w = (Inr rv1, w1) \<Longrightarrow> ok w \<Longrightarrow>
      stored w = None \<and> 0 < rv1 \<and> moves (Some (r, rv1)) (stored w1)"
    and update_fails: "re_update env k r rv w = (Inl e, w1) \<Longrightarrow> ok w \<Longrightarrow> moves (stored w) (stored w1)"
    and update_stores: "re_update env k r rv w = (Inr rv1, w1) \<Longrightarrow> ok w \<Longrightarrow>
      (\<exists>r0. moves (stored w) (Some (r0, rv))) \<and> rv < rv1 \<and> moves (Some (r, rv1)) (stored w1)"
    and observes_ok: "observes env w w1 \<Longrightarrow> ok w \<Longrightarrow> ok w1"
    and create_ok: "re_create env k r w = (res, w1) \<Longrightarrow> ro_ID r = k \<Longrightarrow> ok w \<Longrightarrow> ok w1"
    and update_ok: "re_update env k r rv w = (res, w1) \<Longrightarrow> ro_ID r = k \<Longrightarrow>
      ro_State r = RolloutAborted \<or> behind rv (stored w) \<Longrightarrow> ok w \<Longrightarrow> ok w1"

locale keyed_bucket = cas_bucket +
  assumes stored_id: "re_get env k w = (Inr (r, rv), w1) \<Longrightarrow> ok w \<Longrightarrow> ro_ID r = k"

definition lawful :: "('w \<Rightarrow> (RolloutState \<times> nat) option) \<Rightarrow> ('w \<Rightarrow> bool) \<Rightarrow> 'w \<Rightarrow> 'w \<Rightarrow> bool" where
  "lawful stored ok w w1 \<longleftrightarrow> (ok w \<longrightarrow> ok w1 \<and> moves (stored w) (stored w1))"

lemma lawful_refl [simp]: "lawful stored ok w w"
  by (simp add: lawful_def)

lemma lawful_trans [trans]: "lawful stored ok w w1 \<Longrightarrow> lawful stored ok w1 w2 \<Longrightarrow> lawful stored ok w w2"
  by (auto simp: lawful_def intro: moves_trans)

definition knows :: "('w \<Rightarrow> (RolloutState \<times> nat) option) \<Rightarrow> ('w \<Rightarrow> bool) \<Rightarrow> nat \<Rightarrow> 'w \<Rightarrow> bool" where
  "knows stored ok rv w \<longleftrightarrow> ok w \<and> behind rv (stored w)"

lemma knows_sound: "knows stored ok rv w \<Longrightarrow> lawful stored ok w w1 \<Longrightarrow> knows stored ok rv w1"
  by (auto simp: knows_def lawful_def intro: behind_moves)

text \<open>Steps of the driver that leave what it knows of the record alone, and what it knows while it drives.\<close>

definition same_head :: "RolloutState \<Rightarrow> RolloutState \<Rightarrow> bool" where
  "same_head st st' \<longleftrightarrow> ro_ID st' = ro_ID st \<and> ro_State st' = ro_State st \<and> ro_Revision st' = ro_Revision st"

definition keeps :: "('w \<Rightarrow> (RolloutState \<times> nat) option) \<Rightarrow> ('w \<Rightarrow> bool) \<Rightarrow> 'w drv \<Rightarrow> 'w drv \<Rightarrow> bool" where
  "keeps stored ok d d' \<longleftrightarrow> lawful stored ok (dv_world d) (dv_world d') \<and> same_head (dv_state d) (dv_state d')"

definition held :: "('w \<Rightarrow> (RolloutState \<times> nat) option) \<Rightarrow> ('w \<Rightarrow> bool) \<Rightarrow> string \<Rightarrow> 'w drv \<Rightarrow> bool" where
  "held stored ok k d \<longleftrightarrow>
     ro_ID (dv_state d) = k \<and> ro_State (dv_state d) \<noteq> RolloutAborted \<and> knows stored ok (ro_Revision (dv_state d)) (dv_world d)"

lemma keeps_refl [simp]: "keeps stored ok d d"
  by (simp add: keeps_def same_head_def)

lemma keeps_trans [trans]: "keeps stored ok d d1 \<Longrightarrow> keeps stored ok d1 d2 \<Longrightarrow> keeps stored ok d d2"
  by (auto simp: keeps_def same_head_def intro: lawful_trans)

lemma keeps_sound: "keeps stored ok d d' \<Longrightarrow> lawful stored ok (dv_world d) (dv_world d')"
  by (simp add: keeps_def)

lemma keeps_held: "keeps stored ok d d' \<Longrightarrow> held stored ok k d \<Longrightarrow> held stored ok k d'"
  by (auto simp: keeps_def held_def same_head_def intro: knows_sound)

lemma same_head_state: "same_head (dv_state d) st \<Longrightarrow> keeps stored ok d (d\<lparr>dv_state := st\<rparr>)"
  by (simp add: keeps_def)

lemma same_head_records:
  "same_head st (record_probe res st)" "same_head st (record_command s r st)" "same_head st (fold record_revert os st)"
proof -
  have "same_head st (record_revert x st)" for x st
    by (cases x) (simp add: same_head_def record_revert_def set_result_def)
  then show "same_head st (fold record_revert os st)"
    by (induction os arbitrary: st) (auto simp: same_head_def)
qed (simp_all add: same_head_def record_probe_def record_command_def set_result_def split: option.splits prod.splits)

section \<open>A driver never overwrites an abort\<close>

context cas_bucket
begin

lemma observes_sound: "observes env w w1 \<Longrightarrow> lawful stored ok w w1"
  using observes_moves [of w w1] observes_ok [of w w1] by (simp add: lawful_def)

lemma Get_sound: "Rollout_Get env i w = (got, w1) \<Longrightarrow> lawful stored ok w w1"
proof -
  assume g: "Rollout_Get env i w = (got, w1)"
  obtain x w2 where r: "re_get env i w = (x, w2)" by (cases "re_get env i w")
  then have "w2 = w1" using g by (simp add: Rollout_Get_def split: sum.splits prod.splits)
  then show ?thesis using observes_sound [OF ask_get [OF r]] by simp
qed

lemma Get_stored:
  assumes "Rollout_Get env k w = (Inr p, w1)" "ok w"
  obtains r where "re_get env k w = (Inr (r, ro_Revision p), w1)" "ro_State r = ro_State p" "ro_ID r = ro_ID p"
    "moves (stored w) (Some (r, ro_Revision p))" "moves (Some (r, ro_Revision p)) (stored w1)"
proof -
  obtain r rv where "re_get env k w = (Inr (r, rv), w1)" "p = r\<lparr>ro_Revision := rv\<rparr>"
    using assms(1) by (auto simp: Rollout_Get_def split: prod.splits sum.splits)
  then show ?thesis using that [of r] get_stored [OF _ assms(2)] by simp
qed

text \<open>A write that succeeds has happened at a moment when the record had the expected revision.\<close>

lemma Save_writes:
  assumes "Save env st w = (res, w1)" "ro_ID st = k"
  shows "ok w \<Longrightarrow> ro_State st = RolloutAborted \<or> behind (ro_Revision st) (stored w) \<Longrightarrow> ok w1" "ok w \<Longrightarrow> res = Inl e \<Longrightarrow> moves (stored w) (stored w1)"
    "ok w \<Longrightarrow> res = Inr st1 \<Longrightarrow>
       (\<exists>x. moves (stored w) x \<and> (x = None \<and> ro_Revision st = 0 \<or> (\<exists>r0. x = Some (r0, ro_Revision st)))) \<and>
       ro_Revision st < ro_Revision st1 \<and> core st1 = core st \<and> moves (Some (st, ro_Revision st1)) (stored w1)"
proof -
  obtain r' where r: "(if ro_Revision st = 0 then re_create env k st w else re_update env k st (ro_Revision st) w) = (r', w1)"
    and res: "res = (case r' of Inl e \<Rightarrow> Inl (''update: rollout save '' @ k @ '': '' @ e) | Inr rv \<Rightarrow> Inr (st\<lparr>ro_Revision := rv\<rparr>))"
    using assms by (auto simp: Save_def split: prod.splits sum.splits)
  show "ok w \<Longrightarrow> ro_State st = RolloutAborted \<or> behind (ro_Revision st) (stored w) \<Longrightarrow> ok w1"
    using r assms(2) create_ok update_ok by (auto split: if_splits)
  show "ok w \<Longrightarrow> res = Inl e \<Longrightarrow> moves (stored w) (stored w1)"
    using r res by (cases r') (auto split: if_splits dest: create_fails update_fails)
  assume "ok w" "res = Inr st1"
  then obtain rv where rv: "r' = Inr rv" "st1 = st\<lparr>ro_Revision := rv\<rparr>" using res by (cases r') auto
  show "(\<exists>x. moves (stored w) x \<and> (x = None \<and> ro_Revision st = 0 \<or> (\<exists>r0. x = Some (r0, ro_Revision st)))) \<and>
       ro_Revision st < ro_Revision st1 \<and> core st1 = core st \<and> moves (Some (st, ro_Revision st1)) (stored w1)"
  proof (cases "ro_Revision st = 0")
    case True
    then have "re_create env k st w = (Inr rv, w1)" using r rv by simp
    from create_stores [OF this \<open>ok w\<close>] show ?thesis using rv True by (auto intro!: exI [of _ None])
  next
    case False
    then have "re_update env k st (ro_Revision st) w = (Inr rv, w1)" using r rv by simp
    from update_stores [OF this \<open>ok w\<close>] show ?thesis using rv by auto
  qed
qed

lemma Save_sound:
  assumes "Save env st w = (res, w1)" "ro_ID st = k" "knows stored ok (ro_Revision st) w"
  shows "lawful stored ok w w1"
    "res = Inr st1 \<Longrightarrow> ro_State st \<noteq> RolloutAborted \<Longrightarrow> knows stored ok (ro_Revision st1) w1"
proof -
  note W = Save_writes [OF assms(1,2)]
  have ok: "ok w" and bh: "behind (ro_Revision st) (stored w)" using assms(3) by (simp_all add: knows_def)
  have m: "moves (stored w) (stored w1)"
  proof (cases res)
    case (Inl e)
    then show ?thesis using W(2) ok by blast
  next
    case (Inr st2)
    then obtain x where x: "moves (stored w) x" "x = None \<and> ro_Revision st = 0 \<or> (\<exists>r0. x = Some (r0, ro_Revision st))"
      and st2: "ro_Revision st < ro_Revision st2" "moves (Some (st, ro_Revision st2)) (stored w1)" using W(3) ok by blast
    have "moves x (Some (st, ro_Revision st2))"
      using x(2) st2(1) behind_moves [OF bh x(1)] by (auto simp: behind_def)
    then show ?thesis using moves_trans [OF x(1) moves_trans [OF _ st2(2)]] by blast
  qed
  then show s: "lawful stored ok w w1" using W(1) bh by (simp add: lawful_def)
  assume r: "res = Inr st1" "ro_State st \<noteq> RolloutAborted"
  then have w: "ro_Revision st < ro_Revision st1" "moves (Some (st, ro_Revision st1)) (stored w1)" using W(3) ok by blast+
  have "behind (ro_Revision st1) (Some (st, ro_Revision st1))" using r(2) w(1) by (simp add: behind_def)
  then show "knows stored ok (ro_Revision st1) w1" using behind_moves [OF _ w(2)] s ok by (simp add: knows_def lawful_def)
qed

end

context cas_bucket
begin

lemma save_attempts_sound:
  assumes "save_attempts env n first e st w = (err, st1, w1)" "ro_ID st = k" "knows stored ok (ro_Revision st) w"
  shows "lawful stored ok w w1 \<and> (ro_State st \<noteq> RolloutAborted \<longrightarrow> knows stored ok (ro_Revision st1) w1)"
  using assms
proof (induction n arbitrary: first e st w)
  case (Suc n)
  obtain b w2 where b: "(if first then (False, w) else re_done env w) = (b, w2)" by fastforce
  obtain now w3 where now: "re_now env w2 = (now, w3)" by fastforce
  define st2 where "st2 = st\<lparr>ro_DriverHeartbeat := now\<rparr>"
  obtain res w4 where sv: "Save env st2 w3 = (res, w4)" by fastforce
  obtain got w5 where gt: "Rollout_Get env k w4 = (got, w5)" by fastforce
  have s2: "lawful stored ok w w2" using b by (auto split: if_splits intro: observes_sound ask_done)
  have s3: "lawful stored ok w w3" by (rule lawful_trans [OF s2 observes_sound [OF ask_now [OF now]]])
  have id2: "ro_ID st2 = k" "ro_State st2 = ro_State st" "ro_Revision st2 = ro_Revision st" using Suc.prems(2) by (simp_all add: st2_def)
  note bh = knows_sound [OF Suc.prems(3)]
  note Save = Save_sound [OF sv id2(1) bh [OF s3, folded id2(3)]]
  have s4: "lawful stored ok w w4" by (rule lawful_trans [OF s3 Save(1)])
  have s5: "lawful stored ok w w5" by (rule lawful_trans [OF s4 Get_sound [OF gt]])
  show ?case
  proof (cases b)
    case True
    then show ?thesis using Suc.prems(1) b bh s2 by auto
  next
    case False
    show ?thesis
    proof (cases res)
      case (Inr st')
      then show ?thesis using Suc.prems(1) b False now sv s4 Save(2) id2 by (auto simp: Let_def st2_def)
    next
      case (Inl msg)
      note r = Suc.prems(1) [unfolded save_attempts.simps b prod.case, simplified False bool.case now prod.case Let_def,
          folded st2_def, simplified sv Inl prod.case sum.case id2 gt]
      show ?thesis
      proof (cases got)
        case (Inl m)
        then have "save_attempts env n False msg st2 w5 = (err, st1, w1)" using r by simp
        from Suc.IH [OF this id2(1) bh [OF s5, folded id2(3)]] show ?thesis using lawful_trans [OF s5] id2(2) by auto
      next
        case (Inr p)
        have k4: "knows stored ok (ro_Revision st) w4" by (rule bh [OF s4])
        show ?thesis
        proof (cases "ro_State p = RolloutAborted \<or> (ro_DriverID p \<noteq> '''' \<and> ro_DriverID p \<noteq> re_driver env)")
          case True
          then show ?thesis using r Inr bh s5 id2 by (auto split: if_splits)
        next
          case again: False
          obtain r0 where p: "ro_State r0 = ro_State p" "moves (stored w4) (Some (r0, ro_Revision p))"
            "moves (Some (r0, ro_Revision p)) (stored w5)"
            by (rule Get_stored [OF gt [unfolded Inr]]) (use k4 in \<open>auto simp: knows_def\<close>)
          have "behind (ro_Revision st) (Some (r0, ro_Revision p))" using k4 behind_moves [OF _ p(2)] by (simp add: knows_def)
          then have "behind (ro_Revision p) (stored w5)" using again p(1) behind_moves [OF _ p(3)] by (simp add: behind_def)
          then have "knows stored ok (ro_Revision p) w5" using s5 Suc.prems(3) by (simp add: knows_def lawful_def)
          moreover have "save_attempts env n False msg (st2\<lparr>ro_Revision := ro_Revision p\<rparr>) w5 = (err, st1, w1)"
            using again r Inr by auto
          ultimately have "lawful stored ok w5 w1 \<and> (ro_State st \<noteq> RolloutAborted \<longrightarrow> knows stored ok (ro_Revision st1) w1)"
            using Suc.IH [of False msg "st2\<lparr>ro_Revision := ro_Revision p\<rparr>" w5] id2 by simp
          then show ?thesis using lawful_trans [OF s5] by blast
        qed
      qed
    qed
  qed
qed auto

lemma save_sound:
  assumes "save_drv env d = (err, d')" "ro_ID (dv_state d) = k" "knows stored ok (ro_Revision (dv_state d)) (dv_world d)"
  shows "lawful stored ok (dv_world d) (dv_world d')" "ro_State (dv_state d) \<noteq> RolloutAborted \<Longrightarrow> held stored ok k d'"
proof -
  obtain st w where s: "save_attempts env rolloutSaveRetries True '''' ((dv_state d)\<lparr>ro_DriverID := re_driver env\<rparr>) (dv_world d) = (err, st, w)"
    "d' = d\<lparr>dv_state := st, dv_world := w\<rparr>"
    using assms(1) by (auto simp: save_drv_def saveStateLocked_def split: prod.splits)
  have c: "core st = core (dv_state d)" using save_attempts_core [OF s(1)] by simp
  have "lawful stored ok (dv_world d) w \<and> (ro_State (dv_state d) \<noteq> RolloutAborted \<longrightarrow> knows stored ok (ro_Revision st) w)"
    using save_attempts_sound [OF s(1)] assms(2,3) by simp
  then show "lawful stored ok (dv_world d) (dv_world d')" "ro_State (dv_state d) \<noteq> RolloutAborted \<Longrightarrow> held stored ok k d'"
    using s(2) c assms(2) by (auto simp: held_def core_def)
qed

end

text \<open>Questions and requests.\<close>

context cas_bucket
begin

lemma check_keeps: "check f d = (a, d') \<Longrightarrow> (\<And>w x w1. f w = (x, w1) \<Longrightarrow> lawful stored ok w w1) \<Longrightarrow> keeps stored ok d d'"
  by (auto simp: check_def keeps_def same_head_def split: prod.splits)

lemma aborted_keeps: "check (re_aborted env i) d = (a, d') \<Longrightarrow> keeps stored ok d d'"
  by (erule check_keeps) (blast intro: observes_sound ask_aborted)

lemma done_keeps: "check (re_done env) d = (a, d') \<Longrightarrow> keeps stored ok d d'"
  by (erule check_keeps) (blast intro: observes_sound ask_done)

lemma order_keeps: "check (re_order env ns) d = (a, d') \<Longrightarrow> keeps stored ok d d'"
  by (erule check_keeps) (blast intro: observes_sound ask_order)

lemma kv_keeps: "check (isAbortedInKV env i) d = (a, d') \<Longrightarrow> keeps stored ok d d'"
proof (erule check_keeps)
  fix w x w1 assume "isAbortedInKV env i w = (x, w1)"
  then obtain got where "Rollout_Get env i w = (got, w1)" by (auto simp: isAbortedInKV_def split: prod.splits sum.splits)
  then show "lawful stored ok w w1" by (rule Get_sound)
qed

lemma send_keeps: "send env n c d = (r, d') \<Longrightarrow> keeps stored ok d d'"
  by (auto simp: send_def keeps_def same_head_def intro: observes_sound [OF ask_request] split: prod.splits)

lemma resetNode_keeps: "resetNode env n p d = (r, d') \<Longrightarrow> keeps stored ok d d'"
  by (auto simp: resetNode_def Let_def dest: send_keeps split: prod.splits sum.splits if_splits)

lemma resume_keeps: "resume_or_reset env n resp x what d = (r, d') \<Longrightarrow> keeps stored ok d d'"
  by (auto simp: resume_or_reset_def dest: resetNode_keeps split: prod.splits option.splits if_splits)

lemma probe_loop_keeps: "probe_loop env n m d = (r, d') \<Longrightarrow> keeps stored ok d d'"
proof (induction m arbitrary: d)
  case (Suc m)
  obtain b1 d1 where c1: "check (re_aborted env (ro_ID (dv_state d))) d = (b1, d1)" by fastforce
  obtain r2 d2 where s2: "send env n (plain_command d1 CmdStatus) d1 = (r2, d2)" by fastforce
  obtain b3 d3 where c3: "check (re_aborted env (ro_ID (dv_state d2))) d2 = (b3, d3)" by fastforce
  obtain b4 d4 where c4: "check (re_done env) d3 = (b4, d4)" by fastforce
  have t1: "keeps stored ok d d1" by (rule aborted_keeps [OF c1])
  have t2: "keeps stored ok d d2" by (rule keeps_trans [OF t1 send_keeps [OF s2]])
  have t3: "keeps stored ok d d3" by (rule keeps_trans [OF t2 aborted_keeps [OF c3]])
  have t4: "keeps stored ok d d4" by (rule keeps_trans [OF t3 done_keeps [OF c4]])
  show ?case using Suc.prems c1 s2 c3 c4 t1 t2 t3 t4 keeps_trans [OF t4 Suc.IH] keeps_trans [OF t2 resume_keeps]
    by (auto split: sum.splits bool.splits if_splits)
qed simp

lemma node_command_keeps: "node_command env cmd n d = (r, d') \<Longrightarrow> keeps stored ok d d'"
proof -
  assume r: "node_command env cmd n d = (r, d')"
  obtain b d1 where c: "check (re_aborted env (ro_ID (dv_state d))) d = (b, d1)" by fastforce
  have t1: "keeps stored ok d d1" by (rule aborted_keeps [OF c])
  show ?thesis using r c t1 keeps_trans [OF t1 send_keeps]
    by (auto simp: node_command_def Let_def split: prod.splits sum.splits bool.splits if_splits)
qed

lemma revert_node_keeps: "revert_node env n d = (r, d') \<Longrightarrow> keeps stored ok d d'"
proof -
  assume r: "revert_node env n d = (r, d')"
  obtain p d1 where s1: "send env n (plain_command d CmdStatus) d = (p, d1)" by fastforce
  obtain q d2 where s2: "send env n (plain_command d1 CmdRollback) d1 = (q, d2)" by fastforce
  have "keeps stored ok d d1" "keeps stored ok d d2"
    using send_keeps [OF s1] keeps_trans [OF send_keeps [OF s1] send_keeps [OF s2]] by simp_all
  then show ?thesis using r s1 s2 by (auto simp: revert_node_def Let_def split: if_splits)
qed

lemma each_keeps:
  assumes "\<And>x d y d'. f x d = (y, d') \<Longrightarrow> keeps stored ok d d'" "each f xs d = (ys, d')"
  shows "keeps stored ok d d'"
  using assms(2)
proof (induction xs arbitrary: d ys)
  case (Cons x xs)
  obtain y d1 ys' where "f x d = (y, d1)" "each f xs d1 = (ys', d')" using Cons.prems by (auto split: prod.splits)
  then show ?case using Cons.IH assms(1) keeps_trans by blast
qed simp

lemma revertBatch_keeps: "keeps stored ok d (revertBatch env d)"
proof (cases "current_batch (dv_state d) = []")
  case False
  obtain nodes d1 where c: "check (re_order env (current_batch (dv_state d))) d = (nodes, d1)" by fastforce
  obtain os d2 where e: "each (revert_node env) nodes d1 = (os, d2)" by fastforce
  have "keeps stored ok d d1" by (rule order_keeps [OF c])
  also have "keeps stored ok d1 d2" by (rule each_keeps [OF revert_node_keeps e])
  also have "keeps stored ok d2 (d2\<lparr>dv_state := fold record_revert os (dv_state d2)\<rparr>)"
    by (rule same_head_state [OF same_head_records(3)])
  finally show ?thesis using False c e by (simp add: revertBatch_def)
qed (simp add: revertBatch_def)

end

text \<open>The driver: it goes on only while it is behind every abort.\<close>

context cas_bucket
begin

lemma finishAborted_sound: "held stored ok k d \<Longrightarrow> lawful stored ok (dv_world d) (dv_world (finishAborted env d))"
proof -
  assume h: "held stored ok k d"
  define d1 where "d1 = revertBatch env d"
  have k1: "keeps stored ok d d1" unfolding d1_def by (rule revertBatch_keeps)
  have h1: "held stored ok k (set_rollout RolloutAborting d1)"
    using keeps_held [OF k1 h] by (simp add: held_def set_rollout_def)
  obtain e2 d2 where s2: "save_drv env (set_rollout RolloutAborting d1) = (e2, d2)" by fastforce
  have h2: "held stored ok k d2" and w2: "lawful stored ok (dv_world d1) (dv_world d2)"
    using save_sound [OF s2] h1 by (simp_all add: held_def set_rollout_def)
  obtain e3 d3 where s3: "save_drv env (set_rollout RolloutAborted d2) = (e3, d3)" by fastforce
  have "lawful stored ok (dv_world d2) (dv_world d3)"
    using save_sound(1) [OF s3] h2 by (simp add: held_def set_rollout_def)
  then have "lawful stored ok (dv_world d) (dv_world d3)"
    using lawful_trans [OF keeps_sound [OF k1] lawful_trans [OF w2]] by blast
  then show ?thesis using s2 s3 by (simp add: finishAborted_def d1_def Let_def)
qed

lemma persist_error_sound: "held stored ok k d \<Longrightarrow> lawful stored ok (dv_world d) (dv_world (handlePersistError env err d))"
proof (cases err)
  case AbortedExternally
  then show ?thesis using keeps_sound [OF revertBatch_keeps] by (simp add: handlePersistError_def)
next
  case (SaveFailed e)
  assume h: "held stored ok k d"
  obtain b d1 where c: "check (re_done env) d = (b, d1)" by fastforce
  have k1: "keeps stored ok d d1" by (rule done_keeps [OF c])
  let ?d2 = "d1\<lparr>dv_state := (dv_state d1)\<lparr>ro_State := RolloutAborted,
       ro_Error := ''aborted: rollout state persistence failed: '' @ e\<rparr>\<rparr>"
  obtain e3 d3 where s3: "save_drv env ?d2 = (e3, d3)" by fastforce
  have "lawful stored ok (dv_world d1) (dv_world d3)"
    using save_sound(1) [OF s3] keeps_held [OF k1 h] by (simp add: held_def)
  then show ?thesis using SaveFailed c s3 keeps_sound [OF k1] lawful_trans [OF keeps_sound [OF k1]]
    by (auto simp: handlePersistError_def abortForPersistFailure_def split: bool.splits)
qed (simp add: handlePersistError_def)

text \<open>Recording a result: the driver stops if the state cannot be saved.\<close>

lemma recorded:
  assumes "held stored ok k d" "same_head (dv_state d) st" "save_drv env (d\<lparr>dv_state := st\<rparr>) = (err, d1)"
  shows "lawful stored ok (dv_world d) (dv_world d1)" "held stored ok k d1"
    "lawful stored ok (dv_world d) (dv_world (handlePersistError env e d1))"
proof -
  have h: "held stored ok k (d\<lparr>dv_state := st\<rparr>)" using keeps_held [OF same_head_state [OF assms(2)] assms(1)] .
  show s: "lawful stored ok (dv_world d) (dv_world d1)" "held stored ok k d1"
    using save_sound [OF assms(3)] h by (simp_all add: held_def)
  show "lawful stored ok (dv_world d) (dv_world (handlePersistError env e d1))"
    by (rule lawful_trans [OF s(1) persist_error_sound [OF s(2)]])
qed

lemma plan_results_sound:
  "plan_results env rs plan d = (plan', out, d') \<Longrightarrow> held stored ok k d \<Longrightarrow>
     lawful stored ok (dv_world d) (dv_world d') \<and> (out \<noteq> BatchStop \<longrightarrow> held stored ok k d')"
proof (induction rs arbitrary: d plan)
  case (Cons res rs)
  obtain err d1 where s: "save_drv env (d\<lparr>dv_state := record_probe res (dv_state d)\<rparr>) = (err, d1)" by fastforce
  note rec = recorded [OF Cons.prems(2) same_head_records(1) s]
  show ?case
  proof (cases err)
    case None
    show ?thesis
    proof (cases "max_failed d1")
      case True
      then show ?thesis using Cons.prems(1) s None rec(1,2) by (auto simp: Let_def)
    next
      case False
      then have "plan_results env rs (extend_plan res plan) d1 = (plan', out, d')" using Cons.prems(1) s None by (simp add: Let_def)
      from Cons.IH [OF this rec(2)] show ?thesis using lawful_trans [OF rec(1)] by blast
    qed
  next
    case (Some e)
    then show ?thesis using Cons.prems(1) s rec(3) by auto
  qed
qed simp

lemma collect_sound:
  "collect_results env s rs d = (out, d') \<Longrightarrow> held stored ok k d \<Longrightarrow>
     lawful stored ok (dv_world d) (dv_world d') \<and> (out \<noteq> BatchStop \<longrightarrow> held stored ok k d')"
proof (induction rs arbitrary: d)
  case (Cons res rs)
  obtain err d1 where s: "save_drv env (d\<lparr>dv_state := record_command s res (dv_state d)\<rparr>) = (err, d1)" by fastforce
  note rec = recorded [OF Cons.prems(2) same_head_records(2) s]
  show ?case
  proof (cases err)
    case None
    show ?thesis
    proof (cases "max_failed d1")
      case True
      then show ?thesis using Cons.prems(1) s None rec(1,2) by auto
    next
      case False
      then have "collect_results env s rs d1 = (out, d')" using Cons.prems(1) s None by simp
      from Cons.IH [OF this rec(2)] show ?thesis using lawful_trans [OF rec(1)] by blast
    qed
  next
    case (Some e)
    then show ?thesis using Cons.prems(1) s rec(3) by auto
  qed
qed simp

end

text \<open>A step of the loop over the batches: lawful, and behind every abort when the loop goes on.\<close>

definition loop_step :: "('w \<Rightarrow> (RolloutState \<times> nat) option) \<Rightarrow> ('w \<Rightarrow> bool) \<Rightarrow> string \<Rightarrow> 'w drv \<Rightarrow> bool \<times> 'w drv \<Rightarrow> bool" where
  "loop_step stored ok k d r \<longleftrightarrow> lawful stored ok (dv_world d) (dv_world (snd r)) \<and> (fst r \<longrightarrow> held stored ok k (snd r))"

lemma loop_step_after:
  "lawful stored ok (dv_world d) (dv_world d1) \<Longrightarrow> loop_step stored ok k d1 r \<Longrightarrow> loop_step stored ok k d r"
  by (auto simp: loop_step_def intro: lawful_trans)

lemma loop_step_stop: "lawful stored ok (dv_world d) (dv_world d') \<Longrightarrow> loop_step stored ok k d (False, d')"
  by (simp add: loop_step_def)

context cas_bucket
begin

lemma on_ok_step:
  assumes "lawful stored ok (dv_world d) (dv_world d1)" "out \<noteq> BatchStop \<Longrightarrow> held stored ok k d1"
    and "held stored ok k d1 \<Longrightarrow> loop_step stored ok k d1 (f d1)"
  shows "loop_step stored ok k d (on_ok env (out, d1) f)"
proof (cases out)
  case BatchOK
  then show ?thesis using loop_step_after [OF assms(1,3)] assms(2) by (simp add: on_ok_def)
next
  case BatchAbort
  then show ?thesis using loop_step_stop [OF lawful_trans [OF assms(1) finishAborted_sound]] assms(2) by (simp add: on_ok_def)
next
  case BatchStop
  then show ?thesis using loop_step_stop [OF assms(1)] by (simp add: on_ok_def)
qed

lemma planBatch_sound:
  assumes "planBatch env batch d = (plan, out, d')" "held stored ok k d"
  shows "lawful stored ok (dv_world d) (dv_world d') \<and> (out \<noteq> BatchStop \<longrightarrow> held stored ok k d')"
proof -
  obtain nodes d1 where c: "check (re_order env batch) d = (nodes, d1)" by fastforce
  obtain rs d2 where e: "each (probeNode env) nodes d1 = (rs, d2)" by fastforce
  have "keeps stored ok d1 d2"
    by (rule each_keeps [OF _ e]) (simp add: probeNode_def probe_loop_keeps)
  then have k2: "keeps stored ok d d2" by (rule keeps_trans [OF order_keeps [OF c]])
  have "plan_results env (sort_key pb_nodeID rs) \<lparr>pl_prepare = [], pl_apply = [], pl_confirm = [], pl_needSoak = False\<rparr> d2 = (plan, out, d')"
    using assms(1) c e by (simp add: planBatch_def)
  from plan_results_sound [OF this keeps_held [OF k2 assms(2)]] show ?thesis using lawful_trans [OF keeps_sound [OF k2]] by blast
qed

lemma run_command_sound:
  assumes "run_command env nodes cmd s d = (out, d')" "held stored ok k d"
  shows "lawful stored ok (dv_world d) (dv_world d') \<and> (out \<noteq> BatchStop \<longrightarrow> held stored ok k d')"
proof (cases "nodes = []")
  case False
  obtain ns d1 where c: "check (re_order env nodes) d = (ns, d1)" by fastforce
  obtain rs d2 where e: "each (node_command env cmd) ns d1 = (rs, d2)" by fastforce
  have k2: "keeps stored ok d d2" by (rule keeps_trans [OF order_keeps [OF c] each_keeps [OF node_command_keeps e]])
  have "collect_results env s rs d2 = (out, d')" using assms(1) False c e by (simp add: run_command_def runBatchCommand_def)
  from collect_sound [OF this keeps_held [OF k2 assms(2)]] show ?thesis using lawful_trans [OF keeps_sound [OF k2]] by blast
qed (use assms in \<open>simp add: run_command_def\<close>)

lemma command_step:
  assumes "held stored ok k d" "\<And>d1. held stored ok k d1 \<Longrightarrow> loop_step stored ok k d1 (f d1)"
  shows "loop_step stored ok k d (on_ok env (run_command env nodes cmd s d) f)"
proof -
  obtain out d1 where r: "run_command env nodes cmd s d = (out, d1)" by fastforce
  show ?thesis unfolding r by (rule on_ok_step) (use run_command_sound [OF r assms(1)] assms(2) in blast)+
qed

lemma wait_polls_sound:
  "wait_polls env n d = (b, d') \<Longrightarrow> held stored ok k d \<Longrightarrow> lawful stored ok (dv_world d) (dv_world d') \<and> (\<not> b \<longrightarrow> held stored ok k d')"
proof (induction n arbitrary: d)
  case (0 d)
  obtain b1 d1 where c1: "check (re_aborted env (ro_ID (dv_state d))) d = (b1, d1)" by fastforce
  have k1: "keeps stored ok d d1" by (rule aborted_keeps [OF c1])
  have h1: "held stored ok k d1" by (rule keeps_held [OF k1 0(2)])
  show ?case using 0(1) c1 h1 keeps_sound [OF k1] lawful_trans [OF keeps_sound [OF k1] finishAborted_sound [OF h1]]
    by (auto simp: wait_polls.simps [of env 0] split: bool.splits)
next
  case (Suc n d)
  obtain b1 d1 where c1: "check (re_aborted env (ro_ID (dv_state d))) d = (b1, d1)" by fastforce
  obtain b2 d2 where c2: "check (isAbortedInKV env (ro_ID (dv_state d1))) d1 = (b2, d2)" by fastforce
  have k1: "keeps stored ok d d1" by (rule aborted_keeps [OF c1])
  have k2: "keeps stored ok d d2" by (rule keeps_trans [OF k1 kv_keeps [OF c2]])
  have h: "held stored ok k d1" "held stored ok k d2" using k1 k2 Suc.prems(2) by (blast intro: keeps_held)+
  have r: "(if b1 then (True, finishAborted env d1) else if b2 then (True, revertBatch env d2) else wait_polls env n d2) = (b, d')"
    using Suc.prems(1) c1 c2 by (simp add: wait_polls.simps [of env "Suc n"] split: bool.splits)
  show ?case
  proof (cases "b1 \<or> b2")
    case True
    then show ?thesis
      using r lawful_trans [OF keeps_sound [OF k1] finishAborted_sound [OF h(1)]]
        keeps_sound [OF keeps_trans [OF k2 revertBatch_keeps]] by (auto split: if_splits)
  next
    case False
    then have "wait_polls env n d2 = (b, d')" using r by simp
    from Suc.IH [OF this h(2)] show ?thesis using lawful_trans [OF keeps_sound [OF k2]] by blast
  qed
qed

lemma wait_loop_step:
  assumes "held stored ok k d" "\<And>d1. held stored ok k d1 \<Longrightarrow> loop_step stored ok k d1 (f d1)"
  shows "loop_step stored ok k d (wait_unless env skip secs d f)"
proof (cases skip)
  case False
  obtain b d1 where w: "wait_polls env (nat (secs div 5)) d = (b, d1)" by fastforce
  note s = wait_polls_sound [OF w assms(1)]
  show ?thesis
  proof (cases b)
    case True
    then show ?thesis using False w s loop_step_stop by (simp add: wait_unless_def waitOrAbort_def)
  next
    case go_on: False
    then have "loop_step stored ok k d (f d1)" using s assms(2) loop_step_after by blast
    then show ?thesis using False go_on w by (simp add: wait_unless_def waitOrAbort_def)
  qed
qed (use assms in \<open>simp add: wait_unless_def\<close>)

lemma drive_plan_step: "held stored ok k d \<Longrightarrow> loop_step stored ok k d (drive_plan env plan last_one d)"
  unfolding drive_plan_def Let_def
  by (rule command_step, assumption, rule command_step, assumption, rule wait_loop_step, assumption,
      rule command_step, assumption, rule wait_loop_step, assumption, simp add: loop_step_def)

end

context cas_bucket
begin

lemma run_batch_step:
  assumes "held stored ok k d"
  shows "loop_step stored ok k d (run_batch env i batch d)"
proof -
  obtain b1 d1 where c1: "check (re_aborted env (ro_ID (dv_state d))) d = (b1, d1)" by fastforce
  obtain b2 d2 where c2: "check (isAbortedInKV env (ro_ID (dv_state d1))) d1 = (b2, d2)" by fastforce
  let ?d2 = "d2\<lparr>dv_state := (dv_state d2)\<lparr>ro_State := RolloutRolling, ro_CurrentBatch := i\<rparr>\<rparr>"
  obtain err d3 where sv: "save_drv env ?d2 = (err, d3)" by fastforce
  obtain plan out d4 where pb: "planBatch env batch d3 = (plan, out, d4)" by (cases "planBatch env batch d3")
  define last_one where "last_one \<longleftrightarrow> i + 1 = length (ro_Batches (dv_state d4))"
  have r: "run_batch env i batch d =
      (if b1 then (False, finishAborted env d1) else if b2 then (False, revertBatch env d2)
       else case err of Some e \<Rightarrow> (False, handlePersistError env e d3)
            | None \<Rightarrow> on_ok env (out, d4) (drive_plan env plan last_one))"
    using c1 c2 sv pb by (cases b1; cases b2; cases err) (simp_all add: run_batch_def persistProgress_def last_one_def)
  have k1: "keeps stored ok d d1" by (rule aborted_keeps [OF c1])
  have k2: "keeps stored ok d d2" by (rule keeps_trans [OF k1 kv_keeps [OF c2]])
  have "held stored ok k ?d2" using keeps_held [OF k2 assms] by (simp add: held_def)
  then have s3: "lawful stored ok (dv_world d) (dv_world d3)" "held stored ok k d3"
    using save_sound [OF sv] lawful_trans [OF keeps_sound [OF k2]] by (simp_all add: held_def)
  have s4: "lawful stored ok (dv_world d3) (dv_world d4)" "out \<noteq> BatchStop \<Longrightarrow> held stored ok k d4"
    using planBatch_sound [OF pb s3(2)] by simp_all
  have "loop_step stored ok k d3 (on_ok env (out, d4) (drive_plan env plan last_one))"
    by (rule on_ok_step [OF s4(1)]) (simp_all add: s4(2) drive_plan_step)
  then show ?thesis unfolding r
    using loop_step_after [OF s3(1)] loop_step_stop [OF lawful_trans [OF keeps_sound [OF k1] finishAborted_sound [OF keeps_held [OF k1 assms]]]]
      loop_step_stop [OF keeps_sound [OF keeps_trans [OF k2 revertBatch_keeps]]]
      loop_step_stop [OF lawful_trans [OF s3(1) persist_error_sound [OF s3(2)]]]
    by (simp split: option.split)
qed

lemma run_batches_step: "held stored ok k d \<Longrightarrow> loop_step stored ok k d (run_batches env i batches d)"
proof (induction batches arbitrary: i d)
  case (Cons batch batches)
  obtain b1 d1 where rb: "run_batch env i batch d = (b1, d1)" by fastforce
  have s: "loop_step stored ok k d (b1, d1)" using run_batch_step [OF Cons.prems] rb by metis
  show ?case
  proof (cases b1)
    case True
    then show ?thesis using rb s Cons.IH [of d1 "i + 1"] loop_step_after [of stored ok d d1] by (simp add: loop_step_def)
  next
    case False
    then show ?thesis using rb s by simp
  qed
qed (simp add: loop_step_def)

lemma execute_sound:
  assumes "held stored ok k d"
  shows "lawful stored ok (dv_world d) (dv_world (executeRollout env d))"
proof (cases "ro_State (dv_state d) = RolloutAborting")
  case True
  then show ?thesis using finishAborted_sound [OF assms] by (simp add: executeRollout_def)
next
  case False
  let ?i = "ro_CurrentBatch (dv_state d)"
  obtain b d1 where r: "run_batches env ?i (drop ?i (ro_Batches (dv_state d))) d = (b, d1)" by fastforce
  have s: "loop_step stored ok k d (b, d1)" using run_batches_step [OF assms] r by metis
  obtain e d2 where sv: "save_drv env (set_rollout RolloutCompleted d1) = (e, d2)" by fastforce
  have "b \<Longrightarrow> lawful stored ok (dv_world d1) (dv_world d2)"
    using save_sound(1) [OF sv] s by (simp add: loop_step_def held_def set_rollout_def)
  then show ?thesis using False r s sv lawful_trans by (fastforce simp: executeRollout_def loop_step_def split: bool.splits)
qed

text \<open>An abort through another master follows the same rule.\<close>

lemma Save_abort:
  assumes "Save env st w = (res, w1)" "ro_ID st = k" "ro_State st = RolloutAborted" "ok w"
  shows "lawful stored ok w w1" "res = Inr st1 \<Longrightarrow> aborted_record (stored w1) \<and> core st1 = core st"
proof -
  note W = Save_writes [OF assms(1,2)]
  have m: "moves (stored w) (stored w1)"
  proof (cases res)
    case (Inl e)
    then show ?thesis using W(2) assms(4) by blast
  next
    case (Inr st2)
    then obtain x where x: "moves (stored w) x" "x = None \<and> ro_Revision st = 0 \<or> (\<exists>r0. x = Some (r0, ro_Revision st))"
      and st2: "ro_Revision st < ro_Revision st2" "moves (Some (st, ro_Revision st2)) (stored w1)" using W(3) assms(4) by blast
    have "moves x (Some (st, ro_Revision st2))" using x(2) st2(1) assms(3) by auto
    then show ?thesis using moves_trans [OF x(1) moves_trans [OF _ st2(2)]] by blast
  qed
  then show "lawful stored ok w w1" using W(1) assms(3) by (simp add: lawful_def)
  show "res = Inr st1 \<Longrightarrow> aborted_record (stored w1) \<and> core st1 = core st"
    using W(3) assms(3,4) moves_aborted by fastforce
qed

end

context keyed_bucket
begin

lemma abort_attempts_sound:
  assumes "abort_attempts env n k w = (err, w1)" "ok w"
  shows "lawful stored ok w w1 \<and> (err = None \<longrightarrow> aborted_record (stored w1))"
  using assms
proof (induction n arbitrary: w)
  case (Suc n)
  obtain got w2 where g: "Rollout_Get env k w = (got, w2)" by fastforce
  have s2: "lawful stored ok w w2" by (rule Get_sound [OF g])
  show ?case
  proof (cases got)
    case (Inl e)
    then show ?thesis using Suc.prems(1) g s2 by auto
  next
    case (Inr p)
    obtain r where g': "re_get env k w = (Inr (r, ro_Revision p), w2)"
      and r: "ro_State r = ro_State p" "ro_ID r = ro_ID p" "moves (Some (r, ro_Revision p)) (stored w2)"
      using Get_stored [OF g [unfolded Inr] Suc.prems(2)] by blast
    have ID: "ro_ID p = k" using stored_id [OF g' Suc.prems(2)] r(2) by simp
    have ok2: "ok w2" using s2 Suc.prems(2) by (simp add: lawful_def)
    let ?p = "p\<lparr>ro_State := RolloutAborted, ro_Error := (if ro_Error p = '''' then ''aborted by operator'' else ro_Error p)\<rparr>"
    obtain res w3 where sv: "Save env ?p w2 = (res, w3)" by fastforce
    note Save = Save_abort [OF sv]
    have s3: "lawful stored ok w w3" by (rule lawful_trans [OF s2 Save(1)]) (simp_all add: ID ok2)
    show ?thesis
    proof (cases "RolloutTerminal (ro_State p)")
      case True
      then show ?thesis using Suc.prems(1) g Inr s2 r(1) moves_aborted [OF r(3)]
        by (auto simp: RolloutTerminal_def lawful_def split: if_splits)
    next
      case False
      show ?thesis
      proof (cases res)
        case (Inl e)
        have "abort_attempts env n k w3 = (err, w1)" using Suc.prems(1) g Inr False sv Inl by (simp add: RolloutTerminal_def Let_def)
        moreover have "ok w3" using s3 Suc.prems(2) by (simp add: lawful_def)
        ultimately show ?thesis using Suc.IH lawful_trans [OF s3] by blast
      next
        case done1: (Inr p')
        define d where "d = revertBatch env \<lparr>dv_state = p', dv_world = w3, dv_sent = []\<rparr>"
        have keep: "keeps stored ok \<lparr>dv_state = p', dv_world = w3, dv_sent = []\<rparr> d" unfolding d_def by (rule revertBatch_keeps)
        have p': "ro_ID p' = k" "ro_State p' = RolloutAborted" "aborted_record (stored w3)"
          using Save(2) [OF _ _ ok2] done1 ID by (auto simp: core_def)
        obtain res2 w4 where sv2: "Save env (dv_state d) (dv_world d) = (res2, w4)" by fastforce
        have kd: "lawful stored ok w3 (dv_world d)" "same_head p' (dv_state d)" using keep by (simp_all add: keeps_def)
        have s4: "lawful stored ok w3 w4"
          by (rule lawful_trans [OF kd(1) Save_abort(1) [OF sv2]]) (use kd p' s3 Suc.prems(2) in \<open>simp_all add: same_head_def lawful_def\<close>)
        have "err = None" "w1 = w4" using Suc.prems(1) g Inr False sv done1 sv2 by (simp_all add: RolloutTerminal_def Let_def d_def)
        then show ?thesis using lawful_trans [OF s3 s4] moves_aborted [OF _ p'(3), of "stored w4"] s3 s4 Suc.prems(2) by (simp add: lawful_def)
      qed
    qed
  qed
qed auto

end

section \<open>Two masters\<close>

text \<open>The bucket of a fleet satisfies the laws, for every key.\<close>

definition own_ids :: "fleet \<Rightarrow> bool" where
  "own_ids w \<longleftrightarrow> (\<forall>k r rv. map_of (fl_records w) k = Some (r, rv) \<longrightarrow> ro_ID r = k)"

lemma fleet_request_records: "fleet_request cfg n c w = (resp, w1) \<Longrightarrow> fl_records w1 = fl_records w"
  by (auto simp: fleet_request_def split: option.splits prod.splits)

lemma fleet_observes: "observes (fleet_env driver cfg m) w w1 \<Longrightarrow> fl_records w1 = fl_records w"
  by (erule observes.cases) (auto simp: bucket_get_def dest: fleet_request_records split: option.splits)

lemma own_ids_put: "own_ids w \<Longrightarrow> ro_ID r = k \<Longrightarrow> bucket_put k r w = (res, w1) \<Longrightarrow> own_ids w1"
  by (auto simp: own_ids_def bucket_put_def map_of_m_set split: if_splits)

lemma own_ids_writes:
  "own_ids w \<Longrightarrow> ro_ID r = k \<Longrightarrow> bucket_create k r w = (res, w1) \<Longrightarrow> own_ids w1"
  "own_ids w \<Longrightarrow> ro_ID r = k \<Longrightarrow> bucket_update k r rv w = (res, w1) \<Longrightarrow> own_ids w1"
  by (auto simp: bucket_create_def bucket_update_def dest: own_ids_put split: option.splits if_splits)

interpretation fleet_bucket: keyed_bucket "fleet_env driver cfg m" "\<lambda>w. map_of (fl_records w) k" k own_ids for driver cfg m k
proof unfold_locales
  fix w w1 :: fleet assume "observes (fleet_env driver cfg m) w w1"
  then have "fl_records w1 = fl_records w" by (rule fleet_observes)
  then show "moves (map_of (fl_records w) k) (map_of (fl_records w1) k)" "own_ids w \<Longrightarrow> own_ids w1"
    by (simp_all add: own_ids_def)
qed (auto simp: bucket_create_def bucket_update_def bucket_put_def bucket_get_def map_of_m_set own_ids_def split: option.splits if_splits)

text \<open>
  A driver, and an operator who aborts through another master. Before every call of the driver the script says whether
  the other master runs \<^verbatim>\<open>AbortRollout\<close>; \<open>ar_aborted\<close> remembers that one of these aborts was reported
  as done.
\<close>

record arena =
  ar_fleet :: fleet
  ar_script :: "bool list"
  ar_aborted :: bool

definition meddle :: "fleet renv \<Rightarrow> string \<Rightarrow> arena \<Rightarrow> arena" where
  "meddle other k a =
     (case ar_script a of
        [] \<Rightarrow> a
      | False # script \<Rightarrow> a\<lparr>ar_script := script\<rparr>
      | True # script \<Rightarrow>
          (case abort_attempts other rolloutSaveRetries k (ar_fleet a) of
             (err, w) \<Rightarrow> a\<lparr>ar_fleet := w, ar_script := script, ar_aborted := ar_aborted a \<or> err = None\<rparr>))"

definition meddled :: "fleet renv \<Rightarrow> string \<Rightarrow> (fleet \<Rightarrow> 'a \<times> fleet) \<Rightarrow> arena \<Rightarrow> 'a \<times> arena" where
  "meddled other k f a = (let a1 = meddle other k a in case f (ar_fleet a1) of (x, w) \<Rightarrow> (x, a1\<lparr>ar_fleet := w\<rparr>))"

definition arena_env :: "fleet renv \<Rightarrow> string \<Rightarrow> fleet renv \<Rightarrow> arena renv" where
  "arena_env other k env =
     \<lparr>re_driver = re_driver env, re_request = (\<lambda>n c. meddled other k (re_request env n c)),
      re_create = (\<lambda>i r. meddled other k (re_create env i r)), re_update = (\<lambda>i r rv. meddled other k (re_update env i r rv)),
      re_get = (\<lambda>i. meddled other k (re_get env i)), re_now = meddled other k (re_now env),
      re_aborted = (\<lambda>i. meddled other k (re_aborted env i)), re_done = meddled other k (re_done env),
      re_order = (\<lambda>ns. meddled other k (re_order env ns)), re_statusKV = re_statusKV env, re_manifest = re_manifest env\<rparr>"

lemma arena_env_sel [simp]:
  "re_driver (arena_env other k env) = re_driver env"
  "re_request (arena_env other k env) n c = meddled other k (re_request env n c)"
  "re_create (arena_env other k env) i r = meddled other k (re_create env i r)"
  "re_update (arena_env other k env) i r rv = meddled other k (re_update env i r rv)"
  "re_get (arena_env other k env) i = meddled other k (re_get env i)" "re_now (arena_env other k env) = meddled other k (re_now env)"
  "re_aborted (arena_env other k env) i = meddled other k (re_aborted env i)"
  "re_done (arena_env other k env) = meddled other k (re_done env)"
  "re_order (arena_env other k env) ns = meddled other k (re_order env ns)"
  by (simp_all add: arena_env_def)

definition arena_record :: "string \<Rightarrow> arena \<Rightarrow> (RolloutState \<times> nat) option" where
  "arena_record k a = map_of (fl_records (ar_fleet a)) k"

definition arena_ok :: "string \<Rightarrow> arena \<Rightarrow> bool" where
  "arena_ok k a \<longleftrightarrow> own_ids (ar_fleet a) \<and> (ar_aborted a \<longrightarrow> aborted_record (arena_record k a))"

lemma meddle_ok:
  assumes "arena_ok k a"
  shows "arena_ok k (meddle (fleet_env other cfg m) k a)" "moves (arena_record k a) (arena_record k (meddle (fleet_env other cfg m) k a))"
proof -
  let ?o = "fleet_env other cfg m"
  obtain err w where ab: "abort_attempts ?o rolloutSaveRetries k (ar_fleet a) = (err, w)" by fastforce
  have "own_ids (ar_fleet a)" using assms by (simp add: arena_ok_def)
  from fleet_bucket.abort_attempts_sound [OF ab this]
  have w: "own_ids w" "moves (arena_record k a) (map_of (fl_records w) k)" "err = None \<Longrightarrow> aborted_record (map_of (fl_records w) k)"
    using \<open>own_ids (ar_fleet a)\<close> by (auto simp: lawful_def arena_record_def)
  show "arena_ok k (meddle ?o k a)" "moves (arena_record k a) (arena_record k (meddle ?o k a))"
    using assms w ab moves_aborted [OF w(2)]
    by (auto simp: meddle_def arena_ok_def arena_record_def split: list.split bool.split)
qed

lemma meddled_elim:
  assumes "meddled other k f a = (x, a1)"
  obtains w where "f (ar_fleet (meddle other k a)) = (x, w)" "a1 = (meddle other k a)\<lparr>ar_fleet := w\<rparr>"
  using assms by (auto simp: meddled_def Let_def split: prod.splits)

lemma arena_observes:
  "observes (arena_env other k env) a a1 \<Longrightarrow> \<exists>w. observes env (ar_fleet (meddle other k a)) w \<and> a1 = (meddle other k a)\<lparr>ar_fleet := w\<rparr>"
  by (erule observes.cases) (auto elim!: meddled_elim intro: observes.intros)

lemma behind_before: "behind rv x \<Longrightarrow> moves x y \<Longrightarrow> y = Some (r, rv) \<Longrightarrow> ro_State r \<noteq> RolloutAborted"
  using behind_moves behind_current by blast

text \<open>The driver's calls: first the other master, then the bucket.\<close>

lemma arena_write_ok:
  assumes "arena_ok k a" "own_ids w" "aborted_record (arena_record k a) \<Longrightarrow> aborted_record (map_of (fl_records w) k)"
  shows "arena_ok k (a\<lparr>ar_fleet := w\<rparr>)"
  using assms by (simp add: arena_ok_def arena_record_def)

interpretation arena_bucket: cas_bucket "arena_env (fleet_env other cfg m) k (fleet_env driver cfg m)" "arena_record k" k "arena_ok k"
  for other driver cfg m k
proof unfold_locales
  let ?o = "fleet_env other cfg m" and ?e = "fleet_env driver cfg m"
  fix a a1 assume ok: "arena_ok k a"
  let ?a = "meddle ?o k a"
  note M = meddle_ok [OF ok, of other cfg m]
  have rec: "arena_record k (?a\<lparr>ar_fleet := w\<rparr>) = map_of (fl_records w) k" for w by (simp add: arena_record_def)
  have ids: "own_ids (ar_fleet ?a)" using M(1) by (simp add: arena_ok_def)
  show "moves (arena_record k a) (arena_record k a1)" if "observes (arena_env ?o k ?e) a a1"
    using arena_observes [OF that] M(2) by (auto simp: arena_record_def fleet_observes)
  show "arena_ok k a1" if "observes (arena_env ?o k ?e) a a1"
    using arena_observes [OF that] M(1) by (auto simp: arena_ok_def arena_record_def own_ids_def fleet_observes)
  fix r rv res rv1 e
  show "arena_ok k a1" if r: "re_create (arena_env ?o k ?e) k r a = (res, a1)" "ro_ID r = k"
  proof -
    obtain w where w: "bucket_create k r (ar_fleet ?a) = (res, w)" "a1 = ?a\<lparr>ar_fleet := w\<rparr>"
      using r(1) by (auto elim: meddled_elim)
    show ?thesis unfolding w(2) by (rule arena_write_ok [OF M(1) own_ids_writes(1) [OF ids r(2) w(1)]])
      (use w(1) in \<open>auto simp: arena_record_def bucket_create_def split: if_splits\<close>)
  qed
  show "arena_ok k a1" if r: "re_update (arena_env ?o k ?e) k r rv a = (res, a1)" "ro_ID r = k"
      "ro_State r = RolloutAborted \<or> behind rv (arena_record k a)"
  proof -
    obtain w where w: "bucket_update k r rv (ar_fleet ?a) = (res, w)" "a1 = ?a\<lparr>ar_fleet := w\<rparr>"
      using r(1) by (auto elim: meddled_elim)
    show ?thesis unfolding w(2) by (rule arena_write_ok [OF M(1) own_ids_writes(2) [OF ids r(2) w(1)]])
      (use w(1) r(3) behind_before [of rv, OF _ M(2)] in
        \<open>auto simp: arena_record_def bucket_update_def bucket_put_def map_of_m_set split: if_splits option.splits\<close>)
  qed
  show "moves (arena_record k a) (Some (r, rv)) \<and> moves (Some (r, rv)) (arena_record k a1)"
    if "re_get (arena_env ?o k ?e) k a = (Inr (r, rv), a1)"
    using that M(2) by (auto elim!: meddled_elim simp: arena_record_def bucket_get_def split: option.splits)
  show "moves (arena_record k a) (arena_record k a1)" if "re_create (arena_env ?o k ?e) k r a = (Inl e, a1)"
    using that M(2) by (auto elim!: meddled_elim simp: arena_record_def bucket_create_def bucket_put_def split: if_splits)
  show "moves (arena_record k a) (arena_record k a1)" if "re_update (arena_env ?o k ?e) k r rv a = (Inl e, a1)"
    using that M(2) by (auto elim!: meddled_elim simp: arena_record_def bucket_update_def bucket_put_def split: if_splits option.splits)
  show "arena_record k a = None \<and> 0 < rv1 \<and> moves (Some (r, rv1)) (arena_record k a1)"
    if "re_create (arena_env ?o k ?e) k r a = (Inr rv1, a1)"
    using that M(2) by (cases "arena_record k a")
      (auto elim!: meddled_elim simp: arena_record_def bucket_create_def bucket_put_def map_of_m_set split: if_splits)
  show "(\<exists>r0. moves (arena_record k a) (Some (r0, rv))) \<and> rv < rv1 \<and> moves (Some (r, rv1)) (arena_record k a1)"
    if upd: "re_update (arena_env ?o k ?e) k r rv a = (Inr rv1, a1)"
  proof -
    obtain w where w: "bucket_update k r rv (ar_fleet ?a) = (Inr rv1, w)" "a1 = ?a\<lparr>ar_fleet := w\<rparr>"
      using upd by (auto elim: meddled_elim)
    obtain r0 where "arena_record k ?a = Some (r0, rv)" "rv < rv1" "map_of (fl_records w) k = Some (r, rv1)"
      using w(1) by (auto simp: arena_record_def bucket_update_def bucket_put_def map_of_m_set split: if_splits option.splits)
    then show ?thesis using M(2) w(2) by (auto simp: rec)
  qed
qed

text \<open>C10: An abort wins. While a driver runs a rollout, an operator may abort it at any moment through another master; once an
  abort has been reported as done, no save, retry, completion or give-up of the driver replaces the aborted record: when the
  driver has ended, the record is aborted.\<close>

theorem abort_wins:
  assumes "own_ids (ar_fleet a)" "\<not> ar_aborted a" "ro_State st \<noteq> RolloutAborted"
    and "behind (ro_Revision st) (arena_record (ro_ID st) a)"
    and "executeRollout (arena_env (fleet_env other cfg m) (ro_ID st) (fleet_env driver cfg m)) \<lparr>dv_state = st, dv_world = a, dv_sent = []\<rparr> = d"
  shows "ar_aborted (dv_world d) \<longrightarrow> aborted_record (arena_record (ro_ID st) (dv_world d))"
proof -
  have "held (arena_record (ro_ID st)) (arena_ok (ro_ID st)) (ro_ID st) \<lparr>dv_state = st, dv_world = a, dv_sent = []\<rparr>"
    using assms(1-4) by (simp add: held_def knows_def arena_ok_def)
  from arena_bucket.execute_sound [OF this, of other cfg m driver] show ?thesis
    using assms by (simp add: lawful_def arena_ok_def)
qed

definition demo_arena :: "bool list \<Rightarrow> arena" where
  "demo_arena script =
     (case StartRollout demo_fleet_env '''' (demo_config 2) [''a'', ''b''] (demo_fleet [(''a'', demo_slots), (''b'', demo_slots)]) of
        (_, w) \<Rightarrow> \<lparr>ar_fleet = w, ar_script = script, ar_aborted = False\<rparr>)"

definition demo_driver :: "bool list \<Rightarrow> arena drv" where
  "demo_driver script =
     \<lparr>dv_state = (new_rollout '''' (demo_config 2) [''a'', ''b''])\<lparr>ro_DriverID := ''m1'', ro_Revision := 1\<rparr>,
      dv_world = demo_arena script, dv_sent = []\<rparr>"

definition demo_arena_env :: "arena renv" where
  "demo_arena_env = arena_env (fleet_env ''m2'' demo_handler (Inr demo_manifest)) ''r1'' (fleet_env ''m1'' demo_handler (Inr demo_manifest))"

lemma demo_arena_facts:
  "map fst (fl_records (ar_fleet (demo_arena [False, False, True]))) = [''r1'']"
  "map (ro_ID \<circ> fst \<circ> snd) (fl_records (ar_fleet (demo_arena [False, False, True]))) = [''r1'']"
  "map (\<lambda>(_, r, rv). (ro_State r, rv)) (fl_records (ar_fleet (demo_arena [False, False, True]))) = [(RolloutCreated, 1)]"
  "\<not> ar_aborted (demo_arena [False, False, True])"
  by code_simp+

lemma demo_abort_reported: "ar_aborted (dv_world (executeRollout demo_arena_env (demo_driver [False, False, True])))"
  by code_simp

theorem abort_wins_witness:
  "aborted_record (arena_record ''r1'' (dv_world (executeRollout demo_arena_env (demo_driver [False, False, True]))))"
proof -
  let ?a = "demo_arena [False, False, True]"
  obtain r where r: "fl_records (ar_fleet ?a) = [(''r1'', r, 1)]" "ro_ID r = ''r1''" "ro_State r = RolloutCreated"
    using demo_arena_facts(1-3) by (auto simp: Cons_eq_map_conv map_eq_Cons_conv)
  have st: "ro_ID (dv_state (demo_driver s)) = ''r1''" "ro_State (dv_state (demo_driver s)) = RolloutCreated"
    "ro_Revision (dv_state (demo_driver s)) = 1" for s
    by (simp_all add: demo_driver_def new_rollout_def demo_config_def)
  have d: "demo_driver [False, False, True] = \<lparr>dv_state = dv_state (demo_driver [False, False, True]), dv_world = ?a, dv_sent = []\<rparr>"
    by (simp add: demo_driver_def)
  from abort_wins [of ?a "dv_state (demo_driver [False, False, True])" "''m2''" demo_handler "Inr demo_manifest" "''m1''",
      OF _ demo_arena_facts(4) _ _ refl, unfolded st, folded demo_arena_env_def d]
  show ?thesis using demo_abort_reported r by (simp add: own_ids_def arena_record_def behind_def split: if_splits)
qed

end
