(* ===== verification/JobCore.thy ===== *)
theory JobCore
  imports GoValue Actions
begin

text \<open>
  The data of the job subsystem (\<^verbatim>\<open>src/pkg/job/job.go\<close>, the keys of \<^verbatim>\<open>src/pkg/job/active.go\<close>,
  \<^verbatim>\<open>src/pkg/proto/exec.go\<close> and the subjects of \<^verbatim>\<open>src/pkg/bus/subjects.go\<close>).

  Times and durations are nanoseconds, counted from the zero value of \<^verbatim>\<open>time.Time\<close>. The bus is a service
  outside the repository: it is a parameter of every operation, a record of functions on a world \<open>'w\<close>
  (\<open>jenv\<close> of \<open>JobWatcher\<close>), each of which is one request. Encoding is left out: a value that is stored or sent is the value itself, and
  reading may give a decoding error.
\<close>

section \<open>Jobs\<close>

definition defaultJobTimeout :: int where "defaultJobTimeout = 60 * 10 ^ 9"

definition StatusPending :: string where "StatusPending = ''pending''"
definition StatusClaimed :: string where "StatusClaimed = ''claimed''"
definition StatusRunning :: string where "StatusRunning = ''running''"
definition StatusCanceled :: string where "StatusCanceled = ''canceled''"
definition StatusComplete :: string where "StatusComplete = ''complete''"
definition StatusPartial :: string where "StatusPartial = ''partial''"
definition StatusTimeout :: string where "StatusTimeout = ''timeout''"
definition StatusFailed :: string where "StatusFailed = ''failed''"

lemmas status_defs = StatusPending_def StatusClaimed_def StatusRunning_def StatusCanceled_def StatusComplete_def
  StatusPartial_def StatusTimeout_def StatusFailed_def

definition ProtocolVersion :: int where "ProtocolVersion = 1"

record Job =
  jb_JID :: string
  jb_Function :: string
  jb_Args :: config
  jb_Targets :: "string list"
  jb_Timeout :: int
  jb_Status :: string
  jb_Created :: int
  jb_Updated :: int
  jb_User :: string
  jb_Owner :: string
  jb_Epoch :: nat
  jb_Deadline :: int
  jb_ReclaimCount :: int
  jb_OfflineAtDispatch :: "string list"
  jb_StateID :: string
  jb_TargetExpr :: string
  jb_ReturnCount :: nat
  jb_SuccessCount :: nat
  jb_V :: int
  jb_Metadata :: "(string, string) gomap"

definition effective_timeout :: "int \<Rightarrow> int" where
  "effective_timeout timeout = (if timeout \<le> 0 then defaultJobTimeout else timeout)"

definition NewJob :: "int \<Rightarrow> string \<Rightarrow> string \<Rightarrow> config \<Rightarrow> string list \<Rightarrow> int \<Rightarrow> Job" where
  "NewJob now jid function args targets timeout =
     \<lparr> jb_JID = jid, jb_Function = function, jb_Args = args, jb_Targets = targets, jb_Timeout = timeout,
       jb_Status = StatusPending, jb_Created = now, jb_Updated = now, jb_User = '''', jb_Owner = '''', jb_Epoch = 0,
       jb_Deadline = now + effective_timeout timeout, jb_ReclaimCount = 0, jb_OfflineAtDispatch = [],
       jb_StateID = '''', jb_TargetExpr = '''', jb_ReturnCount = 0, jb_SuccessCount = 0, jb_V = ProtocolVersion,
       jb_Metadata = [] \<rparr>"

definition normalizeDeadline :: "int \<Rightarrow> Job \<Rightarrow> Job" where
  "normalizeDeadline now j =
     (if jb_Deadline j \<noteq> 0 then j
      else let base = (if jb_Created j = 0 then now else jb_Created j)
           in j\<lparr>jb_Deadline := base + effective_timeout (jb_Timeout j)\<rparr>)"

text \<open>\<^verbatim>\<open>strconv.Atoi\<close>: an optional sign, then decimal digits, of a value that fits 64 bits.\<close>

fun digits_value :: "nat \<Rightarrow> string \<Rightarrow> nat option" where
  "digits_value acc [] = Some acc"
| "digits_value acc (c # cs) =
     (let n = of_char c :: nat in if 48 \<le> n \<and> n \<le> 57 then digits_value (10 * acc + (n - 48)) cs else None)"

definition atoi :: "string \<Rightarrow> int option" where
  "atoi s =
     (let neg = (s \<noteq> [] \<and> hd s = CHR ''-'');
          ds = (if s \<noteq> [] \<and> hd s \<in> {CHR ''-'', CHR ''+''} then tl s else s)
      in if ds = [] then None
         else (case digits_value 0 ds of
                 None \<Rightarrow> None
               | Some n \<Rightarrow> let i = (if neg then - int n else int n)
                          in if - (2 ^ 63) \<le> i \<and> i < 2 ^ 63 then Some i else None))"

definition MetadataReactorDepth :: string where "MetadataReactorDepth = ''reactor_depth''"

definition reactorDepth :: "Job \<Rightarrow> int" where
  "reactorDepth j =
     (case map_of (jb_Metadata j) MetadataReactorDepth of
        None \<Rightarrow> 0
      | Some raw \<Rightarrow> (case atoi raw of None \<Rightarrow> 0 | Some depth \<Rightarrow> if depth < 0 then 0 else depth))"

record ExecRequest =
  er_V :: int
  er_JID :: string
  er_Module :: string
  er_ID :: string
  er_Args :: config
  er_Epoch :: nat
  er_ReactorDepth :: int

definition execRequestForJob :: "Job \<Rightarrow> ExecRequest" where
  "execRequestForJob j =
     \<lparr> er_V = ProtocolVersion, er_JID = jb_JID j, er_Module = jb_Function j, er_ID = jb_StateID j, er_Args = jb_Args j,
       er_Epoch = jb_Epoch j, er_ReactorDepth = reactorDepth j \<rparr>"

definition TargetCount :: "Job \<Rightarrow> nat" where
  "TargetCount j = length (jb_Targets j)"

definition IsTerminal :: "Job \<Rightarrow> bool" where
  "IsTerminal j \<longleftrightarrow> jb_Status j \<in> {StatusComplete, StatusPartial, StatusTimeout, StatusFailed, StatusCanceled}"

record Return =
  rt_JID :: string
  rt_PeelID :: string
  rt_Success :: bool
  rt_ReturnData :: gval
  rt_Error :: string
  rt_Duration :: int
  rt_Timestamp :: int
  rt_Unreachable :: bool

definition UnreachableError :: string where
  "UnreachableError = ''UNREACHABLE: no heartbeat at dispatch and no ack after republish''"

record Ack =
  ak_JID :: string
  ak_PeelID :: string
  ak_Timestamp :: int

definition EventDispatched :: string where "EventDispatched = ''dispatched''"
definition EventCompleted :: string where "EventCompleted = ''completed''"
definition EventCanceled :: string where "EventCanceled = ''canceled''"
definition EventFailed :: string where "EventFailed = ''failed''"

datatype event_data = NoData | JobData Job | ValueData gval

record Event =
  ev_JID :: string
  ev_Type :: string
  ev_PeelID :: string
  ev_Data :: event_data
  ev_Timestamp :: int

record MasterHeartbeat =
  mh_MasterID :: string
  mh_ActiveJobs :: "string list"
  mh_Timestamp :: int

section \<open>Subjects and keys\<close>

definition SubjectCmd :: string where "SubjectCmd = ''zester.cmd''"
definition SubjectJob :: string where "SubjectJob = ''zester.job''"

definition CmdSubject :: "string \<Rightarrow> string" where
  "CmdSubject peelID = SubjectCmd @ ''.'' @ peelID"

definition JobSubject :: "string \<Rightarrow> string" where
  "JobSubject jid = SubjectJob @ ''.'' @ jid"

definition JobDispatchSubject :: "string \<Rightarrow> string" where
  "JobDispatchSubject jid = SubjectJob @ ''.'' @ jid @ ''.dispatch''"

definition JobAckSubject :: "string \<Rightarrow> string \<Rightarrow> string" where
  "JobAckSubject jid peelID = SubjectJob @ ''.'' @ jid @ ''.ack.'' @ peelID"

definition JobReturnSubject :: "string \<Rightarrow> string \<Rightarrow> string" where
  "JobReturnSubject jid peelID = SubjectJob @ ''.'' @ jid @ ''.return.'' @ peelID"

definition JobStatusSubject :: "string \<Rightarrow> string" where
  "JobStatusSubject jid = SubjectJob @ ''.'' @ jid @ ''.status''"

definition JobCancelSubject :: "string \<Rightarrow> string" where
  "JobCancelSubject jid = SubjectJob @ ''.'' @ jid @ ''.cancel''"

definition ActiveJobKeyPrefix :: string where "ActiveJobKeyPrefix = ''active.''"

definition ActiveJobKey :: "string \<Rightarrow> string" where
  "ActiveJobKey jid = ActiveJobKeyPrefix @ jid"

record ActiveJobEntry =
  ae_Owner :: string
  ae_Updated :: int

text \<open>\<^verbatim>\<open>strings.SplitN(s, sep, n)\<close> for \<^verbatim>\<open>n > 0\<close>: at most \<open>n\<close> parts, the last one with the rest.\<close>

fun splitN :: "nat \<Rightarrow> char \<Rightarrow> string \<Rightarrow> string list" where
  "splitN 0 c s = []"
| "splitN (Suc 0) c s = [s]"
| "splitN (Suc (Suc n)) c s =
     (let a = takeWhile (\<lambda>x. x \<noteq> c) s in
      if a = s then [s] else a # splitN (Suc n) c (drop (Suc (length a)) s))"

definition subjectPeelID :: "string \<Rightarrow> string option" where
  "subjectPeelID subject =
     (let parts = splitN 5 (CHR ''.'') subject in
      if length parts \<noteq> 5 \<or> parts ! 4 = '''' then None else Some (parts ! 4))"

end
