(* ===== verification/JobWatcher.thy ===== *)
theory JobWatcher
  imports JobCore
begin

text \<open>
  The watcher of one job (\<^verbatim>\<open>src/pkg/job/watcher.go\<close>), and the record of requests to the message bus that the whole
  job subsystem makes.

  A watcher is a state machine: callbacks of the two subscriptions, calls of \<^verbatim>\<open>Cancel\<close>, \<^verbatim>\<open>Detach\<close> and
  \<^verbatim>\<open>MergeReturns\<close>, the writer goroutine and the timers all work on its fields under one mutex, so one list of events
  in any order stands for one execution. The flag \<open>w_stop\<close> is the cancelled context, which the loop notices at some later
  time. Messages that arrive before the second subscription are the first events of the loop, and messages that arrive after
  the loop has ended are not events.
\<close>

section \<open>The state of a watcher\<close>

record Watcher =
  w_job :: Job
  w_Redispatch :: bool
  w_AckWindow :: int
  w_UnreachableGrace :: int
  w_targets :: "string list"
  w_acks :: "(string, Ack) gomap"
  w_returns :: "(string, Return) gomap"
  w_newReturns :: "string list"
  w_canceled :: bool
  w_detached :: bool
  w_nonTargetWarned :: "string list"
  w_persistCh :: nat
  w_stop :: bool
  w_subscribed :: bool
  w_ackC :: bool
  w_unreachC :: bool

definition returnPersistThreshold :: nat where "returnPersistThreshold = 1"
definition persistQueueSize :: nat where "persistQueueSize = 256"
definition DefaultAckWindow :: int where "DefaultAckWindow = 5 * 10 ^ 9"
definition DefaultUnreachableGrace :: int where "DefaultUnreachableGrace = 5 * 10 ^ 9"

definition NewWatcher :: "int \<Rightarrow> Job \<Rightarrow> Watcher" where
  "NewWatcher now j =
     \<lparr> w_job = normalizeDeadline now j, w_Redispatch = False, w_AckWindow = 0, w_UnreachableGrace = 0,
       w_targets = remdups (jb_Targets j), w_acks = [], w_returns = [], w_newReturns = [], w_canceled = False,
       w_detached = False, w_nonTargetWarned = [], w_persistCh = 0, w_stop = False, w_subscribed = False,
       w_ackC = False, w_unreachC = False \<rparr>"

text \<open>What happens to a watcher while it waits.\<close>

datatype wevent =
    AckMsg string "Ack result"
  | ReturnMsg string "Return result"
  | Replayed "Return list"
  | CancelCall
  | DetachCall
  | ParentDone
  | WriterTick
  | DoneSeen
  | TimerFired
  | AckTimerFired
  | UnreachTimerFired

section \<open>The message bus\<close>

text \<open>
  What a key-value read gives: an entry, \<^verbatim>\<open>ErrKeyNotFound\<close>, or another error. Of the heartbeats only their presence is
  used. \<open>je_range\<close> is the order in which one run happens to range over a map with these keys; \<open>je_runWatcher\<close> puts a
  watcher into the map of the manager and starts its goroutine, \<open>je_goMerge\<close> starts the goroutine of the second replay for
  it, and \<open>je_signal\<close> delivers an event to a watcher of that map.
\<close>

datatype 'a got = Got 'a | KeyNotFound | GetError string

record 'w jenv =
  je_now :: "'w \<Rightarrow> int \<times> 'w"
  je_range :: "string list \<Rightarrow> 'w \<Rightarrow> string list \<times> 'w"
  je_bucket :: "string \<Rightarrow> 'w \<Rightarrow> string option \<times> 'w"
  je_create :: "string \<Rightarrow> Job \<Rightarrow> 'w \<Rightarrow> nat result \<times> 'w"
  je_update :: "string \<Rightarrow> Job \<Rightarrow> nat \<Rightarrow> 'w \<Rightarrow> nat result \<times> 'w"
  je_put :: "string \<Rightarrow> Job \<Rightarrow> 'w \<Rightarrow> string option \<times> 'w"
  je_get :: "string \<Rightarrow> 'w \<Rightarrow> (Job result \<times> nat) got \<times> 'w"
  je_activeCreate :: "string \<Rightarrow> ActiveJobEntry \<Rightarrow> 'w \<Rightarrow> string option \<times> 'w"
  je_activePut :: "string \<Rightarrow> ActiveJobEntry \<Rightarrow> 'w \<Rightarrow> string option \<times> 'w"
  je_activeDelete :: "string \<Rightarrow> 'w \<Rightarrow> string option \<times> 'w"
  je_activeKeys :: "'w \<Rightarrow> string list result \<times> 'w"
  je_masterKeys :: "'w \<Rightarrow> string list result \<times> 'w"
  je_masterGet :: "string \<Rightarrow> 'w \<Rightarrow> MasterHeartbeat got \<times> 'w"
  je_masterPut :: "string \<Rightarrow> MasterHeartbeat \<Rightarrow> 'w \<Rightarrow> string option \<times> 'w"
  je_heartbeat :: "string \<Rightarrow> 'w \<Rightarrow> unit got \<times> 'w"
  je_returnPut :: "string \<Rightarrow> Return \<Rightarrow> 'w \<Rightarrow> string option \<times> 'w"
  je_returnKeys :: "string \<Rightarrow> 'w \<Rightarrow> string list result \<times> 'w"
  je_returnGet :: "string \<Rightarrow> 'w \<Rightarrow> Return result \<times> 'w"
  je_exec :: "string \<Rightarrow> ExecRequest \<Rightarrow> 'w \<Rightarrow> string option \<times> 'w"
  je_return :: "string \<Rightarrow> Return \<Rightarrow> 'w \<Rightarrow> string option \<times> 'w"
  je_event :: "string \<Rightarrow> Event \<Rightarrow> 'w \<Rightarrow> string option \<times> 'w"
  je_subscribe :: "string \<Rightarrow> 'w \<Rightarrow> string option \<times> 'w"
  je_replay :: "(string \<Rightarrow> 'w \<Rightarrow> Return list result \<times> 'w) option"
  je_runWatcher :: "string \<Rightarrow> Watcher \<Rightarrow> 'w \<Rightarrow> unit \<times> 'w"
  je_goMerge :: "string \<Rightarrow> string \<Rightarrow> 'w \<Rightarrow> unit \<times> 'w"
  je_watchers :: "string \<Rightarrow> 'w \<Rightarrow> (string, Watcher) gomap \<times> 'w"
  je_signal :: "string \<Rightarrow> string \<Rightarrow> wevent \<Rightarrow> 'w \<Rightarrow> unit \<times> 'w"
  je_clearWatchers :: "string \<Rightarrow> 'w \<Rightarrow> unit \<times> 'w"

definition BucketJobs :: string where "BucketJobs = ''jobs''"
definition BucketJobReturns :: string where "BucketJobReturns = ''job-returns''"
definition BucketMasterHeartbeat :: string where "BucketMasterHeartbeat = ''master-heartbeat''"
definition BucketPeelHeartbeat :: string where "BucketPeelHeartbeat = ''peel-heartbeat''"

section \<open>The index of active jobs\<close>

definition writeActiveKey :: "'w jenv \<Rightarrow> string \<Rightarrow> string \<Rightarrow> bool \<Rightarrow> ('w, unit) prog" where
  "writeActiveKey env jid owner create =
     and_do (act (je_now env)) (\<lambda>now.
     let entry = \<lparr> ae_Owner = owner, ae_Updated = now \<rparr> in
     and_do (act (if create then je_activeCreate env (ActiveJobKey jid) entry
                  else je_activePut env (ActiveJobKey jid) entry)) (\<lambda>_. Ret ()))"

definition clearActiveKey :: "'w jenv \<Rightarrow> string \<Rightarrow> ('w, unit) prog" where
  "clearActiveKey env jid = and_do (act (je_activeDelete env (ActiveJobKey jid))) (\<lambda>_. Ret ())"

section \<open>Recording acks and returns\<close>

definition isTarget :: "Watcher \<Rightarrow> string \<Rightarrow> bool" where
  "isTarget w peelID \<longleftrightarrow> peelID \<in> set (w_targets w)"

definition admitPeel :: "string \<Rightarrow> Watcher \<Rightarrow> bool \<times> Watcher" where
  "admitPeel peelID w =
     (if isTarget w peelID then (True, w)
      else (False, w\<lparr>w_nonTargetWarned := List.insert peelID (w_nonTargetWarned w)\<rparr>))"

definition ack_callback :: "string \<Rightarrow> Ack result \<Rightarrow> Watcher \<Rightarrow> Watcher" where
  "ack_callback subject payload w =
     (case subjectPeelID subject of
        None \<Rightarrow> w
      | Some peelID \<Rightarrow>
          (case payload of
             Inl err \<Rightarrow> w
           | Inr ack \<Rightarrow>
               if ak_PeelID ack \<noteq> peelID then w
               else (case admitPeel peelID w of
                       (False, w) \<Rightarrow> w
                     | (True, w) \<Rightarrow> w\<lparr>w_acks := m_set peelID ack (w_acks w)\<rparr>)))"

text \<open>
  The callback of the return subscription up to the end of its critical section: the watcher, and whether a return was
  recorded.
\<close>

definition record_return :: "string \<Rightarrow> Return result \<Rightarrow> Watcher \<Rightarrow> bool \<times> Watcher" where
  "record_return subject payload w =
     (case subjectPeelID subject of
        None \<Rightarrow> (False, w)
      | Some peelID \<Rightarrow>
          (case payload of
             Inl err \<Rightarrow> (False, w)
           | Inr ret \<Rightarrow>
               if rt_PeelID ret \<noteq> peelID then (False, w)
               else (case admitPeel peelID w of
                       (False, w) \<Rightarrow> (False, w)
                     | (True, w) \<Rightarrow>
                         if rt_Unreachable ret then (False, w)
                         else (case map_of (w_returns w) peelID of
                                 Some existing \<Rightarrow>
                                   if \<not> rt_Unreachable existing then (False, w)
                                   else (True, w\<lparr>w_returns := m_set peelID ret (w_returns w),
                                                 w_newReturns := w_newReturns w @ [peelID]\<rparr>)
                               | None \<Rightarrow> (True, w\<lparr>w_returns := m_set peelID ret (w_returns w),
                                                  w_newReturns := w_newReturns w @ [peelID]\<rparr>)))))"

definition supersedesReturn :: "Return option \<Rightarrow> Return \<Rightarrow> bool" where
  "supersedesReturn existing incoming =
     (case existing of None \<Rightarrow> True | Some existing \<Rightarrow> rt_Unreachable existing \<and> \<not> rt_Unreachable incoming)"

fun targetReturns :: "Return list \<Rightarrow> Watcher \<Rightarrow> Return list \<times> Watcher" where
  "targetReturns [] w = ([], w)"
| "targetReturns (r # rs) w =
     (if rt_PeelID r = '''' then targetReturns rs w
      else (case admitPeel (rt_PeelID r) w of
              (False, w) \<Rightarrow> targetReturns rs w
            | (True, w) \<Rightarrow> (case targetReturns rs w of (kept, w) \<Rightarrow> (r # kept, w))))"

definition SeedReturns :: "Return list \<Rightarrow> Watcher \<Rightarrow> Watcher" where
  "SeedReturns returns w =
     (case targetReturns returns w of
        (kept, w) \<Rightarrow> w\<lparr>w_returns := fold (\<lambda>r m. m_set (rt_PeelID r) r m) kept (w_returns w)\<rparr>)"

text \<open>The loop that \<^verbatim>\<open>SeedReturnsPersist\<close> and \<^verbatim>\<open>MergeReturns\<close> share, with the number of peels that had no return.\<close>

fun merge_kept :: "Return list \<Rightarrow> nat \<Rightarrow> Watcher \<Rightarrow> nat \<times> Watcher" where
  "merge_kept [] added w = (added, w)"
| "merge_kept (r # rs) added w =
     (let existing = map_of (w_returns w) (rt_PeelID r) in
      if \<not> supersedesReturn existing r then merge_kept rs added w
      else merge_kept rs (if existing = None then added + 1 else added)
             (w\<lparr>w_returns := m_set (rt_PeelID r) r (w_returns w), w_newReturns := w_newReturns w @ [rt_PeelID r]\<rparr>))"

definition SeedReturnsPersist :: "Return list \<Rightarrow> Watcher \<Rightarrow> Watcher" where
  "SeedReturnsPersist returns w = (case targetReturns returns w of (kept, w) \<Rightarrow> snd (merge_kept kept 0 w))"

text \<open>\<^verbatim>\<open>select { case w.persistCh <- struct{}{}: default: }\<close>\<close>

definition nudge :: "Watcher \<Rightarrow> Watcher" where
  "nudge w = (if w_persistCh w < persistQueueSize then w\<lparr>w_persistCh := w_persistCh w + 1\<rparr> else w)"

definition MergeReturns :: "Return list \<Rightarrow> Watcher \<Rightarrow> Watcher" where
  "MergeReturns returns w =
     (case targetReturns returns w of
        (kept, w) \<Rightarrow>
          (case merge_kept kept 0 w of
             (added, w) \<Rightarrow>
               if added = 0 then w
               else let count = length (w_returns w); w = nudge w
                    in if TargetCount (w_job w) \<le> count then w\<lparr>w_stop := True\<rparr> else w))"

section \<open>Persisting and finalizing\<close>

fun put_returns :: "'w jenv \<Rightarrow> string \<Rightarrow> (string, Return) gomap \<Rightarrow> string list \<Rightarrow> ('w, string list) prog" where
  "put_returns env jid returns [] = Ret []"
| "put_returns env jid returns (p # ps) =
     (case map_of returns p of
        None \<Rightarrow> put_returns env jid returns ps
      | Some ret \<Rightarrow>
          and_do (act (je_returnPut env (jid @ ''.'' @ p) ret)) (\<lambda>err.
          and_do (put_returns env jid returns ps) (\<lambda>failed. Ret (if err = None then failed else p # failed))))"

definition persistReturns :: "'w jenv \<Rightarrow> Watcher \<Rightarrow> ('w, Watcher) prog" where
  "persistReturns env w =
     (let toWrite = filter (\<lambda>p. map_of (w_returns w) p \<noteq> None) (remdups (w_newReturns w));
          w1 = w\<lparr>w_newReturns := []\<rparr>
      in if toWrite = [] then Ret w1
         else and_do (act (je_bucket env BucketJobReturns)) (\<lambda>err.
              and_do (act (je_range env toWrite)) (\<lambda>order.
              case err of
                Some _ \<Rightarrow> Ret (w1\<lparr>w_newReturns := order\<rparr>)
              | None \<Rightarrow> and_do (put_returns env (jb_JID (w_job w)) (w_returns w) order) (\<lambda>failed.
                  Ret (w1\<lparr>w_newReturns := failed\<rparr>)))))"

definition ok_return :: "Return \<Rightarrow> bool" where
  "ok_return ret \<longleftrightarrow> rt_Success ret \<and> rt_Error ret = ''''"

definition terminalStatus :: "Watcher \<Rightarrow> string" where
  "terminalStatus w =
     (let returnCount = length (w_returns w);
          failedCount = length (filter (\<lambda>(_, ret). \<not> rt_Success ret \<or> rt_Error ret \<noteq> '''') (w_returns w));
          targetCount = TargetCount (w_job w)
      in if w_canceled w \<and> returnCount < targetCount then StatusCanceled
         else if targetCount \<le> returnCount \<and> 0 < failedCount then StatusFailed
         else if targetCount \<le> returnCount then StatusComplete
         else if 0 < returnCount then StatusPartial
         else StatusTimeout)"

definition final_job :: "Watcher \<Rightarrow> string \<Rightarrow> int \<Rightarrow> Job" where
  "final_job w status now =
     (w_job w)\<lparr> jb_Status := status, jb_ReturnCount := length (w_returns w),
                jb_SuccessCount := length (filter (\<lambda>(_, ret). ok_return ret) (w_returns w)),
                jb_Updated := now \<rparr>"

definition completed_event :: "'w jenv \<Rightarrow> Watcher \<Rightarrow> string \<Rightarrow> ('w, unit) prog" where
  "completed_event env w status =
     and_do (act (je_now env)) (\<lambda>now.
     and_do (act (je_event env (JobStatusSubject (jb_JID (w_job w)))
       \<lparr> ev_JID = jb_JID (w_job w), ev_Type = EventCompleted, ev_PeelID = '''',
         ev_Data = ValueData (GMap [(''status'', GStr status), (''returns'', GInt (int (length (w_returns w))))]),
         ev_Timestamp = now \<rparr>)) (\<lambda>_. Ret ()))"

text \<open>The write of the final record and what follows it.\<close>

definition store_final :: "'w jenv \<Rightarrow> Watcher \<Rightarrow> string \<Rightarrow> ('w, Watcher) prog" where
  "store_final env w status =
     (let j = w_job w in
      if 0 < jb_Epoch j then
        and_do (act (je_update env (jb_JID j) j (jb_Epoch j))) (\<lambda>stored.
        case stored of
          Inl _ \<Rightarrow> Ret w
        | Inr newRev \<Rightarrow>
            and_do (clearActiveKey env (jb_JID j)) (\<lambda>_.
            and_do (completed_event env w status) (\<lambda>_. Ret (w\<lparr>w_job := j\<lparr>jb_Epoch := newRev\<rparr>\<rparr>))))
      else
        and_do (act (je_put env (jb_JID j) j)) (\<lambda>stored.
        and_do (if stored = None then clearActiveKey env (jb_JID j) else Ret ()) (\<lambda>_.
        and_do (completed_event env w status) (\<lambda>_. Ret w))))"

definition finalizeJob :: "'w jenv \<Rightarrow> Watcher \<Rightarrow> string \<Rightarrow> ('w, Watcher) prog" where
  "finalizeJob env w status =
     and_do (persistReturns env w) (\<lambda>w.
     and_do (act (je_now env)) (\<lambda>now.
     let w = w\<lparr>w_job := final_job w status now\<rparr> in
     and_do (act (je_bucket env BucketJobs)) (\<lambda>err.
     case err of
       Some _ \<Rightarrow> Ret w
     | None \<Rightarrow> store_final env w status)))"

definition finish :: "'w jenv \<Rightarrow> Watcher \<Rightarrow> ('w, Watcher) prog" where
  "finish env w =
     (if w_detached w \<and> length (w_returns w) < TargetCount (w_job w) then persistReturns env w
      else finalizeJob env w (terminalStatus w))"

section \<open>Silent targets\<close>

fun publish_exec :: "'w jenv \<Rightarrow> Job \<Rightarrow> string list \<Rightarrow> ('w, unit) prog" where
  "publish_exec env j [] = Ret ()"
| "publish_exec env j (t # ts) =
     and_do (act (je_exec env (CmdSubject t) (execRequestForJob j))) (\<lambda>_. publish_exec env j ts)"

definition redispatchSilent :: "'w jenv \<Rightarrow> Watcher \<Rightarrow> ('w, unit) prog" where
  "redispatchSilent env w =
     (if w_canceled w \<or> w_detached w then Ret ()
      else let heard = m_keys (w_acks w) @ m_keys (w_returns w);
               silent = filter (\<lambda>t. t \<notin> set heard) (jb_Targets (w_job w))
           in publish_exec env (w_job w) silent)"

definition unreachable_return :: "Watcher \<Rightarrow> int \<Rightarrow> string \<Rightarrow> Return" where
  "unreachable_return w now target =
     \<lparr> rt_JID = jb_JID (w_job w), rt_PeelID = target, rt_Success = False, rt_ReturnData = GNil,
       rt_Error = UnreachableError, rt_Duration = 0, rt_Timestamp = now, rt_Unreachable = True \<rparr>"

fun mark_silent :: "int \<Rightarrow> string list \<Rightarrow> Watcher \<Rightarrow> Return list \<times> Watcher" where
  "mark_silent now [] w = ([], w)"
| "mark_silent now (t # ts) w =
     (if map_of (w_acks w) t \<noteq> None \<or> map_of (w_returns w) t \<noteq> None then mark_silent now ts w
      else let ret = unreachable_return w now t in
           (case mark_silent now ts (w\<lparr>w_returns := m_set t ret (w_returns w), w_newReturns := w_newReturns w @ [t]\<rparr>) of
              (marked, w) \<Rightarrow> (ret # marked, w)))"

fun publish_returns :: "'w jenv \<Rightarrow> string \<Rightarrow> Return list \<Rightarrow> ('w, unit) prog" where
  "publish_returns env jid [] = Ret ()"
| "publish_returns env jid (r # rs) =
     and_do (act (je_return env (JobReturnSubject jid (rt_PeelID r)) r)) (\<lambda>_. publish_returns env jid rs)"

text \<open>The watcher, and whether the loop is to end.\<close>

definition markUnreachable :: "'w jenv \<Rightarrow> Watcher \<Rightarrow> ('w, bool \<times> Watcher) prog" where
  "markUnreachable env w =
     (if w_canceled w \<or> w_detached w then Ret (False, w)
      else and_do (act (je_now env)) (\<lambda>now.
           case mark_silent now (jb_Targets (w_job w)) w of
             (marked, w) \<Rightarrow>
               let complete = TargetCount (w_job w) \<le> length (w_returns w) in
               if marked = [] then Ret (False, w)
               else let w = nudge w in
                    and_do (publish_returns env (jb_JID (w_job w)) marked) (\<lambda>_.
                    if complete then Ret (True, w\<lparr>w_stop := True\<rparr>) else Ret (False, w))))"

section \<open>The watch loop\<close>

definition return_callback :: "'w jenv \<Rightarrow> string \<Rightarrow> Return result \<Rightarrow> Watcher \<Rightarrow> ('w, Watcher) prog" where
  "return_callback env subject payload w =
     (case record_return subject payload w of
        (False, w) \<Rightarrow> Ret w
      | (True, w) \<Rightarrow>
          let count = length (w_returns w) in
          and_do (if returnPersistThreshold \<le> length (w_newReturns w)
                  then if w_persistCh w < persistQueueSize then Ret (nudge w) else persistReturns env w
                  else Ret w) (\<lambda>w.
          Ret (if TargetCount (w_job w) \<le> count then w\<lparr>w_stop := True\<rparr> else w)))"

text \<open>One event: the watcher, and whether the loop ends. A timer that is not armed does not fire.\<close>

fun watch_event :: "'w jenv \<Rightarrow> wevent \<Rightarrow> Watcher \<Rightarrow> ('w, bool \<times> Watcher) prog" where
  "watch_event env (AckMsg subject payload) w = Ret (False, ack_callback subject payload w)"
| "watch_event env (ReturnMsg subject payload) w =
     and_do (return_callback env subject payload w) (\<lambda>w. Ret (False, w))"
| "watch_event env (Replayed returns) w = Ret (False, MergeReturns returns w)"
| "watch_event env CancelCall w = Ret (False, w\<lparr>w_canceled := True, w_stop := True\<rparr>)"
| "watch_event env DetachCall w = Ret (False, w\<lparr>w_detached := True, w_stop := True\<rparr>)"
| "watch_event env ParentDone w = Ret (False, w\<lparr>w_stop := True\<rparr>)"
| "watch_event env WriterTick w =
     (if w_persistCh w = 0 then Ret (False, w)
      else and_do (persistReturns env (w\<lparr>w_persistCh := w_persistCh w - 1\<rparr>)) (\<lambda>w. Ret (False, w)))"
| "watch_event env DoneSeen w = Ret (w_stop w, w)"
| "watch_event env TimerFired w = Ret (True, w)"
| "watch_event env AckTimerFired w =
     (if w_ackC w then and_do (redispatchSilent env w) (\<lambda>_. Ret (False, w\<lparr>w_ackC := False\<rparr>)) else Ret (False, w))"
| "watch_event env UnreachTimerFired w =
     (if w_unreachC w then markUnreachable env (w\<lparr>w_unreachC := False\<rparr>) else Ret (False, w))"

text \<open>The loop and what comes after it: \<open>None\<close> while it waits for more events.\<close>

fun watch_loop :: "'w jenv \<Rightarrow> wevent list \<Rightarrow> Watcher \<Rightarrow> ('w, Watcher option) prog" where
  "watch_loop env [] w = Ret None"
| "watch_loop env (e # es) w =
     and_do (watch_event env e w) (\<lambda>(leave, w).
     if leave then and_do (persistReturns env w) (\<lambda>w. and_do (finish env w) (\<lambda>w. Ret (Some w)))
     else watch_loop env es w)"

definition arm_timers :: "Watcher \<Rightarrow> Watcher" where
  "arm_timers w =
     (let window = (if w_AckWindow w = 0 then DefaultAckWindow else w_AckWindow w);
          grace = (if w_UnreachableGrace w = 0 then DefaultUnreachableGrace else w_UnreachableGrace w)
      in if w_Redispatch w \<and> 0 < window then w\<lparr>w_ackC := True, w_unreachC := 0 < grace\<rparr>
         else w\<lparr>w_ackC := False, w_unreachC := False\<rparr>)"

definition seeded_complete :: "Watcher \<Rightarrow> bool" where
  "seeded_complete w \<longleftrightarrow> 0 < TargetCount (w_job w) \<and> TargetCount (w_job w) \<le> length (w_returns w)"

definition failed_watch :: "'w jenv \<Rightarrow> Watcher \<Rightarrow> ('w, Watcher option) prog" where
  "failed_watch env w =
     and_do (finalizeJob env w StatusFailed) (\<lambda>w. and_do (persistReturns env w) (\<lambda>w. Ret (Some w)))"

definition Watch :: "'w jenv \<Rightarrow> wevent list \<Rightarrow> Watcher \<Rightarrow> ('w, Watcher option) prog" where
  "Watch env es w =
     (let w = (if w_canceled w \<or> w_detached w then w\<lparr>w_stop := True\<rparr> else w) in
      and_do (act (je_now env)) (\<lambda>now.
      if \<not> now < jb_Deadline (w_job w) then and_do (finish env w) (\<lambda>w. Ret (Some w))
      else
        let w = (if w_newReturns w \<noteq> [] then nudge w else w) in
        and_do (act (je_subscribe env (JobSubject (jb_JID (w_job w)) @ ''.ack.*''))) (\<lambda>err.
        case err of
          Some _ \<Rightarrow> failed_watch env w
        | None \<Rightarrow>
            and_do (act (je_subscribe env (JobSubject (jb_JID (w_job w)) @ ''.return.*''))) (\<lambda>err.
            case err of
              Some _ \<Rightarrow> failed_watch env w
            | None \<Rightarrow>
                let w = w\<lparr>w_subscribed := True\<rparr>;
                    w = (if seeded_complete w then w\<lparr>w_stop := True\<rparr> else w)
                in watch_loop env es (arm_timers w)))))"

end
