(* ===== verification/JobManager.thy ===== *)
theory JobManager
  imports JobWatcher
begin

text \<open>
  The job manager of a master: \<^verbatim>\<open>src/pkg/job/manager.go\<close> (dispatch, recovery and cancellation of jobs),
  \<^verbatim>\<open>src/pkg/job/heartbeat.go\<close> (liveness of masters), \<^verbatim>\<open>src/pkg/job/recovery.go\<close> (the orphan scanner) and
  \<^verbatim>\<open>src/pkg/job/schedresult.go\<close> (results of local schedules). The functions of the metrics and the logger are left out.
\<close>

record Manager =
  mg_masterID :: string
  mg_AckWindow :: int
  mg_UnreachableGrace :: int

definition NewManager :: "string \<Rightarrow> Manager" where
  "NewManager masterID = \<lparr> mg_masterID = masterID, mg_AckWindow = 0, mg_UnreachableGrace = 0 \<rparr>"

section \<open>Presence of the targets\<close>

fun absent_targets :: "'w jenv \<Rightarrow> string list \<Rightarrow> ('w, string list option) prog" where
  "absent_targets env [] = Ret (Some [])"
| "absent_targets env (t # ts) =
     and_do (act (je_heartbeat env t)) (\<lambda>got.
     case got of
       Got _ \<Rightarrow> absent_targets env ts
     | KeyNotFound \<Rightarrow> and_do (absent_targets env ts) (\<lambda>offline. Ret (map_option ((#) t) offline))
     | GetError _ \<Rightarrow> Ret None)"

definition classifyOfflineTargets :: "'w jenv \<Rightarrow> string list \<Rightarrow> ('w, string list) prog" where
  "classifyOfflineTargets env targets =
     (if targets = [] then Ret []
      else and_do (act (je_bucket env BucketPeelHeartbeat)) (\<lambda>err.
           case err of
             Some _ \<Rightarrow> Ret []
           | None \<Rightarrow> and_do (absent_targets env targets) (\<lambda>offline.
               Ret (case offline of None \<Rightarrow> [] | Some ts \<Rightarrow> ts))))"

section \<open>The intent of a dispatch\<close>

text \<open>
  \<^verbatim>\<open>canonicalJSON\<close> up to equality of the texts: integers of all widths, and floats with an integral value, are written
  alike, and the keys of objects are sorted. A float that is not finite has no JSON text. A nil map and an empty one, which
  the records do not distinguish, count as equal.
\<close>

fun json_float :: "rat \<Rightarrow> string \<Rightarrow> gval" where
  "json_float r s = (if snd (quotient_of r) = 1 then GInt (fst (quotient_of r)) else GFloat (Some r) '''')"

fun canonicalJSON :: "gval \<Rightarrow> gval option" and
    canonical_list :: "gval list \<Rightarrow> gval list option" and
    canonical_entries :: "(string \<times> gval) list \<Rightarrow> (string \<times> gval) list option" where
  "canonicalJSON GNil = Some GNil"
| "canonicalJSON (GBool b) = Some (GBool b)"
| "canonicalJSON (GInt i) = Some (GInt i)"
| "canonicalJSON (GInt64 i) = Some (GInt i)"
| "canonicalJSON (GFloat r s) = (case r of None \<Rightarrow> None | Some r \<Rightarrow> Some (json_float r s))"
| "canonicalJSON (GStr s) = Some (GStr s)"
| "canonicalJSON (GList xs) = map_option GList (canonical_list xs)"
| "canonicalJSON (GMap kvs) = map_option (\<lambda>kvs. GMap (sort_key fst kvs)) (canonical_entries kvs)"
| "canonicalJSON (GOther t s) = Some (GOther t s)"
| "canonical_list [] = Some []"
| "canonical_list (x # xs) =
     (case (canonicalJSON x, canonical_list xs) of (Some y, Some ys) \<Rightarrow> Some (y # ys) | _ \<Rightarrow> None)"
| "canonical_entries [] = Some []"
| "canonical_entries ((k, x) # kvs) =
     (case (canonicalJSON x, canonical_entries kvs) of (Some y, Some ys) \<Rightarrow> Some ((k, y) # ys) | _ \<Rightarrow> None)"

definition same_args :: "config \<Rightarrow> config \<Rightarrow> bool" where
  "same_args a b =
     (case (canonicalJSON (GMap a), canonicalJSON (GMap b)) of
        (Some x, Some y) \<Rightarrow> x = y
      | _ \<Rightarrow> sort_key fst a = sort_key fst b)"

definition sameDispatchIntent :: "Job \<Rightarrow> Job \<Rightarrow> string option" where
  "sameDispatchIntent existing requested =
     (if jb_JID existing \<noteq> jb_JID requested then Some ''jid''
      else if jb_Function existing \<noteq> jb_Function requested then Some ''function''
      else if jb_Timeout existing \<noteq> jb_Timeout requested then Some ''timeout''
      else if jb_User existing \<noteq> jb_User requested then Some ''user''
      else if sort (jb_Targets existing) \<noteq> sort (jb_Targets requested) then Some ''targets''
      else if \<not> same_args (jb_Args existing) (jb_Args requested) then Some ''args''
      else if sort_key fst (jb_Metadata existing) \<noteq> sort_key fst (jb_Metadata requested) then Some ''metadata''
      else None)"

section \<open>Starting watchers\<close>

definition runWatcher :: "'w jenv \<Rightarrow> Manager \<Rightarrow> Watcher \<Rightarrow> ('w, unit) prog" where
  "runWatcher env m w = act (je_runWatcher env (mg_masterID m) w)"

definition startWatcher :: "'w jenv \<Rightarrow> Manager \<Rightarrow> Job \<Rightarrow> bool \<Rightarrow> ('w, unit) prog" where
  "startWatcher env m j redispatch =
     and_do (act (je_now env)) (\<lambda>now.
     let w = NewWatcher now j;
         w = (if redispatch then w\<lparr>w_Redispatch := True, w_AckWindow := mg_AckWindow m,
                                    w_UnreachableGrace := mg_UnreachableGrace m\<rparr>
              else w)
     in runWatcher env m w)"

section \<open>Dispatch\<close>

text \<open>\<^verbatim>\<open>ErrJIDConflict\<close> and \<^verbatim>\<open>ErrJobClaimPending\<close> are the errors a caller can tell from the others.\<close>

datatype dispatch_error = ErrJIDConflict string | ErrJobClaimPending string | DispatchFailed string

text \<open>
  The claim: the error or success that \<^verbatim>\<open>Dispatch\<close> returns at once, or the revision of our claim with which it
  goes on. The first definition is the switch over the record that is there already.
\<close>

type_synonym claim = "(dispatch_error + unit) + nat"

definition resume_claim :: "'w jenv \<Rightarrow> Manager \<Rightarrow> Job \<Rightarrow> Job \<Rightarrow> nat \<Rightarrow> ('w, claim) prog" where
  "resume_claim env m j existingJob revn =
     (if jb_Status existingJob = StatusClaimed \<and> jb_Owner existingJob = mg_masterID m then
        and_do (writeActiveKey env (jb_JID j) (mg_masterID m) False) (\<lambda>_. Ret (Inr revn))
      else if jb_Status existingJob = StatusClaimed then
        Ret (Inl (Inl (ErrJobClaimPending (''job: jid '' @ jb_JID j @ '' claimed by '' @ jb_Owner existingJob @
          '' but not yet published''))))
      else (case sameDispatchIntent existingJob j of
              Some reason \<Rightarrow> Ret (Inl (Inl (ErrJIDConflict (''job: jid '' @ jb_JID j @
                '' conflict: existing job differs ('' @ reason @ '')''))))
            | None \<Rightarrow> Ret (Inl (Inr ()))))"

definition claim_job :: "'w jenv \<Rightarrow> Manager \<Rightarrow> Job \<Rightarrow> ('w, claim) prog" where
  "claim_job env m j =
     and_do (act (je_create env (jb_JID j) j)) (\<lambda>created.
     case created of
       Inr revn \<Rightarrow> and_do (writeActiveKey env (jb_JID j) (mg_masterID m) True) (\<lambda>_. Ret (Inr revn))
     | Inl err \<Rightarrow>
         and_do (act (je_get env (jb_JID j))) (\<lambda>existing.
         case existing of
           Got (Inr existingJob, revn) \<Rightarrow> resume_claim env m j existingJob revn
         | Got (Inl decErr, revn) \<Rightarrow>
             Ret (Inl (Inl (DispatchFailed (''job: decode existing job '' @ jb_JID j @ '': '' @ decErr))))
         | _ \<Rightarrow> Ret (Inl (Inl (DispatchFailed (''job: claim job '' @ jb_JID j @ '': '' @ err))))))"

text \<open>The second half of \<^verbatim>\<open>Dispatch\<close>, once the claim is ours: the intent is stored before anything is published.\<close>

definition send_claimed :: "'w jenv \<Rightarrow> Manager \<Rightarrow> Job \<Rightarrow> nat \<Rightarrow> ('w, dispatch_error + unit) prog" where
  "send_claimed env m j revn =
     (let j = j\<lparr>jb_Epoch := revn\<rparr> in
      and_do (act (je_now env)) (\<lambda>now.
      and_do (act (je_event env (JobDispatchSubject (jb_JID j))
                \<lparr> ev_JID = jb_JID j, ev_Type = EventDispatched, ev_PeelID = '''', ev_Data = JobData j,
                  ev_Timestamp = now \<rparr>)) (\<lambda>err.
      case err of
        Some e \<Rightarrow> Ret (Inl (DispatchFailed (''job: publish dispatch event: '' @ e)))
      | None \<Rightarrow>
          and_do (act (je_now env)) (\<lambda>now.
          let j = j\<lparr>jb_Status := StatusRunning, jb_Updated := now\<rparr> in
          and_do (act (je_update env (jb_JID j) j revn)) (\<lambda>updated.
          case updated of
            Inl e \<Rightarrow> Ret (Inl (DispatchFailed (''job: update job '' @ jb_JID j @ '' to running: '' @ e)))
          | Inr newRev \<Rightarrow>
              let j = j\<lparr>jb_Epoch := newRev\<rparr> in
              and_do (and_do (publish_exec env j (jb_Targets j)) (\<lambda>_. startWatcher env m j True)) (\<lambda>_. Ret (Inr ())))))))"

definition Dispatch :: "'w jenv \<Rightarrow> Manager \<Rightarrow> Job \<Rightarrow> ('w, dispatch_error + unit) prog" where
  "Dispatch env m j =
     and_do (act (je_now env)) (\<lambda>now.
     let j = j\<lparr>jb_Owner := mg_masterID m, jb_Status := StatusClaimed, jb_Updated := now\<rparr> in
     and_do (classifyOfflineTargets env (jb_Targets j)) (\<lambda>offline.
     and_do (act (je_now env)) (\<lambda>now.
     let j = j\<lparr>jb_OfflineAtDispatch := offline, jb_Deadline := now + effective_timeout (jb_Timeout j)\<rparr> in
     and_do (act (je_bucket env BucketJobs)) (\<lambda>err.
     case err of
       Some e \<Rightarrow> Ret (Inl (DispatchFailed (''job: get jobs bucket: '' @ e)))
     | None \<Rightarrow>
         and_do (claim_job env m j) (\<lambda>claim.
         case claim of
           Inl early \<Rightarrow> Ret early
         | Inr revn \<Rightarrow> send_claimed env m j revn)))))"

section \<open>Reclaiming\<close>

definition maxReclaims :: int where "maxReclaims = 3"

definition failed_reason :: "int \<Rightarrow> string" where
  "failed_reason n = ''reclaim limit exceeded: job reclaimed '' @ int_dec n @ '' times (max '' @ int_dec maxReclaims @ '')''"

definition failed_event :: "'w jenv \<Rightarrow> Job \<Rightarrow> ('w, unit) prog" where
  "failed_event env j =
     and_do (act (je_now env)) (\<lambda>now.
     and_do (act (je_event env (JobStatusSubject (jb_JID j))
       \<lparr> ev_JID = jb_JID j, ev_Type = EventFailed, ev_PeelID = '''',
         ev_Data = ValueData (GMap [(''status'', GStr StatusFailed), (''reason'', GStr (failed_reason (jb_ReclaimCount j)))]),
         ev_Timestamp = now \<rparr>)) (\<lambda>_. Ret ()))"

definition failReclaimLimitExceeded :: "'w jenv \<Rightarrow> Job \<Rightarrow> ('w, unit) prog" where
  "failReclaimLimitExceeded env j =
     and_do (act (je_bucket env BucketJobs)) (\<lambda>err.
     case err of
       Some _ \<Rightarrow> Ret ()
     | None \<Rightarrow>
         and_do (act (je_now env)) (\<lambda>now.
         let j = j\<lparr>jb_Status := StatusFailed, jb_Updated := now,
                   jb_Metadata := m_set ''failed_reason'' (failed_reason (jb_ReclaimCount j)) (jb_Metadata j)\<rparr> in
         if 0 < jb_Epoch j then
           and_do (act (je_update env (jb_JID j) j (jb_Epoch j))) (\<lambda>stored.
           case stored of
             Inl _ \<Rightarrow> Ret ()
           | Inr newRev \<Rightarrow> and_do (clearActiveKey env (jb_JID j)) (\<lambda>_. failed_event env j))
         else
           and_do (act (je_put env (jb_JID j) j)) (\<lambda>stored.
           case stored of
             Some _ \<Rightarrow> Ret ()
           | None \<Rightarrow> and_do (clearActiveKey env (jb_JID j)) (\<lambda>_. failed_event env j))))"

fun read_returns :: "'w jenv \<Rightarrow> string list \<Rightarrow> ('w, Return list) prog" where
  "read_returns env [] = Ret []"
| "read_returns env (k # ks) =
     and_do (act (je_returnGet env k)) (\<lambda>got.
     and_do (read_returns env ks) (\<lambda>rs. Ret (case got of Inl _ \<Rightarrow> rs | Inr r \<Rightarrow> r # rs)))"

definition readPerPeelReturns :: "'w jenv \<Rightarrow> string \<Rightarrow> ('w, Return list result) prog" where
  "readPerPeelReturns env jid =
     and_do (act (je_returnKeys env jid)) (\<lambda>keys.
     case keys of
       Inl e \<Rightarrow> Ret (Inl (''job: list per-peel returns for '' @ jid @ '': '' @ e))
     | Inr ks \<Rightarrow> and_do (read_returns env ks) (\<lambda>rs. Ret (Inr rs)))"

definition recoverPerPeelReturns :: "'w jenv \<Rightarrow> string \<Rightarrow> ('w, Return list) prog" where
  "recoverPerPeelReturns env jid =
     and_do (act (je_bucket env BucketJobReturns)) (\<lambda>err.
     case err of
       Some _ \<Rightarrow> Ret []
     | None \<Rightarrow> and_do (readPerPeelReturns env jid) (\<lambda>rs. Ret (case rs of Inl _ \<Rightarrow> [] | Inr rs \<Rightarrow> rs)))"

text \<open>The loop over the replayed returns: those of peels that have not been seen.\<close>

fun unseen_returns :: "string list \<Rightarrow> Return list \<Rightarrow> Return list" where
  "unseen_returns seen [] = []"
| "unseen_returns seen (r # rs) =
     (if rt_PeelID r = '''' \<or> rt_PeelID r \<in> set seen then unseen_returns seen rs
      else r # unseen_returns (rt_PeelID r # seen) rs)"

definition replay_unseen :: "'w jenv \<Rightarrow> string \<Rightarrow> Return list \<Rightarrow> ('w, Return list) prog" where
  "replay_unseen env jid existing =
     (case je_replay env of
        None \<Rightarrow> Ret []
      | Some replay \<Rightarrow>
          and_do (act (replay jid)) (\<lambda>got.
          Ret (case got of Inl _ \<Rightarrow> [] | Inr streamReturns \<Rightarrow> unseen_returns (map rt_PeelID existing) streamReturns)))"

definition reclaim_claimed :: "'w jenv \<Rightarrow> Manager \<Rightarrow> Job \<Rightarrow> ('w, unit) prog" where
  "reclaim_claimed env m j =
     and_do (act (je_now env)) (\<lambda>now.
     if \<not> now < jb_Deadline j then startWatcher env m j False
     else
       and_do (act (je_bucket env BucketJobs)) (\<lambda>err.
       case err of
         Some _ \<Rightarrow> Ret ()
       | None \<Rightarrow>
           and_do (act (je_now env)) (\<lambda>now.
           and_do (classifyOfflineTargets env (jb_Targets j)) (\<lambda>offline.
           let j = j\<lparr>jb_Status := StatusRunning, jb_Updated := now, jb_OfflineAtDispatch := offline\<rparr> in
           and_do (act (je_update env (jb_JID j) j (jb_Epoch j))) (\<lambda>updated.
           case updated of
             Inl _ \<Rightarrow> Ret ()
           | Inr newRev \<Rightarrow>
               let j = j\<lparr>jb_Epoch := newRev\<rparr> in
               and_do (publish_exec env j (jb_Targets j)) (\<lambda>_. startWatcher env m j True))))))"

definition reclaim_running :: "'w jenv \<Rightarrow> Manager \<Rightarrow> Job \<Rightarrow> ('w, unit) prog" where
  "reclaim_running env m j =
     and_do (recoverPerPeelReturns env (jb_JID j)) (\<lambda>existing.
     and_do (replay_unseen env (jb_JID j) existing) (\<lambda>replayed.
     and_do (act (je_now env)) (\<lambda>now.
     let w = SeedReturnsPersist replayed (SeedReturns existing (NewWatcher now j)) in
     and_do (runWatcher env m w) (\<lambda>_.
     when_do (je_replay env \<noteq> None) (act (je_goMerge env (mg_masterID m) (jb_JID j)))))))"

definition ReclaimJob :: "'w jenv \<Rightarrow> Manager \<Rightarrow> Job \<Rightarrow> ('w, unit) prog" where
  "ReclaimJob env m j =
     and_do (act (je_now env)) (\<lambda>now.
     let j = normalizeDeadline now j in
     if maxReclaims < jb_ReclaimCount j then failReclaimLimitExceeded env j
     else if jb_Status j = StatusClaimed then reclaim_claimed env m j
     else if jb_Status j = StatusRunning then reclaim_running env m j
     else Ret ())"

text \<open>
  The goroutine of the second replay. \<open>subscribed\<close> says how its wait ends: the watcher is subscribed, or it is done or the context
  is cancelled. It hands what it finds to the watcher, as a \<open>Replayed\<close> event.
\<close>

definition mergeGapReturns :: "'w jenv \<Rightarrow> Manager \<Rightarrow> string \<Rightarrow> bool \<Rightarrow> ('w, unit) prog" where
  "mergeGapReturns env m jid subscribed =
     (case je_replay env of
        None \<Rightarrow> Ret ()
      | Some replay \<Rightarrow>
          if \<not> subscribed then Ret ()
          else
            and_do (act (replay jid)) (\<lambda>got.
            case got of
              Inl _ \<Rightarrow> Ret ()
            | Inr streamReturns \<Rightarrow> act (je_signal env (mg_masterID m) jid (Replayed streamReturns))))"

section \<open>Queries and cancellation\<close>

definition GetJob :: "'w jenv \<Rightarrow> string \<Rightarrow> ('w, Job result) prog" where
  "GetJob env jid =
     and_do (act (je_bucket env BucketJobs)) (\<lambda>err.
     case err of
       Some e \<Rightarrow> Ret (Inl (''job: get jobs bucket: '' @ e))
     | None \<Rightarrow>
         and_do (act (je_get env jid)) (\<lambda>got.
         Ret (case got of
                Got (Inr j, _) \<Rightarrow> Inr j
              | Got (Inl e, _) \<Rightarrow> Inl (''job: get job '' @ jid @ '': '' @ e)
              | KeyNotFound \<Rightarrow> Inl (''job: get job '' @ jid @ '': bus: kv get '' @ quote_q jid @ '': key not found'')
              | GetError e \<Rightarrow> Inl (''job: get job '' @ jid @ '': bus: kv get '' @ quote_q jid @ '': '' @ e))))"

definition GetReturns :: "'w jenv \<Rightarrow> string \<Rightarrow> ('w, Return list result) prog" where
  "GetReturns env jid =
     and_do (act (je_bucket env BucketJobReturns)) (\<lambda>err.
     case err of
       Some e \<Rightarrow> Ret (Inl (''job: get returns bucket: '' @ e))
     | None \<Rightarrow> readPerPeelReturns env jid)"

definition CancelLocal :: "'w jenv \<Rightarrow> Manager \<Rightarrow> string \<Rightarrow> ('w, unit) prog" where
  "CancelLocal env m jid =
     and_do (act (je_watchers env (mg_masterID m))) (\<lambda>watchers.
     if map_of watchers jid \<noteq> None then act (je_signal env (mg_masterID m) jid CancelCall) else Ret ())"

definition Job_Cancel :: "'w jenv \<Rightarrow> Manager \<Rightarrow> string \<Rightarrow> ('w, unit result) prog" where
  "Job_Cancel env m jid =
     and_do (CancelLocal env m jid) (\<lambda>_.
     and_do (act (je_now env)) (\<lambda>now.
     and_do (act (je_event env (JobCancelSubject jid)
       \<lparr> ev_JID = jid, ev_Type = EventCanceled, ev_PeelID = '''', ev_Data = ValueData (GStr ''cancelled by user''),
         ev_Timestamp = now \<rparr>)) (\<lambda>err.
     Ret (case err of Some e \<Rightarrow> Inl (''job: publish cancel: '' @ e) | None \<Rightarrow> Inr ()))))"

definition ActiveJobs :: "'w jenv \<Rightarrow> Manager \<Rightarrow> ('w, string list) prog" where
  "ActiveJobs env m = and_do (act (je_watchers env (mg_masterID m))) (\<lambda>watchers. Ret (m_keys watchers))"

fun detach_all :: "'w jenv \<Rightarrow> string \<Rightarrow> string list \<Rightarrow> ('w, unit) prog" where
  "detach_all env masterID [] = Ret ()"
| "detach_all env masterID (jid # jids) =
     and_do (act (je_signal env masterID jid DetachCall)) (\<lambda>_. detach_all env masterID jids)"

text \<open>\<^verbatim>\<open>Shutdown\<close> also waits until the watchers have ended, which is no action of its own.\<close>

definition Shutdown :: "'w jenv \<Rightarrow> Manager \<Rightarrow> ('w, unit) prog" where
  "Shutdown env m =
     and_do (act (je_watchers env (mg_masterID m))) (\<lambda>watchers.
     and_do (detach_all env (mg_masterID m) (m_keys watchers)) (\<lambda>_.
     act (je_clearWatchers env (mg_masterID m))))"

section \<open>Live masters\<close>

definition HeartbeatInterval :: int where "HeartbeatInterval = 5 * 10 ^ 9"

definition beat :: "'w jenv \<Rightarrow> Manager \<Rightarrow> ('w, unit) prog" where
  "beat env m =
     and_do (act (je_bucket env BucketMasterHeartbeat)) (\<lambda>err.
     case err of
       Some _ \<Rightarrow> Ret ()
     | None \<Rightarrow>
         and_do (ActiveJobs env m) (\<lambda>jids.
         and_do (act (je_now env)) (\<lambda>now.
         and_do (act (je_masterPut env (mg_masterID m)
           \<lparr> mh_MasterID = mg_masterID m, mh_ActiveJobs = jids, mh_Timestamp = now \<rparr>)) (\<lambda>_. Ret ()))))"

fun read_masters :: "'w jenv \<Rightarrow> string list \<Rightarrow> (string, MasterHeartbeat) gomap \<Rightarrow>
    ('w, (string, MasterHeartbeat) gomap result) prog" where
  "read_masters env [] live = Ret (Inr live)"
| "read_masters env (k # ks) live =
     and_do (act (je_masterGet env k)) (\<lambda>got.
     case got of
       Got hb \<Rightarrow> read_masters env ks (m_set k hb live)
     | KeyNotFound \<Rightarrow> read_masters env ks live
     | GetError e \<Rightarrow> Ret (Inl (''job: read heartbeat '' @ k @ '': '' @ e)))"

text \<open>An empty bucket gives an empty list of keys: \<^verbatim>\<open>ErrNoKeysFound\<close> is no error here.\<close>

definition ListLiveMasters :: "'w jenv \<Rightarrow> ('w, (string, MasterHeartbeat) gomap result) prog" where
  "ListLiveMasters env =
     and_do (act (je_bucket env BucketMasterHeartbeat)) (\<lambda>err.
     case err of
       Some e \<Rightarrow> Ret (Inl (''job: get heartbeat bucket: '' @ e))
     | None \<Rightarrow>
         and_do (act (je_masterKeys env)) (\<lambda>keys.
         case keys of
           Inl e \<Rightarrow> Ret (Inl (''job: list heartbeat keys: '' @ e))
         | Inr ks \<Rightarrow> read_masters env ks []))"

section \<open>The orphan scanner\<close>

definition DefaultMissThreshold :: int where "DefaultMissThreshold = 2"

record OrphanScanner =
  os_MissThreshold :: int
  os_missCounts :: "(string, int) gomap"

definition NewOrphanScanner :: OrphanScanner where
  "NewOrphanScanner = \<lparr> os_MissThreshold = DefaultMissThreshold, os_missCounts = [] \<rparr>"

definition miss_count :: "OrphanScanner \<Rightarrow> string \<Rightarrow> int" where
  "miss_count s owner = (case map_of (os_missCounts s) owner of None \<Rightarrow> 0 | Some n \<Rightarrow> n)"

definition threshold_of :: "OrphanScanner \<Rightarrow> int" where
  "threshold_of s = (if os_MissThreshold s \<le> 0 then DefaultMissThreshold else os_MissThreshold s)"

text \<open>The part of the loop body after the owner was declared dead.\<close>

definition reclaim_entry :: "'w jenv \<Rightarrow> Manager \<Rightarrow> string \<Rightarrow> Job \<Rightarrow> nat \<Rightarrow> ('w, unit) prog" where
  "reclaim_entry env m jid j revn =
     and_do (act (je_now env)) (\<lambda>now.
     let j = j\<lparr>jb_Owner := mg_masterID m, jb_Epoch := 0, jb_Updated := now, jb_ReclaimCount := jb_ReclaimCount j + 1\<rparr> in
     and_do (act (je_update env jid j revn)) (\<lambda>updated.
     case updated of
       Inl _ \<Rightarrow> Ret ()
     | Inr newRev \<Rightarrow>
         and_do (writeActiveKey env jid (mg_masterID m) False) (\<lambda>_.
         ReclaimJob env m (j\<lparr>jb_Epoch := newRev\<rparr>))))"

definition scan_entry :: "'w jenv \<Rightarrow> Manager \<Rightarrow> (string, MasterHeartbeat) gomap \<Rightarrow> string \<Rightarrow>
    OrphanScanner \<times> string list \<Rightarrow> ('w, OrphanScanner \<times> string list) prog" where
  "scan_entry env m live activeKey st =
     (case st of (s, missed) \<Rightarrow>
      let jid = trim_prefix activeKey ActiveJobKeyPrefix in
      and_do (act (je_get env jid)) (\<lambda>got.
      case got of
        KeyNotFound \<Rightarrow> and_do (clearActiveKey env jid) (\<lambda>_. Ret (s, missed))
      | GetError _ \<Rightarrow> Ret (s, missed)
      | Got (Inl _, _) \<Rightarrow> Ret (s, missed)
      | Got (Inr j, revn) \<Rightarrow>
          if IsTerminal j then and_do (clearActiveKey env jid) (\<lambda>_. Ret (s, missed))
          else if jb_Owner j = '''' \<or> jb_Owner j = mg_masterID m \<or> map_of live (jb_Owner j) \<noteq> None then Ret (s, missed)
          else
            let s' = (if jb_Owner j \<in> set missed then s
                      else s\<lparr>os_missCounts := m_set (jb_Owner j) (miss_count s (jb_Owner j) + 1) (os_missCounts s)\<rparr>);
                missed' = List.insert (jb_Owner j) missed
            in if miss_count s' (jb_Owner j) < threshold_of s' then Ret (s', missed')
               else and_do (reclaim_entry env m jid j revn) (\<lambda>_. Ret (s', missed'))))"

fun scan_entries :: "'w jenv \<Rightarrow> Manager \<Rightarrow> (string, MasterHeartbeat) gomap \<Rightarrow> string list \<Rightarrow>
    OrphanScanner \<times> string list \<Rightarrow> ('w, OrphanScanner \<times> string list) prog" where
  "scan_entries env m live [] st = Ret st"
| "scan_entries env m live (k # ks) st =
     and_do (scan_entry env m live k st) (\<lambda>st. scan_entries env m live ks st)"

definition scan :: "'w jenv \<Rightarrow> Manager \<Rightarrow> OrphanScanner \<Rightarrow> ('w, OrphanScanner) prog" where
  "scan env m s =
     and_do (ListLiveMasters env) (\<lambda>masters.
     case masters of
       Inl _ \<Rightarrow> Ret s
     | Inr live \<Rightarrow>
         and_do (act (je_bucket env BucketJobs)) (\<lambda>err.
         case err of
           Some _ \<Rightarrow> Ret s
         | None \<Rightarrow>
             and_do (act (je_activeKeys env)) (\<lambda>keys.
             case keys of
               Inl _ \<Rightarrow> Ret s
             | Inr [] \<Rightarrow> Ret s
             | Inr activeKeys \<Rightarrow>
                 and_do (scan_entries env m live activeKeys (s, [])) (\<lambda>(s, missed).
                 Ret (s\<lparr>os_missCounts := filter (\<lambda>(owner, _). owner \<in> set missed) (os_missCounts s)\<rparr>)))))"

section \<open>Results of local schedules\<close>

record ScheduledResult =
  sr_JID :: string
  sr_Entry :: string
  sr_Module :: string
  sr_Args :: config
  sr_Success :: bool
  sr_Error :: string
  sr_ReturnData :: gval
  sr_Duration :: int
  sr_Timestamp :: int

datatype sched_error = ErrInvalidScheduledResult string | SchedFailed string

definition scheduled_job :: "string \<Rightarrow> ScheduledResult \<Rightarrow> int \<Rightarrow> Job" where
  "scheduled_job peelID res ts =
     \<lparr> jb_JID = sr_JID res, jb_Function = sr_Module res, jb_Args = sr_Args res, jb_Targets = [peelID], jb_Timeout = 0,
       jb_Status = (if sr_Success res then StatusComplete else StatusFailed), jb_Created = ts, jb_Updated = ts,
       jb_User = '''', jb_Owner = '''', jb_Epoch = 0, jb_Deadline = 0, jb_ReclaimCount = 0, jb_OfflineAtDispatch = [],
       jb_StateID = '''', jb_TargetExpr = '''', jb_ReturnCount = 1,
       jb_SuccessCount = (if sr_Success res \<and> sr_Error res = '''' then 1 else 0), jb_V = 0,
       jb_Metadata = [(''source'', ''schedule''), (''schedule'', sr_Entry res)] \<rparr>"

definition scheduled_return :: "string \<Rightarrow> ScheduledResult \<Rightarrow> int \<Rightarrow> Return" where
  "scheduled_return peelID res ts =
     \<lparr> rt_JID = sr_JID res, rt_PeelID = peelID, rt_Success = sr_Success res, rt_ReturnData = sr_ReturnData res,
       rt_Error = sr_Error res, rt_Duration = sr_Duration res, rt_Timestamp = ts, rt_Unreachable = False \<rparr>"

definition HandleScheduledResult :: "'w jenv \<Rightarrow> string \<Rightarrow> ScheduledResult \<Rightarrow> ('w, sched_error + unit) prog" where
  "HandleScheduledResult env peelID res =
     (if sr_JID res = '''' \<or> (\<exists>c \<in> set (sr_JID res). c \<in> set ''. *>'') then
        Ret (Inl (ErrInvalidScheduledResult (''invalid jid '' @ quote_q (sr_JID res))))
      else if sr_Module res = '''' then Ret (Inl (ErrInvalidScheduledResult ''module is required''))
      else
        and_do (if sr_Timestamp res = 0 then act (je_now env) else Ret (sr_Timestamp res)) (\<lambda>ts.
        and_do (act (je_bucket env BucketJobs)) (\<lambda>err.
        case err of
          Some e \<Rightarrow> Ret (Inl (SchedFailed (''job: scheduled result: get jobs bucket: '' @ e)))
        | None \<Rightarrow>
            and_do (act (je_create env (sr_JID res) (scheduled_job peelID res ts))) (\<lambda>_.
            and_do (act (je_bucket env BucketJobReturns)) (\<lambda>err.
            case err of
              Some e \<Rightarrow> Ret (Inl (SchedFailed (''job: scheduled result: get returns bucket: '' @ e)))
            | None \<Rightarrow>
                and_do (act (je_returnPut env (sr_JID res @ ''.'' @ peelID) (scheduled_return peelID res ts))) (\<lambda>err.
                Ret (case err of
                       Some e \<Rightarrow> Inl (SchedFailed (''job: scheduled result: persist per-peel return: '' @ e))
                     | None \<Rightarrow> Inr ())))))))"

text \<open>The callback of the shared consumer: \<open>True\<close> when the message is acknowledged, \<open>False\<close> when it is to come again.\<close>

definition scheduled_callback :: "'w jenv \<Rightarrow> string \<Rightarrow> ScheduledResult result \<Rightarrow> ('w, bool) prog" where
  "scheduled_callback env subject payload =
     (let parts = split_on (CHR ''.'') subject in
      if length parts \<noteq> 5 then Ret True
      else (case payload of
              Inl _ \<Rightarrow> Ret True
            | Inr res \<Rightarrow>
                if sr_JID res \<noteq> parts ! 2 then Ret True
                else and_do (HandleScheduledResult env (parts ! 4) res) (\<lambda>err.
                  Ret (case err of Inl (SchedFailed _) \<Rightarrow> False | _ \<Rightarrow> True))))"

section \<open>Replaying the job-events stream\<close>

text \<open>
  The messages of one replay in the order of the stream, each with its subject and its decoded payload, and what
  \<^verbatim>\<open>replayReturnsFromStream\<close> makes of them: one return per peel, the newest, in the order of first messages.
\<close>

fun replay_messages :: "(string \<times> Return result) list \<Rightarrow> (string, Return) gomap \<Rightarrow> (string, Return) gomap" where
  "replay_messages [] byPeel = byPeel"
| "replay_messages ((subject, payload) # msgs) byPeel =
     (case (subjectPeelID subject, payload) of
        (Some peelID, Inr ret) \<Rightarrow> replay_messages msgs (m_set peelID (ret\<lparr>rt_PeelID := peelID\<rparr>) byPeel)
      | _ \<Rightarrow> replay_messages msgs byPeel)"

definition replayReturnsFromStream :: "string \<Rightarrow> (string \<times> Return result) list result \<Rightarrow> Return list result" where
  "replayReturnsFromStream jid fetched =
     (if jid = '''' \<or> (\<exists>c \<in> set jid. c \<in> set ''. *>'') then Inl (''job: replay returns: invalid jid '' @ quote_q jid)
      else (case fetched of
              Inl e \<Rightarrow> Inl (''job: replay returns: '' @ e)
            | Inr msgs \<Rightarrow> Inr (map snd (replay_messages msgs []))))"

end
