(* ===== verification/JobSafety.thy ===== *)
theory JobSafety
  imports JobManager
begin

text \<open>
  What the dispatch protocol promises however many masters run it, whenever they start, crash or lose replies: every
  request of a job to execute is the same one. The laws of the message bus that this needs are the locale
  \<open>job_bus\<close>; the rest is a rely/guarantee argument over the histories of the bucket of jobs.
\<close>

section \<open>Histories\<close>

text \<open>
  What has been written to the bucket of jobs, for every key with the newest record first, the requests that have been
  published, and the watchers that have been started.
\<close>

record jview =
  v_writes :: "string \<Rightarrow> (Job \<times> nat) list"
  v_sent :: "(string \<times> ExecRequest) set"
  v_started :: "Watcher set"

abbreviation claimed :: "Job \<times> nat \<Rightarrow> bool" where
  "claimed x \<equiv> jb_Status (fst x) = StatusClaimed"

text \<open>The write that took the job past its claim.\<close>

definition granted :: "(Job \<times> nat) list \<Rightarrow> (Job \<times> nat) option" where
  "granted h = find (\<lambda>x. \<not> claimed x) (rev h)"

definition request_of :: "Job \<times> nat \<Rightarrow> ExecRequest" where
  "request_of x = execRequestForJob ((fst x)\<lparr>jb_Epoch := snd x\<rparr>)"

definition authorised :: "jview \<Rightarrow> string \<Rightarrow> ExecRequest \<Rightarrow> bool" where
  "authorised v subject req \<longleftrightarrow>
     (\<exists>x. granted (v_writes v (er_JID req)) = Some x \<and> req = request_of x \<and> subject \<in> CmdSubject ` set (jb_Targets (fst x)))"

definition may_publish :: "Job \<Rightarrow> jview \<Rightarrow> bool" where
  "may_publish j v \<longleftrightarrow> (\<forall>t \<in> set (jb_Targets j). authorised v (CmdSubject t) (execRequestForJob j))"

definition history_ok :: "string \<Rightarrow> (Job \<times> nat) list \<Rightarrow> bool" where
  "history_ok k h \<longleftrightarrow> (\<forall>x \<in> set h. jb_JID (fst x) = k \<and> 0 < snd x) \<and>
     sorted_wrt (\<lambda>new old. snd old < snd new \<and> (claimed new \<longrightarrow> claimed old)) h"

definition watcher_ok :: "Watcher \<Rightarrow> jview \<Rightarrow> bool" where
  "watcher_ok w v \<longleftrightarrow> 0 < jb_Epoch (w_job w) \<and> (w_Redispatch w \<or> w_ackC w \<longrightarrow> may_publish (w_job w) v)"

definition jobs_ok :: "jview \<Rightarrow> bool" where
  "jobs_ok v \<longleftrightarrow> (\<forall>k. history_ok k (v_writes v k)) \<and> (\<forall>(subject, req) \<in> v_sent v. authorised v subject req) \<and>
     (\<forall>w \<in> v_started v. watcher_ok w v)"

definition evolves :: "jview \<Rightarrow> jview \<Rightarrow> bool" where
  "evolves v v' \<longleftrightarrow> jobs_ok v \<and> jobs_ok v' \<and> (\<forall>k. suffix (v_writes v k) (v_writes v' k))"

definition written :: "string \<Rightarrow> Job \<Rightarrow> nat \<Rightarrow> jview \<Rightarrow> jview" where
  "written k j r v = v\<lparr>v_writes := (v_writes v)(k := (j, r) # v_writes v k)\<rparr>"

definition newer :: "nat \<Rightarrow> (Job \<times> nat) list \<Rightarrow> bool" where
  "newer r h \<longleftrightarrow> 0 < r \<and> (\<forall>x \<in> set h. snd x < r)"

subsection \<open>What lasts\<close>

lemma find_append: "find P xs = Some x \<Longrightarrow> find P (xs @ ys) = Some x"
  by (induction xs) (auto split: if_splits)

lemma granted_mem:
  assumes "granted h = Some x" shows "x \<in> set h" "\<not> claimed x"
proof -
  obtain i where "i < length (rev h)" "\<not> claimed (rev h ! i)" "x = rev h ! i"
    using assms by (auto simp: granted_def find_Some_iff)
  then show "x \<in> set h" "\<not> claimed x" using nth_mem [of i "rev h"] by simp_all
qed

lemma granted_suffix: "suffix h h' \<Longrightarrow> granted h = Some x \<Longrightarrow> granted h' = Some x"
  by (auto simp: granted_def suffix_def find_append)

lemma authorised_same: "authorised v s r \<Longrightarrow> authorised v s' r' \<Longrightarrow> er_JID r' = er_JID r \<Longrightarrow> r' = r"
  by (auto simp: authorised_def)

lemma authorised_epoch:
  assumes "authorised v s r" "history_ok (er_JID r) (v_writes v (er_JID r))"
  shows "er_Epoch r = snd (the (granted (v_writes v (er_JID r)))) \<and> 0 < er_Epoch r"
proof -
  obtain x where x: "granted (v_writes v (er_JID r)) = Some x" "r = request_of x" using assms(1) by (auto simp: authorised_def)
  have "er_Epoch r = snd x" using x(2) by (simp add: request_of_def execRequestForJob_def)
  moreover have "0 < snd x" using assms(2) granted_mem(1) [OF x(1)] by (simp add: history_ok_def)
  ultimately show ?thesis using x(1) by simp
qed

lemma authorised_mono:
  "authorised v subject req \<Longrightarrow> (\<And>k. suffix (v_writes v k) (v_writes v' k)) \<Longrightarrow> authorised v' subject req"
  unfolding authorised_def using granted_suffix by blast

lemma may_publish_mono: "may_publish j v \<Longrightarrow> (\<And>k. suffix (v_writes v k) (v_writes v' k)) \<Longrightarrow> may_publish j v'"
  unfolding may_publish_def using authorised_mono by blast

lemma watcher_ok_mono: "watcher_ok w v \<Longrightarrow> (\<And>k. suffix (v_writes v k) (v_writes v' k)) \<Longrightarrow> watcher_ok w v'"
  unfolding watcher_ok_def using may_publish_mono by blast

lemma evolves_trans: "evolves a b \<Longrightarrow> evolves b c \<Longrightarrow> evolves a c"
  unfolding evolves_def using suffix_order.trans by blast

lemma evolves_refl: "evolves a b \<Longrightarrow> evolves a a \<and> evolves b b"
  by (simp add: evolves_def)

lemma evolves_suffix: "evolves v v' \<Longrightarrow> suffix (v_writes v k) (v_writes v' k)"
  by (simp add: evolves_def)

lemma written_suffix: "suffix (v_writes v k') (v_writes (written k j r v) k')"
  by (simp add: written_def suffix_ConsI)

lemma history_append:
  assumes "history_ok k h" "newer r h" "jb_JID j = k" "claimed (j, r) \<Longrightarrow> \<forall>x \<in> set h. claimed x"
  shows "history_ok k ((j, r) # h)"
  using assms by (auto simp: history_ok_def newer_def)

lemma evolves_written:
  assumes "jobs_ok v" "newer r (v_writes v k)" "jb_JID j = k"
    and "claimed (j, r) \<Longrightarrow> \<forall>x \<in> set (v_writes v k). claimed x"
  shows "evolves v (written k j r v)"
proof -
  have "history_ok k' (v_writes (written k j r v) k')" for k'
    using assms history_append [of k "v_writes v k" r j] by (simp add: jobs_ok_def written_def)
  moreover have "\<forall>(subject, req) \<in> v_sent v. authorised (written k j r v) subject req"
    using assms(1) authorised_mono written_suffix unfolding jobs_ok_def by blast
  moreover have "\<forall>w \<in> v_started v. watcher_ok w (written k j r v)"
    using assms(1) watcher_ok_mono written_suffix unfolding jobs_ok_def by blast
  ultimately show ?thesis using assms(1) written_suffix by (simp add: evolves_def jobs_ok_def written_def)
qed

text \<open>A revision belongs to one record; and once a record is claimed, so were all the earlier ones.\<close>

lemma history_unique:
  "history_ok k h \<Longrightarrow> x \<in> set h \<Longrightarrow> y \<in> set h \<Longrightarrow> snd x = snd y \<Longrightarrow> x = y"
  by (induction h) (auto simp: history_ok_def)

lemma history_claimed: "history_ok k (x # h) \<Longrightarrow> claimed x \<Longrightarrow> \<forall>y \<in> set (x # h). claimed y"
  by (auto simp: history_ok_def)

definition claim_held :: "string \<Rightarrow> nat \<Rightarrow> jview \<Rightarrow> bool" where
  "claim_held k r v \<longleftrightarrow> (\<exists>j. (j, r) \<in> set (v_writes v k) \<and> jb_Status j = StatusClaimed)"

lemma find_last: "\<forall>x \<in> set xs. \<not> P x \<Longrightarrow> P y \<Longrightarrow> find P (xs @ [y]) = Some y"
  by (induction xs) auto

lemma granted_first: "\<forall>x \<in> set h. claimed x \<Longrightarrow> \<not> claimed y \<Longrightarrow> granted (y # h) = Some y"
  unfolding granted_def rev.simps by (rule find_last) auto

text \<open>The holder of a claim that moves the record on has the right to publish.\<close>

lemma claim_grants:
  assumes "jobs_ok v" "claim_held k r v" "v_writes v k = (j0, r) # older" "jb_JID j = k" "jb_Status j \<noteq> StatusClaimed"
  shows "may_publish (j\<lparr>jb_Epoch := r'\<rparr>) (written k j r' v)"
proof -
  obtain j1 where j1: "(j1, r) \<in> set (v_writes v k)" "jb_Status j1 = StatusClaimed"
    using assms(2) by (auto simp: claim_held_def)
  have h: "history_ok k (v_writes v k)" using assms(1) by (simp add: jobs_ok_def)
  then have "(j1, r) = (j0, r)" using history_unique [OF h j1(1), of "(j0, r)"] assms(3) by simp
  then have "\<forall>x \<in> set (v_writes v k). claimed x" using h j1(2) history_claimed assms(3) by (metis fst_conv)
  then have "granted (v_writes (written k j r' v) k) = Some (j, r')"
    using granted_first [of "v_writes v k" "(j, r')"] assms(5) by (simp add: written_def)
  then show ?thesis
    using assms(4) by (auto simp: may_publish_def authorised_def request_of_def execRequestForJob_def reactorDepth_def)
qed

section \<open>The laws of the bus\<close>

text \<open>
  \<open>create\<close> writes only under a key that has no record, \<open>update\<close> only on top of the revision it names, and both give a new
  revision; each may also have written although its reply is an error. Records do not disappear: the bucket keeps them for
  seven days. \<open>get\<close> gives some record that was written, not always the newest. Nothing else touches the records, the
  requests or the watchers.
\<close>

definition stores :: "string \<Rightarrow> Job \<Rightarrow> nat result \<Rightarrow> jview \<Rightarrow> jview \<Rightarrow> bool" where
  "stores k j reply v v' \<longleftrightarrow>
     (\<exists>r. newer r (v_writes v k) \<and> v' = written k j r v \<and> (\<forall>r'. reply = Inr r' \<longrightarrow> r' = r))"

locale job_bus =
  fixes env :: "'w jenv" and view :: "'w \<Rightarrow> jview"
  assumes create: "je_create env k j w = (reply, w') \<Longrightarrow>
      view w' = view w \<and> (\<exists>e. reply = Inl e) \<or> v_writes (view w) k = [] \<and> stores k j reply (view w) (view w')"
    and update: "je_update env k j r w = (reply, w') \<Longrightarrow>
      view w' = view w \<and> (\<exists>e. reply = Inl e) \<or>
      (\<exists>j0 older. v_writes (view w) k = (j0, r) # older) \<and> stores k j reply (view w) (view w')"
    and get: "je_get env k w = (got, w') \<Longrightarrow>
      view w' = view w \<and> (\<forall>j r. got = Got (Inr j, r) \<longrightarrow> (j, r) \<in> set (v_writes (view w) k))"
    and exec: "je_exec env subject req w = (err, w') \<Longrightarrow>
      view w' = view w \<or> view w' = (view w)\<lparr>v_sent := insert (subject, req) (v_sent (view w))\<rparr>"
    and runWatcher: "je_runWatcher env m wt w = (u, w') \<Longrightarrow>
      view w' = (view w)\<lparr>v_started := insert wt (v_started (view w))\<rparr>"
    and quiet_now: "view (snd (je_now env w)) = view w"
    and quiet_range: "view (snd (je_range env ks w)) = view w"
    and quiet_bucket: "view (snd (je_bucket env b w)) = view w"
    and quiet_activeCreate: "view (snd (je_activeCreate env k ae w)) = view w"
    and quiet_activePut: "view (snd (je_activePut env k ae w)) = view w"
    and quiet_activeDelete: "view (snd (je_activeDelete env k w)) = view w"
    and quiet_activeKeys: "view (snd (je_activeKeys env w)) = view w"
    and quiet_masterKeys: "view (snd (je_masterKeys env w)) = view w"
    and quiet_masterGet: "view (snd (je_masterGet env k w)) = view w"
    and quiet_masterPut: "view (snd (je_masterPut env k mh w)) = view w"
    and quiet_heartbeat: "view (snd (je_heartbeat env k w)) = view w"
    and quiet_returnPut: "view (snd (je_returnPut env k ret w)) = view w"
    and quiet_returnKeys: "view (snd (je_returnKeys env k w)) = view w"
    and quiet_returnGet: "view (snd (je_returnGet env k w)) = view w"
    and quiet_return: "view (snd (je_return env k ret w)) = view w"
    and quiet_event: "view (snd (je_event env k ev w)) = view w"
    and quiet_subscribe: "view (snd (je_subscribe env k w)) = view w"
    and quiet_replay: "je_replay env = Some replay \<Longrightarrow> view (snd (replay k w)) = view w"
    and quiet_goMerge: "view (snd (je_goMerge env m k w)) = view w"
    and quiet_watchers: "view (snd (je_watchers env m w)) = view w"
    and quiet_signal: "view (snd (je_signal env m k e w)) = view w"
    and quiet_clearWatchers: "view (snd (je_clearWatchers env m w)) = view w"

sublocale job_bus \<subseteq> interference "\<lambda>w w'. evolves (view w) (view w')"
  by unfold_locales (blast intro: evolves_trans, simp add: evolves_def)

section \<open>Single requests\<close>

context job_bus
begin

abbreviation knowing :: "(jview \<Rightarrow> bool) \<Rightarrow> 'w \<Rightarrow> bool" where
  "knowing K w \<equiv> K (view w)"

abbreviation lasting :: "(jview \<Rightarrow> bool) \<Rightarrow> bool" where
  "lasting K \<equiv> stable (knowing K)"

abbreviation anything :: "'a \<Rightarrow> 'w \<Rightarrow> bool" where
  "anything \<equiv> \<lambda>_ _. True"

lemma lasting_True: "stable (\<lambda>_. True)"
  by (simp add: stable_def)

lemma lasting_grant: "lasting (may_publish j)"
  unfolding stable_def using may_publish_mono evolves_suffix by blast

lemma lasting_watcher: "lasting (watcher_ok w)"
  unfolding stable_def using watcher_ok_mono evolves_suffix by blast

lemma lasting_claim: "lasting (claim_held k r)"
  unfolding stable_def claim_held_def using set_mono_suffix evolves_suffix by blast

lemma lasting_written: "lasting (\<lambda>v. (j, r) \<in> set (v_writes v k))"
  unfolding stable_def using set_mono_suffix evolves_suffix by blast

lemma lasting_pure: "stable K \<Longrightarrow> stable (\<lambda>w. b \<and> K w)"
  by (auto simp: stable_def)

lemmas lasting = lasting_True lasting_grant lasting_watcher lasting_claim lasting_written

text \<open>A request that leaves the histories alone keeps what is known.\<close>

lemma safe_quiet:
  assumes "stable K" "\<And>w. view (snd (f w)) = view w" shows "safe K (\<lambda>_. K) (act f)"
proof (rule safe_act [OF assms(1)])
  fix s a s1 assume "evolves (view s) (view s)" "K s" "f s = (a, s1)"
  moreover have "view s1 = view s" using assms(2) [of s] calculation(3) by simp
  ultimately show "evolves (view s) (view s1) \<and> K s1" using assms(1) unfolding stable_def by metis
qed (use assms in simp)

lemmas quiets = quiet_now quiet_range quiet_bucket quiet_activeCreate quiet_activePut quiet_activeDelete quiet_activeKeys
  quiet_masterKeys quiet_masterGet quiet_masterPut quiet_heartbeat quiet_returnPut quiet_returnKeys quiet_returnGet
  quiet_return quiet_event quiet_subscribe quiet_goMerge quiet_watchers quiet_signal quiet_clearWatchers

lemma stores_evolves:
  assumes "jobs_ok v" "stores k j reply v v'" "jb_JID j = k"
    and "jb_Status j = StatusClaimed \<Longrightarrow> \<forall>x \<in> set (v_writes v k). claimed x"
  shows "evolves v v'"
  using assms evolves_written [of v _ k j] by (auto simp: stores_def)

lemma safe_create:
  assumes "jb_JID j = k" "jb_Status j = StatusClaimed"
  shows "safe (\<lambda>_. True) (\<lambda>reply. knowing (\<lambda>v. \<forall>r. reply = Inr r \<longrightarrow> claim_held k r v)) (act (je_create env k j))"
proof (rule safe_act)
  fix w reply w' assume w: "evolves (view w) (view w)" "je_create env k j w = (reply, w')"
  from create [OF w(2)]
  show "evolves (view w) (view w') \<and> knowing (\<lambda>v. \<forall>r. reply = Inr r \<longrightarrow> claim_held k r v) w'"
  proof
    assume c: "v_writes (view w) k = [] \<and> stores k j reply (view w) (view w')"
    then have "evolves (view w) (view w')" using w(1) assms(1) by (intro stores_evolves) (auto simp: evolves_def)
    then show ?thesis using c assms by (auto simp: claim_held_def stores_def written_def)
  qed (use w(1) in auto)
qed (use lasting_claim in \<open>auto simp: stable_def\<close>)

lemma safe_create_ended:
  assumes "jb_JID j = k" "jb_Status j \<noteq> StatusClaimed"
  shows "safe (\<lambda>_. True) anything (act (je_create env k j))"
proof (rule safe_act)
  fix w reply w' assume w: "evolves (view w) (view w)" "je_create env k j w = (reply, w')"
  show "evolves (view w) (view w') \<and> True"
    using create [OF w(2)] w(1) stores_evolves [of "view w" k j reply] assms by (auto simp: evolves_def)
qed (use lasting_True in auto)

text \<open>An update past the claim: whoever held the claim may publish now.\<close>

lemma safe_update_grant:
  assumes "jb_JID j = k" "jb_Status j \<noteq> StatusClaimed"
  shows "safe (knowing (claim_held k r))
    (\<lambda>reply. knowing (\<lambda>v. \<forall>r'. reply = Inr r' \<longrightarrow> 0 < r' \<and> may_publish (j\<lparr>jb_Epoch := r'\<rparr>) v)) (act (je_update env k j r))"
proof (rule safe_act)
  fix w reply w' assume w: "evolves (view w) (view w)" "knowing (claim_held k r) w" "je_update env k j r w = (reply, w')"
  from update [OF w(3)]
  show "evolves (view w) (view w') \<and>
      knowing (\<lambda>v. \<forall>r'. reply = Inr r' \<longrightarrow> 0 < r' \<and> may_publish (j\<lparr>jb_Epoch := r'\<rparr>) v) w'"
  proof
    assume u: "(\<exists>j0 older. v_writes (view w) k = (j0, r) # older) \<and> stores k j reply (view w) (view w')"
    have ok: "jobs_ok (view w)" using w(1) by (simp add: evolves_def)
    have "evolves (view w) (view w')" using u assms ok by (intro stores_evolves) auto
    moreover have "0 < r' \<and> may_publish (j\<lparr>jb_Epoch := r'\<rparr>) (view w')" if "reply = Inr r'" for r'
      using u that claim_grants [OF ok w(2) _ assms] by (auto simp: stores_def newer_def)
    ultimately show ?thesis by blast
  qed (use w(1) in auto)
qed (use lasting_claim lasting_grant in \<open>auto simp: stable_def\<close>)

lemma safe_update_ended:
  assumes "jb_JID j = k" "jb_Status j \<noteq> StatusClaimed" "stable K"
  shows "safe K (\<lambda>reply w. K w \<and> (\<forall>r'. reply = Inr r' \<longrightarrow> 0 < r')) (act (je_update env k j r))"
proof (rule safe_act)
  fix w reply w' assume w: "evolves (view w) (view w)" "K w" "je_update env k j r w = (reply, w')"
  have "evolves (view w) (view w') \<and> (\<forall>r'. reply = Inr r' \<longrightarrow> 0 < r')"
    using update [OF w(3)] w(1) stores_evolves [of "view w" k j reply] assms
    by (auto simp: evolves_def stores_def newer_def)
  then show "evolves (view w) (view w') \<and> K w' \<and> (\<forall>r'. reply = Inr r' \<longrightarrow> 0 < r')"
    using w assms(3) by (auto simp: stable_def)
qed (use assms in \<open>auto simp: stable_def\<close>)

text \<open>The update of the scanner, which keeps the status that it has read at the same revision.\<close>

lemma safe_update_reclaim:
  assumes "jb_JID j = k" "jb_Status j = jb_Status j0"
  shows "safe (knowing (\<lambda>v. (j0, r) \<in> set (v_writes v k)))
    (\<lambda>reply. knowing (\<lambda>v. \<forall>r'. reply = Inr r' \<longrightarrow> 0 < r' \<and> (jb_Status j = StatusClaimed \<longrightarrow> claim_held k r' v)))
    (act (je_update env k j r))"
proof (rule safe_act)
  fix w reply w'
  assume w: "evolves (view w) (view w)" "knowing (\<lambda>v. (j0, r) \<in> set (v_writes v k)) w"
    "je_update env k j r w = (reply, w')"
  from update [OF w(3)]
  show "evolves (view w) (view w') \<and>
      knowing (\<lambda>v. \<forall>r'. reply = Inr r' \<longrightarrow> 0 < r' \<and> (jb_Status j = StatusClaimed \<longrightarrow> claim_held k r' v)) w'"
  proof
    assume u: "(\<exists>j1 older. v_writes (view w) k = (j1, r) # older) \<and> stores k j reply (view w) (view w')"
    then obtain j1 older where h: "v_writes (view w) k = (j1, r) # older" by blast
    have ok: "history_ok k (v_writes (view w) k)" using w(1) by (simp add: evolves_def jobs_ok_def)
    then have "(j0, r) = (j1, r)" using history_unique [OF ok w(2), of "(j1, r)"] h by simp
    then have "\<forall>x \<in> set (v_writes (view w) k). claimed x" if "jb_Status j = StatusClaimed"
      using that assms(2) h ok history_claimed by (metis fst_conv)
    then have "evolves (view w) (view w')" using u assms(1) w(1) by (intro stores_evolves) (auto simp: evolves_def)
    then show ?thesis using u by (auto simp: claim_held_def stores_def newer_def written_def)
  qed (use w(1) in auto)
qed (use lasting_claim lasting_written in \<open>auto simp: stable_def\<close>)

lemma safe_get:
  "safe (\<lambda>_. True) (\<lambda>got. knowing (\<lambda>v. \<forall>j r. got = Got (Inr j, r) \<longrightarrow> (j, r) \<in> set (v_writes v k))) (act (je_get env k))"
proof (rule safe_act)
  fix w got w' assume w: "evolves (view w) (view w)" "je_get env k w = (got, w')"
  show "evolves (view w) (view w') \<and> knowing (\<lambda>v. \<forall>j r. got = Got (Inr j, r) \<longrightarrow> (j, r) \<in> set (v_writes v k)) w'"
    using get [OF w(2)] w(1) by simp
qed (use lasting_written in \<open>auto simp: stable_def\<close>)

lemma safe_exec:
  assumes "t \<in> set (jb_Targets j)"
  shows "safe (knowing (may_publish j)) (\<lambda>_. knowing (may_publish j)) (act (je_exec env (CmdSubject t) (execRequestForJob j)))"
proof (rule safe_act)
  fix w err w'
  assume w: "evolves (view w) (view w)" "knowing (may_publish j) w"
    "je_exec env (CmdSubject t) (execRequestForJob j) w = (err, w')"
  have "authorised (view w) (CmdSubject t) (execRequestForJob j)" using w(2) assms by (simp add: may_publish_def)
  then have "evolves (view w) (view w')"
    using exec [OF w(3)] w(1) by (auto simp: evolves_def jobs_ok_def authorised_def watcher_ok_def may_publish_def)
  then show "evolves (view w) (view w') \<and> knowing (may_publish j) w'"
    using w(2) lasting_grant unfolding stable_def by blast
qed (use lasting_grant in auto)

lemma safe_runWatcher: "safe (knowing (watcher_ok wt)) anything (act (je_runWatcher env m wt))"
proof (rule safe_act)
  fix w u w' assume w: "evolves (view w) (view w)" "knowing (watcher_ok wt) w" "je_runWatcher env m wt w = (u, w')"
  show "evolves (view w) (view w') \<and> True"
    using runWatcher [OF w(3)] w(1,2) by (auto simp: evolves_def jobs_ok_def authorised_def watcher_ok_def may_publish_def)
qed (use lasting_watcher lasting_True in auto)

end

section \<open>Programs that leave the histories alone\<close>

context job_bus
begin

definition calmly :: "('w, 'a) prog \<Rightarrow> bool" where
  "calmly p \<longleftrightarrow> (\<forall>K. stable K \<longrightarrow> safe K (\<lambda>_. K) p)"

lemma calm_Ret [simp]: "calmly (Ret a)"
  by (simp add: calmly_def safe_Ret)

lemma calm_act: "(\<And>w. view (snd (f w)) = view w) \<Longrightarrow> calmly (act f)"
  by (simp add: calmly_def safe_quiet)

lemma calm_and_do: "calmly p \<Longrightarrow> (\<And>a. calmly (k a)) \<Longrightarrow> calmly (and_do p k)"
  unfolding calmly_def using safe_and_do by blast

lemmas calms = calm_and_do calm_act quiets

lemma safe_calm: "calmly p \<Longrightarrow> stable K \<Longrightarrow> (\<And>a. safe K Q (k a)) \<Longrightarrow> safe K Q (and_do p k)"
  unfolding calmly_def using safe_and_do by blast

lemma safe_now:
  "(\<And>w. view (snd (f w)) = view w) \<Longrightarrow> stable K \<Longrightarrow> (\<And>a. safe K Q (k a)) \<Longrightarrow> safe K Q (and_do (act f) k)"
  by (simp add: safe_calm calm_act)

lemma safe_calm_end: "calmly p \<Longrightarrow> stable K \<Longrightarrow> safe K anything p"
  unfolding calmly_def by (rule safe_conseq [of K "\<lambda>_. K"]) auto

lemma calm_writeActiveKey: "calmly (writeActiveKey env jid owner create)"
  unfolding writeActiveKey_def Let_def by (auto intro!: calms)

lemma calm_clearActiveKey: "calmly (clearActiveKey env jid)"
  unfolding clearActiveKey_def by (auto intro!: calms)

lemma calm_put_returns: "calmly (put_returns env jid returns ps)"
  by (induction ps) (auto intro!: calms split: option.split)

lemma calm_persistReturns: "calmly (persistReturns env w)"
  unfolding persistReturns_def Let_def
  by (auto intro!: calms calm_put_returns split: option.split)

lemma calm_completed_event: "calmly (completed_event env w status)"
  unfolding completed_event_def by (auto intro!: calms)

lemma calm_publish_returns: "calmly (publish_returns env jid rs)"
  by (induction rs) (auto intro!: calms)

lemma calm_absent_targets: "calmly (absent_targets env ts)"
  by (induction ts) (auto intro!: calms split: got.split)

lemma calm_classify: "calmly (classifyOfflineTargets env ts)"
  unfolding classifyOfflineTargets_def
  by (auto intro!: calms calm_absent_targets split: option.split)

lemma calm_failed_event: "calmly (failed_event env j)"
  unfolding failed_event_def by (auto intro!: calms)

lemma calm_read_returns: "calmly (read_returns env ks)"
  by (induction ks) (auto intro!: calms)

lemma calm_readPerPeelReturns: "calmly (readPerPeelReturns env jid)"
  unfolding readPerPeelReturns_def by (auto intro!: calms calm_read_returns split: sum.split)

lemma calm_recoverPerPeelReturns: "calmly (recoverPerPeelReturns env jid)"
  unfolding recoverPerPeelReturns_def
  by (auto intro!: calms calm_readPerPeelReturns split: option.split)

lemma calm_replay_unseen: "calmly (replay_unseen env jid existing)"
  unfolding replay_unseen_def by (auto intro!: calms quiet_replay split: option.split)

lemma calm_read_masters: "calmly (read_masters env ks live)"
  by (induction ks arbitrary: live) (auto intro!: calms split: got.split)

lemma calm_ListLiveMasters: "calmly (ListLiveMasters env)"
  unfolding ListLiveMasters_def by (auto intro!: calms calm_read_masters split: option.split sum.split)

lemma calm_detach_all: "calmly (detach_all env m jids)"
  by (induction jids) (auto intro!: calms)

lemma calm_CancelLocal: "calmly (CancelLocal env m jid)"
  unfolding CancelLocal_def by (auto intro!: calms)

lemma calm_Cancel: "calmly (Job_Cancel env m jid)"
  unfolding Job_Cancel_def by (auto intro!: calms calm_CancelLocal)

lemma calm_Shutdown: "calmly (Shutdown env m)"
  unfolding Shutdown_def by (auto intro!: calms calm_detach_all)

lemma calm_ActiveJobs: "calmly (ActiveJobs env m)"
  unfolding ActiveJobs_def by (auto intro!: calms)

lemma calm_mergeGapReturns: "calmly (mergeGapReturns env m jid subscribed)"
  unfolding mergeGapReturns_def by (auto intro!: calms calm_Ret dest: quiet_replay split: option.split sum.split)

lemma calm_beat: "calmly (beat env m)"
  unfolding beat_def by (auto intro!: calms calm_ActiveJobs split: option.split)

end

section \<open>Watchers\<close>

text \<open>What a watcher may do depends on three of its fields, which collecting acks and returns leaves alone.\<close>

definition role :: "Watcher \<Rightarrow> Job \<times> bool \<times> bool" where
  "role w = (w_job w, w_Redispatch w, w_ackC w)"

lemma watcher_ok_role: "role w = role w' \<Longrightarrow> watcher_ok w v = watcher_ok w' v"
  by (simp add: role_def watcher_ok_def)

lemma role_admitPeel: "admitPeel p w = (b, w') \<Longrightarrow> role w' = role w"
  by (auto simp: admitPeel_def role_def split: if_splits)

lemma role_ack_callback: "role (ack_callback subject payload w) = role w"
proof -
  have "role (w'\<lparr>w_acks := x\<rparr>) = role w'" for w' x by (simp add: role_def)
  then show ?thesis by (auto simp: ack_callback_def split: option.split sum.split bool.split prod.split dest: role_admitPeel)
qed

lemma role_records: "role (w\<lparr>w_returns := x, w_newReturns := y\<rparr>) = role w" "role (w\<lparr>w_returns := x\<rparr>) = role w"
  "role (w\<lparr>w_newReturns := y\<rparr>) = role w" "role (w\<lparr>w_stop := b\<rparr>) = role w" "role (w\<lparr>w_persistCh := n\<rparr>) = role w"
  "role (w\<lparr>w_canceled := b\<rparr>) = role w" "role (w\<lparr>w_detached := b\<rparr>) = role w" "role (w\<lparr>w_unreachC := b\<rparr>) = role w"
  "role (w\<lparr>w_subscribed := b\<rparr>) = role w" "role (w\<lparr>w_canceled := c, w_stop := b\<rparr>) = role w"
  "role (w\<lparr>w_detached := c, w_stop := b\<rparr>) = role w"
  by (simp_all add: role_def)

lemma role_record_return: "record_return subject payload w = (b, w') \<Longrightarrow> role w' = role w"
  by (auto simp: record_return_def role_records split: option.splits sum.splits bool.splits prod.splits if_splits
      dest: role_admitPeel)

lemma role_targetReturns: "targetReturns rs w = (kept, w') \<Longrightarrow> role w' = role w"
proof (induction rs arbitrary: w kept)
  case (Cons r rs)
  then show ?case by (force split: if_splits bool.splits prod.splits dest: role_admitPeel)
qed simp

lemma role_merge_kept: "role (snd (merge_kept rs added w)) = role w"
  by (induction rs added w rule: merge_kept.induct) (auto simp: role_records Let_def)

lemma role_nudge: "role (nudge w) = role w"
  by (simp add: nudge_def role_records)

lemma role_MergeReturns: "role (MergeReturns rs w) = role w"
proof (cases "targetReturns rs w")
  case (Pair kept w1)
  then show ?thesis using role_merge_kept [of kept 0 w1] role_targetReturns [OF Pair]
    by (auto simp: MergeReturns_def Let_def role_records role_nudge split: prod.split)
qed

lemma role_SeedReturns: "role (SeedReturns rs w) = role w"
  by (auto simp: SeedReturns_def role_records split: prod.split dest: role_targetReturns)

lemma role_SeedReturnsPersist: "role (SeedReturnsPersist rs w) = role w"
  by (auto simp: SeedReturnsPersist_def role_merge_kept split: prod.split dest: role_targetReturns)

lemma role_mark_silent: "mark_silent now ts w = (marked, w') \<Longrightarrow> role w' = role w"
  by (induction now ts w arbitrary: marked w' rule: mark_silent.induct)
    (auto simp: Let_def role_records split: if_splits prod.splits)

context job_bus
begin

lemma safe_persistReturns:
  assumes "stable K" shows "safe K (\<lambda>w' s. role w' = role w \<and> K s) (persistReturns env w)"
proof -
  have r: "safe K (\<lambda>w' s. role w' = role w \<and> K s) (Ret (w\<lparr>w_newReturns := x\<rparr>))" for x
    by (rule safe_Ret [OF assms]) (simp add: role_records)
  show ?thesis
    unfolding persistReturns_def Let_def
    by (auto intro!: safe_calm [OF _ assms] calm_act calm_put_returns quiets r [simplified] split: option.split)
qed

lemma safe_update_end:
  assumes "jb_JID j = k" "jb_Status j \<noteq> StatusClaimed" "\<And>reply. calmly (p reply)"
  shows "safe (\<lambda>_. True) anything (and_do (act (je_update env k j r)) p)"
  by (rule safe_and_do [OF safe_update_ended [OF assms(1,2) lasting_True]])
    (rule safe_calm_end [OF assms(3)], simp add: stable_def)

lemma safe_quick: "calmly p \<Longrightarrow> (\<And>a. safe (\<lambda>_. True) Q (k a)) \<Longrightarrow> safe (\<lambda>_. True) Q (and_do p k)"
  by (rule safe_calm [OF _ lasting_True])

lemma safe_done: "calmly p \<Longrightarrow> safe (\<lambda>_. True) anything p"
  by (rule safe_calm_end [OF _ lasting_True])

lemma safe_store_final:
  assumes "jb_Status (w_job w) \<noteq> StatusClaimed" "0 < jb_Epoch (w_job w)"
  shows "safe (\<lambda>_. True) anything (store_final env w status)"
  unfolding store_final_def Let_def
  using assms by (auto intro!: safe_update_end calms calm_clearActiveKey calm_completed_event split: sum.split)

lemma safe_finalizeJob:
  assumes "status \<noteq> StatusClaimed" "0 < jb_Epoch (w_job w)"
  shows "safe (\<lambda>_. True) anything (finalizeJob env w status)"
  unfolding finalizeJob_def
proof (rule safe_and_do [OF safe_persistReturns [OF lasting_True]], rule safe_pure)
  fix w' assume "role w' = role w"
  then have "0 < jb_Epoch (w_job w')" using assms(2) by (simp add: role_def)
  then show "safe (\<lambda>_. True) anything
      (and_do (act (je_now env)) (\<lambda>now.
       let w = w'\<lparr>w_job := final_job w' status now\<rparr> in
       and_do (act (je_bucket env BucketJobs)) (\<lambda>err. case err of Some _ \<Rightarrow> Ret w | None \<Rightarrow> store_final env w status)))"
    unfolding Let_def using assms(1)
    by (auto intro!: safe_quick safe_done [OF calm_Ret] calms safe_store_final simp: final_job_def split: option.split)
qed

lemma terminalStatus_ended: "terminalStatus w \<noteq> StatusClaimed"
  by (simp add: terminalStatus_def Let_def status_defs)

lemma safe_finish: "0 < jb_Epoch (w_job w) \<Longrightarrow> safe (\<lambda>_. True) anything (finish env w)"
  unfolding finish_def by (simp add: safe_done calm_persistReturns safe_finalizeJob terminalStatus_ended)

lemma safe_publish_exec:
  "set ts \<subseteq> set (jb_Targets j) \<Longrightarrow> safe (knowing (may_publish j)) (\<lambda>_. knowing (may_publish j)) (publish_exec env j ts)"
proof (induction ts)
  case (Cons t ts)
  then show ?case by (auto intro!: safe_and_do [OF safe_exec])
qed (simp add: safe_Ret lasting_grant)

lemma safe_epoch:
  "(0 < jb_Epoch (w_job w) \<Longrightarrow> safe (knowing (watcher_ok w)) Q p) \<Longrightarrow> safe (knowing (watcher_ok w)) Q p"
  by (auto simp: safe_def watcher_ok_def)

lemma safe_redispatchSilent:
  assumes "w_ackC w" shows "safe (knowing (watcher_ok w)) (\<lambda>_. knowing (watcher_ok w)) (redispatchSilent env w)"
proof (rule safe_epoch)
  assume e: "0 < jb_Epoch (w_job w)"
  have "safe (knowing (watcher_ok w)) (\<lambda>_. knowing (watcher_ok w)) (publish_exec env (w_job w) ts)"
    if "set ts \<subseteq> set (jb_Targets (w_job w))" for ts
    by (rule safe_conseq [OF safe_publish_exec [OF that]]) (use assms e in \<open>auto simp: watcher_ok_def\<close>)
  then show "safe (knowing (watcher_ok w)) (\<lambda>_. knowing (watcher_ok w)) (redispatchSilent env w)"
    unfolding redispatchSilent_def Let_def by (auto intro!: safe_Ret lasting_watcher)
qed

text \<open>Every event leaves a watcher that may do no more than before.\<close>

abbreviation still_ok :: "bool \<times> Watcher \<Rightarrow> 'w \<Rightarrow> bool" where
  "still_ok r \<equiv> knowing (watcher_ok (snd r))"

lemma safe_same_role: "role w' = role w \<Longrightarrow> safe (knowing (watcher_ok w)) still_ok (Ret (b, w'))"
  by (rule safe_Ret [OF lasting_watcher]) (simp add: watcher_ok_role [of w' w])

lemma safe_persist_event:
  assumes "role w' = role w"
  shows "safe (knowing (watcher_ok w)) (\<lambda>w''. knowing (watcher_ok w'')) (persistReturns env w')"
proof (rule safe_conseq [OF safe_persistReturns [OF lasting_watcher [of w]]])
  show "role w'' = role w' \<and> knowing (watcher_ok w) s \<Longrightarrow> knowing (watcher_ok w'') s" for w'' s
    using assms watcher_ok_role [of w'' w] by simp
qed auto

lemma safe_markUnreachable:
  assumes "role w' = role w" shows "safe (knowing (watcher_ok w)) still_ok (markUnreachable env w')"
  unfolding markUnreachable_def Let_def using assms
  by (auto intro!: safe_same_role safe_calm [OF _ lasting_watcher] calm_act quiets calm_publish_returns
      simp: role_records role_nudge split: prod.split dest!: role_mark_silent)

lemma safe_return_callback:
  "safe (knowing (watcher_ok w)) (\<lambda>w'. knowing (watcher_ok w')) (return_callback env subject payload w)"
proof -
  obtain b w1 where r: "record_return subject payload w = (b, w1)" by fastforce
  then have role: "role w1 = role w" by (rule role_record_return)
  have ret: "safe (knowing (watcher_ok w2)) (\<lambda>w'. knowing (watcher_ok w')) (Ret w3)" if "role w3 = role w2" for w2 w3
    by (rule safe_Ret [OF lasting_watcher]) (simp add: watcher_ok_role [OF that])
  have stop: "safe (knowing (watcher_ok w)) (\<lambda>w'. knowing (watcher_ok w'))
      (and_do p (\<lambda>w'. Ret (if c w' then w'\<lparr>w_stop := True\<rparr> else w')))"
    if "safe (knowing (watcher_ok w)) (\<lambda>w'. knowing (watcher_ok w')) p" for p c
    by (rule safe_and_do [OF that]) (simp add: ret role_records)
  show ?thesis
  proof (cases b)
    case True
    then have r': "record_return subject payload w = (True, w1)" using r by simp
    show ?thesis
      unfolding return_callback_def Let_def r' prod.case bool.case
      by (intro stop safe_If ret safe_persist_event) (simp_all add: role role_nudge)
  qed (simp add: return_callback_def r ret role)
qed

lemma safe_watch_event: "safe (knowing (watcher_ok w)) still_ok (watch_event env e w)"
proof (cases e)
  case (ReturnMsg subject payload)
  then show ?thesis by (auto intro!: safe_and_do [OF safe_return_callback] safe_same_role)
next
  case WriterTick
  then show ?thesis
    by (auto intro!: safe_and_do [OF safe_persist_event] safe_same_role simp: role_records)
next
  case AckTimerFired
  have "safe (knowing (watcher_ok w)) still_ok (Ret (False, w\<lparr>w_ackC := False\<rparr>))"
    by (rule safe_Ret [OF lasting_watcher]) (simp add: watcher_ok_def)
  then show ?thesis using AckTimerFired by (auto intro!: safe_and_do [OF safe_redispatchSilent] safe_same_role)
next
  case UnreachTimerFired
  then show ?thesis by (simp add: safe_same_role safe_markUnreachable role_records)
qed (simp_all add: safe_same_role role_records role_ack_callback role_MergeReturns)

lemma safe_leave: "safe (knowing (watcher_ok w)) anything
    (and_do (persistReturns env w) (\<lambda>w. and_do (finish env w) (\<lambda>w. Ret (Some w))))"
proof (rule safe_and_do [OF safe_persist_event [OF refl]], rule safe_epoch)
  fix w' :: Watcher assume "0 < jb_Epoch (w_job w')"
  then have "safe (\<lambda>_. True) anything (and_do (finish env w') (\<lambda>w. Ret (Some w)))"
    by (intro safe_and_do [OF safe_finish]) (auto intro: safe_done)
  then show "safe (knowing (watcher_ok w')) anything (and_do (finish env w') (\<lambda>w. Ret (Some w)))"
    by (rule safe_conseq) auto
qed

lemma safe_watch_loop: "safe (knowing (watcher_ok w)) anything (watch_loop env es w)"
proof (induction es arbitrary: w)
  case (Cons e es)
  show ?case
    unfolding watch_loop.simps
    by (rule safe_and_do [OF safe_watch_event]) (auto simp: Cons.IH safe_leave)
qed (simp add: safe_Ret lasting_watcher)

lemma safe_failed_watch: "0 < jb_Epoch (w_job w) \<Longrightarrow> safe (\<lambda>_. True) anything (failed_watch env w)"
  unfolding failed_watch_def
  by (rule safe_and_do [OF safe_finalizeJob]) (auto simp: status_defs intro!: safe_done calms calm_persistReturns)

lemma safe_Watch: "safe (knowing (watcher_ok w)) anything (Watch env es w)"
proof (rule safe_epoch)
  assume e: "0 < jb_Epoch (w_job w)"
  have epoch: "0 < jb_Epoch (w_job w')" if "role w' = role w" for w' using that e by (simp add: role_def)
  have weak: "safe (knowing (watcher_ok w)) anything p" if "safe (\<lambda>_. True) anything p" for p :: "('w, 'b) prog"
    by (rule safe_conseq [OF that]) auto
  have fin: "safe (knowing (watcher_ok w)) anything (and_do (finish env w') (\<lambda>w. Ret (Some w)))" if "role w' = role w" for w'
    by (intro weak safe_and_do [OF safe_finish] safe_done calm_Ret epoch that)
  have loop: "safe (knowing (watcher_ok w)) anything (watch_loop env es (arm_timers w'))" if "role w' = role w" for w'
  proof (rule safe_conseq [OF safe_watch_loop])
    show "knowing (watcher_ok w) s \<Longrightarrow> knowing (watcher_ok (arm_timers w')) s" for s
      using that by (auto simp: arm_timers_def Let_def watcher_ok_def role_def)
  qed auto
  show "safe (knowing (watcher_ok w)) anything (Watch env es w)"
    unfolding Watch_def
    by (intro safe_Let safe_calm [OF calm_act lasting_watcher] quiets safe_If safe_option fin loop
        weak [OF safe_failed_watch] epoch) (auto simp: role_records role_nudge)
qed

end

section \<open>Managers\<close>

lemma may_publish_normalize: "may_publish (normalizeDeadline now j) = may_publish j"
  by (rule ext) (simp add: may_publish_def normalizeDeadline_def execRequestForJob_def reactorDepth_def Let_def)

lemma normalize_fields [simp]:
  "jb_JID (normalizeDeadline now j) = jb_JID j" "jb_Status (normalizeDeadline now j) = jb_Status j"
  "jb_Epoch (normalizeDeadline now j) = jb_Epoch j" "jb_Targets (normalizeDeadline now j) = jb_Targets j"
  by (simp_all add: normalizeDeadline_def Let_def)

context job_bus
begin

lemma safe_run: "(\<And>s. evolves (view s) (view s) \<Longrightarrow> K s \<Longrightarrow> watcher_ok w (view s)) \<Longrightarrow> safe K anything (runWatcher env m w)"
  unfolding runWatcher_def by (rule safe_conseq [OF safe_runWatcher]) auto

lemma safe_run_then:
  assumes "\<And>s. evolves (view s) (view s) \<Longrightarrow> K s \<Longrightarrow> watcher_ok w (view s)" "calmly p"
  shows "safe K anything (and_do (runWatcher env m w) (\<lambda>_. p))"
  by (rule safe_and_do [OF safe_run [OF assms(1)]]) (simp_all add: safe_done assms(2))

lemma safe_startWatcher:
  assumes "0 < jb_Epoch j" shows "safe (knowing (may_publish j)) anything (startWatcher env m j redispatch)"
  unfolding startWatcher_def using assms
  by (intro safe_calm [OF calm_act lasting_grant] quiets safe_Let safe_run)
    (auto simp: watcher_ok_def NewWatcher_def may_publish_normalize)

lemma safe_startWatcher_quiet:
  assumes "0 < jb_Epoch j" shows "safe (\<lambda>_. True) anything (startWatcher env m j False)"
  unfolding startWatcher_def using assms
  by (intro safe_quick calm_act quiets safe_Let safe_run) (auto simp: watcher_ok_def NewWatcher_def)

lemma safe_publish_and_watch:
  assumes "0 < jb_Epoch j"
  shows "safe (knowing (may_publish j)) anything
    (and_do (publish_exec env j (jb_Targets j)) (\<lambda>_. startWatcher env m j True))"
  by (rule safe_and_do [OF safe_publish_exec safe_startWatcher]) (simp_all add: assms)

definition claims :: "string \<Rightarrow> claim \<Rightarrow> 'w \<Rightarrow> bool" where
  "claims k r = knowing (\<lambda>v. \<forall>revn. r = Inr revn \<longrightarrow> claim_held k revn v)"

lemma lasting_claims: "stable (claims k r)"
  using lasting_claim by (auto simp: stable_def claims_def)

lemma safe_early: "stable K \<Longrightarrow> safe K (claims k) (Ret (Inl e))"
  by (rule safe_Ret) (simp_all add: claims_def)

lemma safe_claimed:
  "safe (knowing (claim_held k revn)) (claims k) (and_do (writeActiveKey env jid mid b) (\<lambda>_. Ret (Inr revn)))"
  by (intro safe_calm calm_writeActiveKey safe_Ret lasting_claim) (simp add: claims_def)

lemma safe_resume_claim:
  "safe (knowing (\<lambda>v. (j0, revn) \<in> set (v_writes v (jb_JID j)))) (claims (jb_JID j)) (resume_claim env m j j0 revn)"
proof -
  have "safe (knowing (\<lambda>v. (j0, revn) \<in> set (v_writes v (jb_JID j)))) (claims (jb_JID j))
      (and_do (writeActiveKey env (jb_JID j) (mg_masterID m) False) (\<lambda>_. Ret (Inr revn)))"
    if "jb_Status j0 = StatusClaimed"
    by (rule safe_conseq [OF safe_claimed]) (use that in \<open>auto simp: claim_held_def\<close>)
  then show ?thesis unfolding resume_claim_def by (auto intro!: safe_early lasting_written split: option.split)
qed

lemma safe_claim_job:
  assumes "jb_Status j = StatusClaimed" shows "safe (\<lambda>_. True) (claims (jb_JID j)) (claim_job env m j)"
  unfolding claim_job_def
proof (rule safe_and_do [OF safe_create [OF refl assms]], rule safe_sum)
  fix created :: "nat result" and revn assume "created = Inr revn"
  then show "safe (knowing (\<lambda>v. \<forall>r. created = Inr r \<longrightarrow> claim_held (jb_JID j) r v)) (claims (jb_JID j))
      (and_do (writeActiveKey env (jb_JID j) (mg_masterID m) True) (\<lambda>_. Ret (Inr revn)))"
    by (simp add: safe_claimed)
next
  fix created :: "nat result" and err
  have got: "safe (knowing (\<lambda>v. \<forall>j' r. got = Got (Inr j', r) \<longrightarrow> (j', r) \<in> set (v_writes v (jb_JID j)))) (claims (jb_JID j))
      (case got of
         Got (Inr existingJob, revn) \<Rightarrow> resume_claim env m j existingJob revn
       | Got (Inl decErr, revn) \<Rightarrow> Ret (Inl (Inl (DispatchFailed (d decErr))))
       | _ \<Rightarrow> Ret (Inl (Inl (DispatchFailed e))))" for got d e
    using lasting_written
    by (auto intro!: safe_early safe_conseq [OF safe_resume_claim] simp: stable_def split: got.split sum.split)
  show "safe (knowing (\<lambda>v. \<forall>r. created = Inr r \<longrightarrow> claim_held (jb_JID j) r v)) (claims (jb_JID j))
      (and_do (act (je_get env (jb_JID j))) (\<lambda>existing.
         case existing of
           Got (Inr existingJob, revn) \<Rightarrow> resume_claim env m j existingJob revn
         | Got (Inl decErr, revn) \<Rightarrow>
             Ret (Inl (Inl (DispatchFailed (''job: decode existing job '' @ jb_JID j @ '': '' @ decErr))))
         | _ \<Rightarrow> Ret (Inl (Inl (DispatchFailed (''job: claim job '' @ jb_JID j @ '': '' @ err))))))"
    by (rule safe_and_do [OF safe_conseq [OF safe_get] got]) auto
qed

lemma safe_granted:
  assumes "\<And>r. 0 < r \<Longrightarrow> safe (knowing (may_publish (j\<lparr>jb_Epoch := r\<rparr>))) Q (k r)" "\<And>e. safe (\<lambda>_. True) Q (f e)"
    and "jb_JID j = jid" "jb_Status j \<noteq> StatusClaimed" "jid' = jid" "revn' = revn"
  shows "safe (knowing (claim_held jid' revn')) Q
    (and_do (act (je_update env jid j revn)) (\<lambda>updated. case updated of Inl e \<Rightarrow> f e | Inr r \<Rightarrow> k r))"
  unfolding assms(5,6)
proof (rule safe_and_do [OF safe_update_grant [OF assms(3,4)]], rule safe_sum)
  fix updated :: "nat result" and r assume "updated = Inr r"
  moreover have "safe (\<lambda>s. 0 < r \<and> knowing (may_publish (j\<lparr>jb_Epoch := r\<rparr>)) s) Q (k r)"
    using assms(1) by (rule safe_pure)
  ultimately show "safe (knowing (\<lambda>v. \<forall>r. updated = Inr r \<longrightarrow> 0 < r \<and> may_publish (j\<lparr>jb_Epoch := r\<rparr>) v)) Q (k r)"
    by simp
qed (rule safe_conseq [OF assms(2)], simp_all)

lemma safe_send_claimed:
  "safe (knowing (claim_held (jb_JID j) revn)) anything (send_claimed env m j revn)"
proof -
  have ret: "safe K anything (Ret x)" if "stable K" for K and x :: "dispatch_error + unit"
    using that by (simp add: safe_Ret)
  have send: "safe (knowing (may_publish j')) anything
      (and_do (and_do (publish_exec env j' (jb_Targets j')) (\<lambda>_. startWatcher env m j' True)) (\<lambda>_. Ret x))"
    if "0 < jb_Epoch j'" for j' and x :: "dispatch_error + unit"
    by (rule safe_and_do [OF safe_publish_and_watch [OF that]]) (simp add: ret lasting_True)
  show ?thesis
    unfolding send_claimed_def Let_def
    by (intro safe_granted send safe_calm [OF calm_act lasting_claim] quiets safe_option ret lasting_claim lasting_True)
      (simp_all add: status_defs)
qed

lemma safe_Dispatch: "safe (\<lambda>_. True) anything (Dispatch env m j)"
proof -
  have claim: "safe (\<lambda>_. True) anything
      (and_do (claim_job env m j') (\<lambda>claim. case claim of Inl early \<Rightarrow> Ret early | Inr revn \<Rightarrow> send_claimed env m j' revn))"
    if "jb_Status j' = StatusClaimed" for j'
  proof (rule safe_and_do [OF safe_claim_job [OF that]], rule safe_sum)
    fix claim :: claim and revn assume "claim = Inr revn"
    then show "safe (claims (jb_JID j') claim) anything (send_claimed env m j' revn)"
      using safe_send_claimed by (simp add: claims_def)
  qed (simp add: safe_Ret lasting_claims)
  show ?thesis
    unfolding Dispatch_def
    by (intro safe_quick calm_act quiets safe_Let calm_classify safe_option claim safe_done calm_Ret) simp
qed

lemma safe_failReclaimLimitExceeded: "0 < jb_Epoch j \<Longrightarrow> safe (\<lambda>_. True) anything (failReclaimLimitExceeded env j)"
  unfolding failReclaimLimitExceeded_def Let_def
  by (intro safe_update_end safe_quick calm_act quiets safe_option safe_If safe_done [OF calm_Ret])
    (auto intro!: calms calm_clearActiveKey calm_failed_event simp: status_defs split: sum.split)

lemma safe_reclaim_claimed:
  assumes "0 < jb_Epoch j"
  shows "safe (knowing (claim_held (jb_JID j) (jb_Epoch j))) anything (reclaim_claimed env m j)"
proof -
  have "safe (knowing (claim_held (jb_JID j) (jb_Epoch j))) anything p" if "safe (\<lambda>_. True) anything p" for p :: "('w, 'b) prog"
    by (rule safe_conseq [OF that]) auto
  note weak = this
  show ?thesis
    unfolding reclaim_claimed_def Let_def
    by (intro safe_granted safe_calm [OF _ lasting_claim] calm_act calm_classify quiets safe_If safe_option
        weak [OF safe_startWatcher_quiet [OF assms]] weak [OF safe_done [OF calm_Ret]] safe_publish_and_watch)
      (auto simp: status_defs intro!: safe_done)
qed

lemma safe_reclaim_running: "0 < jb_Epoch j \<Longrightarrow> safe (\<lambda>_. True) anything (reclaim_running env m j)"
  unfolding reclaim_running_def
proof (intro safe_run_then safe_quick calm_recoverPerPeelReturns calm_replay_unseen calm_act quiets safe_Let)
  show "calmly (when_do (je_replay env \<noteq> None) (act (je_goMerge env (mg_masterID m) (jb_JID j))))"
    by (auto intro!: calms calm_Ret)
next
  fix existing replayed now w s
  assume "0 < jb_Epoch j" "w = SeedReturnsPersist replayed (SeedReturns existing (NewWatcher now j))"
  moreover from this have "role w = role (NewWatcher now j)" by (simp add: role_SeedReturnsPersist role_SeedReturns)
  ultimately show "knowing (watcher_ok w) s" by (simp add: role_def NewWatcher_def watcher_ok_def)
qed

lemma safe_ReclaimJob:
  assumes "0 < jb_Epoch j"
  shows "safe (knowing (\<lambda>v. jb_Status j = StatusClaimed \<longrightarrow> claim_held (jb_JID j) (jb_Epoch j) v)) anything (ReclaimJob env m j)"
    (is "safe ?K anything _")
proof -
  have weak: "safe ?K anything p" if "safe (\<lambda>_. True) anything p" for p :: "('w, 'b) prog"
    by (rule safe_conseq [OF that]) auto
  have last: "stable ?K" using lasting_claim by (auto simp: stable_def)
  have claimed: "safe ?K anything (reclaim_claimed env m (normalizeDeadline now j))" if "jb_Status j = StatusClaimed" for now
    by (rule safe_conseq [OF safe_reclaim_claimed]) (use assms that in auto)
  show ?thesis
    unfolding ReclaimJob_def
    by (intro safe_calm [OF calm_act last] quiets safe_Let safe_If weak [OF safe_failReclaimLimitExceeded] claimed
        weak [OF safe_reclaim_running] weak [OF safe_done [OF calm_Ret]]) (use assms claimed in auto)
qed

lemma safe_key:
  assumes "jb_JID j = jid \<Longrightarrow> safe (knowing (\<lambda>v. (j, revn) \<in> set (v_writes v jid))) Q p"
  shows "safe (knowing (\<lambda>v. (j, revn) \<in> set (v_writes v jid))) Q p"
  unfolding safe_def
proof (intro allI impI)
  fix s assume s: "evolves (view s) (view s)" "(j, revn) \<in> set (v_writes (view s) jid)"
  then have "jb_JID j = jid" by (force simp: evolves_def jobs_ok_def history_ok_def)
  then show "guarded (\<lambda>w w'. evolves (view w) (view w')) Q p s" using assms s by (simp add: safe_def)
qed

lemma safe_reclaim_entry:
  "safe (knowing (\<lambda>v. (j, revn) \<in> set (v_writes v jid))) anything (reclaim_entry env m jid j revn)"
proof (rule safe_key)
  assume jid: "jb_JID j = jid"
  have reclaim: "safe (knowing (\<lambda>v. \<forall>r. reply = Inr r \<longrightarrow> 0 < r \<and> (jb_Status j' = StatusClaimed \<longrightarrow> claim_held jid r v))) anything
      (case reply of Inl _ \<Rightarrow> Ret ()
       | Inr newRev \<Rightarrow> and_do (writeActiveKey env jid mid False) (\<lambda>_. ReclaimJob env m (j'\<lparr>jb_Epoch := newRev\<rparr>)))"
    (is "safe ?K anything _")
    if "jb_JID j' = jid" for j' mid and reply :: "nat result"
  proof -
    have last: "stable ?K" using lasting_claim by (auto simp: stable_def)
    have "safe ?K anything (ReclaimJob env m (j'\<lparr>jb_Epoch := r\<rparr>))" if r: "reply = Inr r" for r
    proof -
      have "safe (knowing (\<lambda>v. jb_Status j' = StatusClaimed \<longrightarrow> claim_held jid r v)) anything (ReclaimJob env m (j'\<lparr>jb_Epoch := r\<rparr>))"
        if "0 < r" using safe_ReclaimJob [of "j'\<lparr>jb_Epoch := r\<rparr>" m] that \<open>jb_JID j' = jid\<close> by simp
      from safe_pure [OF this] show ?thesis using r by simp
    qed
    then show ?thesis
      by (intro safe_sum safe_calm [OF calm_writeActiveKey last]) (auto simp: safe_Ret lasting_True)
  qed
  show "safe (knowing (\<lambda>v. (j, revn) \<in> set (v_writes v jid))) anything (reclaim_entry env m jid j revn)"
    unfolding reclaim_entry_def Let_def
    by (intro safe_calm [OF calm_act lasting_written] quiets safe_and_do [OF safe_update_reclaim reclaim]) (use jid in auto)
qed

lemma safe_scan_entry: "safe (\<lambda>_. True) anything (scan_entry env m live k st)"
proof -
  have got: "safe (knowing (\<lambda>v. \<forall>j r. got = Got (Inr j, r) \<longrightarrow> (j, r) \<in> set (v_writes v jid))) anything p" (is "safe ?K anything p")
    if "\<And>j r. got = Got (Inr j, r) \<Longrightarrow> safe (knowing (\<lambda>v. (j, r) \<in> set (v_writes v jid))) anything p"
      "\<not> (\<exists>j r. got = Got (Inr j, r)) \<Longrightarrow> safe (\<lambda>_. True) anything p"
    for got jid and p :: "('w, OrphanScanner \<times> string list) prog"
  proof (cases "\<exists>j r. got = Got (Inr j, r)")
    case False
    then show ?thesis by (intro safe_conseq [OF that(2)]) auto
  qed (use that(1) in auto)
  have calm_end: "safe K anything (and_do (clearActiveKey env jid) (\<lambda>_. Ret x))" if "stable K" for K jid
      and x :: "OrphanScanner \<times> string list"
    using that by (intro safe_calm_end calms calm_clearActiveKey calm_Ret)
  have ret: "safe K anything (Ret x)" if "stable K" for K and x :: "OrphanScanner \<times> string list"
    using that by (simp add: safe_Ret)
  have reclaim: "safe (knowing (\<lambda>v. (j, r) \<in> set (v_writes v jid))) anything (and_do (reclaim_entry env m jid j r) (\<lambda>_. Ret x))"
    for j r jid and x :: "OrphanScanner \<times> string list"
    by (rule safe_and_do [OF safe_reclaim_entry]) (simp add: ret lasting_True)
  show ?thesis
    unfolding scan_entry_def
    by (intro safe_prod safe_Let safe_and_do [OF safe_get got])
      (auto split: got.split sum.split intro!: safe_If safe_Let calm_end ret reclaim lasting_True lasting_written)
qed

lemma safe_scan_entries: "safe (\<lambda>_. True) anything (scan_entries env m live ks st)"
proof (induction ks arbitrary: st)
  case (Cons k ks)
  show ?case unfolding scan_entries.simps by (rule safe_and_do [OF safe_scan_entry Cons.IH])
qed (simp add: safe_done)

lemma safe_scan: "safe (\<lambda>_. True) anything (scan env m s)"
  unfolding scan_def
  by (intro safe_quick calm_ListLiveMasters calm_act quiets safe_sum safe_option)
    (auto intro!: safe_done [OF calm_Ret] safe_and_do [OF safe_scan_entries] simp del: scan_entries.simps split: list.split)

lemma calm_option: "calmly p \<Longrightarrow> (\<And>e. calmly (q e)) \<Longrightarrow> calmly (case x of None \<Rightarrow> p | Some e \<Rightarrow> q e)"
  by (cases x) simp_all

lemma calm_now: "calmly (if b then act (je_now env) else Ret t)"
  by (auto intro!: calms)

lemma safe_HandleScheduledResult: "safe (\<lambda>_. True) anything (HandleScheduledResult env peelID res)"
proof -
  have create: "safe (\<lambda>_. True) anything (and_do (act (je_create env (sr_JID res) (scheduled_job peelID res ts))) k)"
    if "\<And>x. calmly (k x)" for ts and k :: "nat result \<Rightarrow> ('w, sched_error + unit) prog"
    by (rule safe_and_do [OF safe_create_ended safe_done [OF that]]) (simp_all add: scheduled_job_def status_defs)
  show ?thesis
    unfolding HandleScheduledResult_def
    by (intro safe_If safe_done [OF calm_Ret] safe_quick [OF calm_now] safe_quick [OF calm_act [OF quiet_bucket]]
        safe_option create calm_and_do calm_act calm_option quiets calm_Ret)
qed

lemma safe_scheduled_callback: "safe (\<lambda>_. True) anything (scheduled_callback env subject payload)"
  unfolding scheduled_callback_def Let_def
  by (intro safe_If safe_sum safe_done [OF calm_Ret] safe_and_do [OF safe_HandleScheduledResult])

end

section \<open>Every request of a job is the same\<close>

text \<open>What the masters of a fleet do on their own account, with any arguments; and the programs that may be started in a world.\<close>

datatype master_call =
    CallDispatch Manager Job
  | CallScan Manager OrphanScanner
  | CallCancel Manager string
  | CallMerge Manager string bool
  | CallBeat Manager
  | CallShutdown Manager
  | CallScheduled string "ScheduledResult result"

fun master_prog :: "'w jenv \<Rightarrow> master_call \<Rightarrow> ('w, unit) prog" where
  "master_prog env (CallDispatch m j) = and_do (Dispatch env m j) (\<lambda>_. Ret ())"
| "master_prog env (CallScan m s) = and_do (scan env m s) (\<lambda>_. Ret ())"
| "master_prog env (CallCancel m jid) = and_do (Job_Cancel env m jid) (\<lambda>_. Ret ())"
| "master_prog env (CallMerge m jid subscribed) = mergeGapReturns env m jid subscribed"
| "master_prog env (CallBeat m) = beat env m"
| "master_prog env (CallShutdown m) = Shutdown env m"
| "master_prog env (CallScheduled subject payload) = and_do (scheduled_callback env subject payload) (\<lambda>_. Ret ())"

definition master_progs :: "'w jenv \<Rightarrow> ('w \<Rightarrow> jview) \<Rightarrow> 'w \<Rightarrow> ('w, unit) prog set" where
  "master_progs env view w =
     range (master_prog env) \<union> {and_do (Watch env es wt) (\<lambda>_. Ret ()) | es wt. wt \<in> v_started (view w)}"

context job_bus
begin

lemma safe_only: "safe (\<lambda>_. True) anything p \<Longrightarrow> safe (\<lambda>_. True) anything (and_do p (\<lambda>_. Ret ()))"
  by (rule safe_and_do [where P = "\<lambda>_ _. True"], assumption) (rule safe_done, rule calm_Ret)

lemma safe_master_prog: "safe (\<lambda>_. True) anything (master_prog env c)"
  by (cases c)
    (simp_all add: safe_only safe_Dispatch safe_scan safe_scheduled_callback safe_done calm_Cancel calm_mergeGapReturns calm_beat calm_Shutdown)

lemma masters_guarded:
  assumes "p \<in> master_progs env view w" "evolves (view w) (view w)"
  shows "guarded (\<lambda>w w'. evolves (view w) (view w')) (\<lambda>_ _. True) p w"
  using assms(1) unfolding master_progs_def
proof
  assume "p \<in> range (master_prog env)"
  then show ?thesis using safe_master_prog assms(2) by (auto simp: safe_def)
next
  assume "p \<in> {and_do (Watch env es wt) (\<lambda>_. Ret ()) | es wt. wt \<in> v_started (view w)}"
  then obtain es wt where p: "p = and_do (Watch env es wt) (\<lambda>_. Ret ())" "wt \<in> v_started (view w)" by blast
  then have "watcher_ok wt (view w)" using assms(2) by (simp add: evolves_def jobs_ok_def)
  moreover have "safe (knowing (watcher_ok wt)) anything p"
    unfolding p(1) by (rule safe_and_do [OF safe_Watch]) (simp add: safe_done)
  ultimately show ?thesis using assms(2) by (simp add: safe_def)
qed

lemma masters_ok:
  assumes "runs (master_progs env view) w0 ps w" "jobs_ok (view w0)"
  shows "evolves (view w0) (view w)"
  using runs_guarded [OF assms(1)] assms(2) masters_guarded by (simp add: evolves_def)

end

end
