(* ===== verification/Cluster.thy ===== *)
theory Cluster
  imports JobSafety
begin

text \<open>
  A concrete message bus for the job subsystem, on which the witnesses and the counterexamples are computed, and which
  satisfies the laws of \<open>job_bus\<close>. Every request takes the next entry of a list of faults: it may be refused, its reply may
  be lost after it took effect, and a read may give an older record.
\<close>

datatype fault = Fine | Refused | ReplyLost | Stale nat

record cluster =
  cl_now :: int
  cl_faults :: "fault list"
  cl_seq :: nat
  cl_jobs :: "(string, (Job \<times> nat) list) gomap"
  cl_active :: "(string, ActiveJobEntry) gomap"
  cl_masters :: "(string, MasterHeartbeat) gomap"
  cl_heartbeats :: "string list"
  cl_returns :: "(string, Return) gomap"
  cl_stream :: "(string \<times> Return result) list"
  cl_events :: "(string \<times> Event) list"
  cl_sent :: "(string \<times> ExecRequest) list"
  cl_started :: "(string \<times> Watcher) list"
  cl_merges :: "(string \<times> string) list"
  cl_watchers :: "(string \<times> string, Watcher) gomap"
  cl_signals :: "(string \<times> string \<times> wevent) list"

definition take_fault :: "cluster \<Rightarrow> fault \<times> cluster" where
  "take_fault w = (case cl_faults w of [] \<Rightarrow> (Fine, w) | f # fs \<Rightarrow> (f, w\<lparr>cl_faults := fs\<rparr>))"

definition faulty :: "(fault \<Rightarrow> cluster \<Rightarrow> 'a \<times> cluster) \<Rightarrow> cluster \<Rightarrow> 'a \<times> cluster" where
  "faulty f w = (case take_fault w of (ft, w) \<Rightarrow> f ft w)"

text \<open>A request that changes the world as \<open>g\<close> says and answers with nothing but an error or none.\<close>

definition effect :: "(cluster \<Rightarrow> cluster) \<Rightarrow> cluster \<Rightarrow> string option \<times> cluster" where
  "effect g = faulty (\<lambda>ft w. if ft = Refused then (Some ''refused'', w)
                            else if ft = ReplyLost then (Some ''timeout'', g w) else (None, g w))"

definition history :: "cluster \<Rightarrow> string \<Rightarrow> (Job \<times> nat) list" where
  "history w k = (case map_of (cl_jobs w) k of None \<Rightarrow> [] | Some h \<Rightarrow> h)"

definition next_revision :: "cluster \<Rightarrow> string \<Rightarrow> nat" where
  "next_revision w k = Suc (fold max (map snd (history w k)) (cl_seq w))"

definition store_record :: "string \<Rightarrow> Job \<Rightarrow> cluster \<Rightarrow> cluster" where
  "store_record k j w =
     (let r = next_revision w k in w\<lparr>cl_seq := r, cl_jobs := m_set k ((j, r) # history w k) (cl_jobs w)\<rparr>)"

definition conditional_store :: "(cluster \<Rightarrow> bool) \<Rightarrow> string \<Rightarrow> string \<Rightarrow> Job \<Rightarrow> cluster \<Rightarrow> nat result \<times> cluster" where
  "conditional_store ok msg k j =
     faulty (\<lambda>ft w. if ft = Refused then (Inl ''refused'', w)
                    else if \<not> ok w then (Inl msg, w)
                    else (if ft = ReplyLost then Inl ''timeout'' else Inr (next_revision w k), store_record k j w))"

definition read_record :: "string \<Rightarrow> cluster \<Rightarrow> (Job result \<times> nat) got \<times> cluster" where
  "read_record k =
     faulty (\<lambda>ft w.
       (case ft of
          Refused \<Rightarrow> GetError ''refused''
        | ReplyLost \<Rightarrow> GetError ''timeout''
        | Stale n \<Rightarrow> (case drop n (history w k) of [] \<Rightarrow> KeyNotFound | (j, r) # _ \<Rightarrow> Got (Inr j, r))
        | Fine \<Rightarrow> (case history w k of [] \<Rightarrow> KeyNotFound | (j, r) # _ \<Rightarrow> Got (Inr j, r)), w))"

definition cluster_get :: "(cluster \<Rightarrow> 'a option) \<Rightarrow> cluster \<Rightarrow> 'a got \<times> cluster" where
  "cluster_get f = faulty (\<lambda>ft w. (if ft = Refused \<or> ft = ReplyLost then GetError ''refused''
                                     else (case f w of None \<Rightarrow> KeyNotFound | Some a \<Rightarrow> Got a), w))"

definition cluster_read :: "(cluster \<Rightarrow> 'a result) \<Rightarrow> cluster \<Rightarrow> 'a result \<times> cluster" where
  "cluster_read f = faulty (\<lambda>ft w. (if ft = Refused \<or> ft = ReplyLost then Inl ''refused'' else f w, w))"

definition cluster_env :: "cluster jenv" where
  "cluster_env =
     \<lparr> je_now = (\<lambda>w. (cl_now w, w)),
       je_range = (\<lambda>ks w. (ks, w)),
       je_bucket = (\<lambda>b. effect (\<lambda>w. w)),
       je_create = (\<lambda>k. conditional_store (\<lambda>w. history w k = []) ''key exists'' k),
       je_update = (\<lambda>k j r. conditional_store
                      (\<lambda>w. case history w k of [] \<Rightarrow> False | (_, cur) # _ \<Rightarrow> cur = r) ''wrong last sequence'' k j),
       je_put = (\<lambda>k j. effect (store_record k j)),
       je_get = read_record,
       je_activeCreate = (\<lambda>k e. effect (\<lambda>w. if map_of (cl_active w) k = None then w\<lparr>cl_active := m_set k e (cl_active w)\<rparr> else w)),
       je_activePut = (\<lambda>k e. effect (\<lambda>w. w\<lparr>cl_active := m_set k e (cl_active w)\<rparr>)),
       je_activeDelete = (\<lambda>k. effect (\<lambda>w. w\<lparr>cl_active := m_del k (cl_active w)\<rparr>)),
       je_activeKeys = cluster_read (\<lambda>w. Inr (sort (m_keys (cl_active w)))),
       je_masterKeys = cluster_read (\<lambda>w. Inr (m_keys (cl_masters w))),
       je_masterGet = (\<lambda>k. cluster_get (\<lambda>w. map_of (cl_masters w) k)),
       je_masterPut = (\<lambda>k hb. effect (\<lambda>w. w\<lparr>cl_masters := m_set k hb (cl_masters w)\<rparr>)),
       je_heartbeat = (\<lambda>k. cluster_get (\<lambda>w. if k \<in> set (cl_heartbeats w) then Some () else None)),
       je_returnPut = (\<lambda>k r. effect (\<lambda>w. w\<lparr>cl_returns := m_set k r (cl_returns w)\<rparr>)),
       je_returnKeys = (\<lambda>jid. cluster_read (\<lambda>w. Inr (sort (filter (\<lambda>k. has_prefix k (jid @ ''.'')) (m_keys (cl_returns w)))))),
       je_returnGet = (\<lambda>k. cluster_read (\<lambda>w. case map_of (cl_returns w) k of None \<Rightarrow> Inl ''key not found'' | Some r \<Rightarrow> Inr r)),
       je_exec = (\<lambda>s req. effect (\<lambda>w. w\<lparr>cl_sent := cl_sent w @ [(s, req)]\<rparr>)),
       je_return = (\<lambda>s r. effect (\<lambda>w. w\<lparr>cl_stream := cl_stream w @ [(s, Inr r)]\<rparr>)),
       je_event = (\<lambda>s e. effect (\<lambda>w. w\<lparr>cl_events := cl_events w @ [(s, e)]\<rparr>)),
       je_subscribe = (\<lambda>s. effect (\<lambda>w. w)),
       je_replay = Some (\<lambda>jid. cluster_read (\<lambda>w.
                      replayReturnsFromStream jid (Inr (filter (\<lambda>(s, _). has_prefix s (JobReturnSubject jid '''')) (cl_stream w))))),
       je_runWatcher = (\<lambda>m wt w. ((), w\<lparr>cl_started := cl_started w @ [(m, wt)],
                                         cl_watchers := m_set (m, jb_JID (w_job wt)) wt (cl_watchers w)\<rparr>)),
       je_goMerge = (\<lambda>m jid w. ((), w\<lparr>cl_merges := cl_merges w @ [(m, jid)]\<rparr>)),
       je_watchers = (\<lambda>m w. (map (\<lambda>((_, jid), wt). (jid, wt)) (filter (\<lambda>((m', _), _). m' = m) (cl_watchers w)), w)),
       je_signal = (\<lambda>m jid e w. ((), w\<lparr>cl_signals := cl_signals w @ [(m, jid, e)]\<rparr>)),
       je_clearWatchers = (\<lambda>m w. ((), w\<lparr>cl_watchers := filter (\<lambda>((m', _), _). m' \<noteq> m) (cl_watchers w)\<rparr>)) \<rparr>"

definition cluster_view :: "cluster \<Rightarrow> jview" where
  "cluster_view w = \<lparr> v_writes = history w, v_sent = set (cl_sent w), v_started = snd ` set (cl_started w) \<rparr>"

section \<open>The laws\<close>

lemma view_faults [simp]: "cluster_view (w\<lparr>cl_faults := fs\<rparr>) = cluster_view w"
  by (simp add: cluster_view_def history_def fun_eq_iff)

lemma view_others [simp]:
  "cluster_view (w\<lparr>cl_active := a\<rparr>) = cluster_view w" "cluster_view (w\<lparr>cl_masters := b\<rparr>) = cluster_view w"
  "cluster_view (w\<lparr>cl_returns := c\<rparr>) = cluster_view w" "cluster_view (w\<lparr>cl_stream := d\<rparr>) = cluster_view w"
  "cluster_view (w\<lparr>cl_events := e\<rparr>) = cluster_view w" "cluster_view (w\<lparr>cl_watchers := f\<rparr>) = cluster_view w"
  "cluster_view (w\<lparr>cl_signals := g\<rparr>) = cluster_view w" "cluster_view (w\<lparr>cl_merges := h\<rparr>) = cluster_view w"
  by (simp_all add: cluster_view_def history_def fun_eq_iff)

lemma view_take_fault: "take_fault w = (ft, w') \<Longrightarrow> cluster_view w' = cluster_view w"
  by (auto simp: take_fault_def split: list.splits)

lemma faulty_quiet:
  assumes "\<And>ft w. cluster_view (snd (f ft w)) = cluster_view w" shows "cluster_view (snd (faulty f w)) = cluster_view w"
  using assms view_take_fault by (simp add: faulty_def split: prod.split)

lemma effect_quiet: "(\<And>w. cluster_view (g w) = cluster_view w) \<Longrightarrow> cluster_view (snd (effect g w)) = cluster_view w"
  unfolding effect_def by (rule faulty_quiet) auto

lemma read_quiet: "cluster_view (snd (cluster_read f w)) = cluster_view w"
  unfolding cluster_read_def by (rule faulty_quiet) auto

lemma get_quiet: "cluster_view (snd (cluster_get f w)) = cluster_view w"
  unfolding cluster_get_def by (rule faulty_quiet) auto

lemma fold_max: "fold max xs (s :: nat) = Max (insert s (set xs))"
  using Max.set_eq_fold [of s xs] by simp

lemma next_revision_newer: "newer (next_revision w k) (history w k)"
  by (simp add: newer_def next_revision_def fold_max less_Suc_eq_le)

lemma view_store_record: "cluster_view (store_record k j w) = written k j (next_revision w k) (cluster_view w)"
  by (auto simp: cluster_view_def store_record_def written_def history_def go_map Let_def fun_eq_iff)

lemma conditional_store_law:
  assumes "conditional_store ok msg k j w = (reply, w')" "\<And>w fs. ok (w\<lparr>cl_faults := fs\<rparr>) = ok w"
  shows "cluster_view w' = cluster_view w \<and> (\<exists>e. reply = Inl e) \<or>
    ok w \<and> stores k j reply (cluster_view w) (cluster_view w')"
proof -
  obtain ft w1 where t: "take_fault w = (ft, w1)" by fastforce
  then have v: "cluster_view w1 = cluster_view w" and o: "ok w1 = ok w"
    using view_take_fault assms(2) by (auto simp: take_fault_def split: list.splits)
  have "stores k j reply (cluster_view w1) (cluster_view (store_record k j w1))" if "\<forall>r. reply = Inr r \<longrightarrow> r = next_revision w1 k"
    unfolding stores_def view_store_record using that next_revision_newer [of w1 k] by (auto simp: cluster_view_def)
  then show ?thesis
    using assms(1) t v o by (auto simp: conditional_store_def faulty_def split: if_splits)
qed

interpretation cluster_bus: job_bus cluster_env cluster_view
proof unfold_locales
  fix k j w reply w' assume "je_create cluster_env k j w = (reply, w')"
  then have "conditional_store (\<lambda>w. history w k = []) ''key exists'' k j w = (reply, w')" by (simp add: cluster_env_def)
  from conditional_store_law [OF this]
  show "cluster_view w' = cluster_view w \<and> (\<exists>e. reply = Inl e) \<or>
      v_writes (cluster_view w) k = [] \<and> stores k j reply (cluster_view w) (cluster_view w')"
    by (simp add: history_def cluster_view_def)
next
  fix k j r w reply w' assume "je_update cluster_env k j r w = (reply, w')"
  then have "conditional_store (\<lambda>w. case history w k of [] \<Rightarrow> False | (_, cur) # _ \<Rightarrow> cur = r) ''wrong last sequence'' k j w =
      (reply, w')" by (simp add: cluster_env_def)
  from conditional_store_law [OF this]
  show "cluster_view w' = cluster_view w \<and> (\<exists>e. reply = Inl e) \<or>
      (\<exists>j0 older. v_writes (cluster_view w) k = (j0, r) # older) \<and> stores k j reply (cluster_view w) (cluster_view w')"
    by (auto simp: history_def cluster_view_def split: list.splits)
next
  fix k w got w' assume g: "je_get cluster_env k w = (got, w')"
  obtain ft w1 where t: "take_fault w = (ft, w1)" by fastforce
  then have v: "cluster_view w1 = cluster_view w" by (rule view_take_fault)
  then have h: "history w1 k = history w k" by (simp add: cluster_view_def fun_eq_iff)
  have "x \<in> set (history w k)" if "drop n (history w k) = x # h'" for n x h'
    using that in_set_dropD [of x n] by simp
  then show "cluster_view w' = cluster_view w \<and> (\<forall>j r. got = Got (Inr j, r) \<longrightarrow> (j, r) \<in> set (v_writes (cluster_view w) k))"
    using g t v h by (auto simp: cluster_env_def read_record_def faulty_def cluster_view_def split: fault.splits list.splits)
next
  fix s req w err w' assume "je_exec cluster_env s req w = (err, w')"
  then show "cluster_view w' = cluster_view w \<or>
      cluster_view w' = cluster_view w\<lparr>v_sent := insert (s, req) (v_sent (cluster_view w))\<rparr>"
    by (auto simp: cluster_env_def effect_def faulty_def take_fault_def cluster_view_def history_def fun_eq_iff
        split: if_splits list.splits)
next
  fix m wt w u w' assume "je_runWatcher cluster_env m wt w = (u, w')"
  then show "cluster_view w' = cluster_view w\<lparr>v_started := insert wt (v_started (cluster_view w))\<rparr>"
    by (auto simp: cluster_env_def cluster_view_def history_def fun_eq_iff)
next
  fix replay k w assume "je_replay cluster_env = Some replay"
  then show "cluster_view (snd (replay k w)) = cluster_view w" by (auto simp: cluster_env_def read_quiet)
qed (simp_all add: cluster_env_def read_quiet get_quiet effect_quiet)

end
