(* ===== verification/PeelExec.thy ===== *)
theory PeelExec
  imports JobCore
begin

text \<open>
  The execution of jobs on a peel: the persisted record of dispatches seen (\<^verbatim>\<open>src/internal/peeld/dedup.go\<close>), and the
  callback, queue and worker of \<^verbatim>\<open>src/internal/peeld/handler.go\<close>. What a module does is a parameter, and so is the
  choice of the read-only modules. A peel is a state machine whose events are messages, turns of the worker, the timer
  that saves the record, and restarts, of which only the file survives.
\<close>

section \<open>The record of dispatches\<close>

definition dedupCapacity :: nat where "dedupCapacity = 4096"

text \<open>The timer of the debounced save: a fired one counts as pending until its goroutine holds the lock.\<close>

datatype save_timer = Unarmed | Armed | Fired

record dedupTracker =
  dt_capacity :: nat
  dt_m :: "(string, nat) gomap"
  dt_order :: "string list"
  dt_timer :: save_timer

type_synonym snapshot = "(string, nat) gomap option"

text \<open>The tracker and its file.\<close>

record dedup_state =
  pl_dedup :: dedupTracker
  pl_disk :: snapshot

definition newDedupTracker :: "nat \<Rightarrow> dedupTracker" where
  "newDedupTracker capacity = \<lparr> dt_capacity = capacity, dt_m = [], dt_order = [], dt_timer = Unarmed \<rparr>"

text \<open>The file is a map, so its entries come in any order.\<close>

fun load_entries :: "(string \<times> nat) list \<Rightarrow> dedupTracker \<Rightarrow> dedupTracker" where
  "load_entries [] d = d"
| "load_entries ((jid, epoch) # es) d =
     (if dt_capacity d \<le> length (dt_order d) then d
      else load_entries es
             (d\<lparr>dt_order := (if map_of (dt_m d) jid = None then dt_order d @ [jid] else dt_order d),
                dt_m := m_set jid epoch (dt_m d)\<rparr>))"

text \<open>
  \<open>file\<close> is what reading and decoding the file gives: an error, no file, or its entries. After an error the tracker is as it
  was; the agent logs the error and goes on.
\<close>

definition Load :: "snapshot result \<Rightarrow> dedupTracker \<Rightarrow> string option \<times> dedupTracker" where
  "Load file d =
     (case file of
        Inl err \<Rightarrow> (Some (''peeld: '' @ err), d)
      | Inr None \<Rightarrow> (None, d)
      | Inr (Some m) \<Rightarrow> (None, load_entries m d))"

definition scheduleSaveLocked :: "dedupTracker \<Rightarrow> dedupTracker" where
  "scheduleSaveLocked d = (if dt_timer d \<noteq> Unarmed then d else d\<lparr>dt_timer := Armed\<rparr>)"

definition Observe :: "string \<Rightarrow> nat \<Rightarrow> dedupTracker \<Rightarrow> (nat \<times> bool) \<times> dedupTracker" where
  "Observe jid epoch d =
     (let prev = (case map_of (dt_m d) jid of None \<Rightarrow> 0 | Some e \<Rightarrow> e);
          seen = (map_of (dt_m d) jid \<noteq> None)
      in if seen \<and> epoch \<le> prev then ((prev, True), d)
         else let d = (if seen then d
                       else let d = (if dt_capacity d \<le> length (dt_order d) \<and> 0 < dt_capacity d
                                     then d\<lparr>dt_m := m_del (hd (dt_order d)) (dt_m d), dt_order := tl (dt_order d)\<rparr>
                                     else d)
                            in d\<lparr>dt_order := dt_order d @ [jid]\<rparr>)
              in ((prev, False), scheduleSaveLocked (d\<lparr>dt_m := m_set jid epoch (dt_m d)\<rparr>)))"

text \<open>
  \<^verbatim>\<open>writeFileAtomic\<close> replaces the whole file by a rename, or fails with the error \<open>fail\<close> and leaves it alone. \<^verbatim>\<open>Flush\<close> takes the
  snapshot under the lock and writes it without; in between other goroutines may observe and save.
\<close>

definition writeFileAtomic :: "string option \<Rightarrow> (string, nat) gomap \<Rightarrow> ('z dedup_state_scheme, string option) prog" where
  "writeFileAtomic fail m = act (\<lambda>p. case fail of None \<Rightarrow> (None, p\<lparr>pl_disk := Some m\<rparr>) | Some e \<Rightarrow> (Some e, p))"

definition Flush :: "string option \<Rightarrow> ('z dedup_state_scheme, string option) prog" where
  "Flush fail =
     and_do (act (\<lambda>p. (dt_m (pl_dedup p), p\<lparr>pl_dedup := (pl_dedup p)\<lparr>dt_timer := Unarmed\<rparr>\<rparr>))) (\<lambda>snapshot.
     writeFileAtomic fail snapshot)"

definition ObserveDurable :: "string option \<Rightarrow> string \<Rightarrow> nat \<Rightarrow> ('z dedup_state_scheme, nat \<times> bool) prog" where
  "ObserveDurable fail jid epoch =
     and_do (act (\<lambda>p. case Observe jid epoch (pl_dedup p) of (r, d) \<Rightarrow> (r, p\<lparr>pl_dedup := d\<rparr>))) (\<lambda>(prev, rejected).
     if rejected then Ret (prev, True)
     else
       and_do (Flush fail) (\<lambda>err.
       and_do (when_do (err \<noteq> None) (act (\<lambda>p. ((), p\<lparr>pl_dedup := scheduleSaveLocked (pl_dedup p)\<rparr>)))) (\<lambda>_.
       Ret (prev, False))))"

section \<open>Requests and the queue\<close>

definition execQueueSize :: nat where "execQueueSize = 64"
definition execQueueFullMsg :: string where "execQueueFullMsg = ''peel busy: execution queue full''"

record ExecResponse =
  xr_PeelID :: string
  xr_JID :: string
  xr_Success :: bool
  xr_Results :: gval
  xr_Error :: string

text \<open>A message with its reply subject, empty for a dispatch, and its payload. A context is a number, which is cancelled or not.\<close>

record exec_msg =
  ms_Reply :: string
  ms_Data :: "ExecRequest result"

record execTask =
  tk_reply :: string
  tk_req :: ExecRequest
  tk_ctx :: "nat option"

datatype peel_out = AckOut Ack | ReturnOut Return | ReplyOut ExecResponse

record peel = dedup_state +
  pl_id :: string
  pl_queue :: "execTask list"
  pl_cancelFuncs :: "(string, nat) gomap"
  pl_cancelled :: "nat list"
  pl_contexts :: nat
  pl_executed :: "(bool \<times> ExecRequest) list"
  pl_out :: "(string \<times> peel_out) list"

type_synonym executor = "bool \<Rightarrow> ExecRequest \<Rightarrow> ExecResponse \<times> int"

definition start_peel :: "string \<Rightarrow> peel" where
  "start_peel peelID =
     \<lparr> pl_dedup = newDedupTracker dedupCapacity, pl_disk = None, pl_id = peelID, pl_queue = [], pl_cancelFuncs = [],
       pl_cancelled = [], pl_contexts = 0, pl_executed = [], pl_out = [] \<rparr>"

definition send_out :: "string \<Rightarrow> peel_out \<Rightarrow> peel \<Rightarrow> peel" where
  "send_out subject msg p = p\<lparr>pl_out := pl_out p @ [(subject, msg)]\<rparr>"

definition publishJobAck :: "int \<Rightarrow> string \<Rightarrow> peel \<Rightarrow> peel" where
  "publishJobAck now jid p =
     send_out (JobAckSubject jid (pl_id p)) (AckOut \<lparr> ak_JID = jid, ak_PeelID = pl_id p, ak_Timestamp = now \<rparr>) p"

definition publishJobReturn :: "int \<Rightarrow> string \<Rightarrow> bool \<Rightarrow> gval \<Rightarrow> int \<Rightarrow> string \<Rightarrow> peel \<Rightarrow> peel" where
  "publishJobReturn now jid success returnData dur errMsg p =
     send_out (JobReturnSubject jid (pl_id p))
       (ReturnOut \<lparr> rt_JID = jid, rt_PeelID = pl_id p, rt_Success = success, rt_ReturnData = returnData, rt_Error = errMsg,
                    rt_Duration = dur, rt_Timestamp = now, rt_Unreachable = False \<rparr>) p"

definition respondError :: "int \<Rightarrow> string \<Rightarrow> string \<Rightarrow> string \<Rightarrow> peel \<Rightarrow> peel" where
  "respondError now reply jid errMsg p =
     (if reply \<noteq> '''' then
        send_out reply (ReplyOut \<lparr> xr_PeelID = pl_id p, xr_JID = jid, xr_Success = False, xr_Results = GNil, xr_Error = errMsg \<rparr>) p
      else if jid \<noteq> '''' then publishJobReturn now jid False GNil 0 errMsg p
      else p)"

definition releaseExecCancel :: "string \<Rightarrow> nat option \<Rightarrow> peel \<Rightarrow> peel" where
  "releaseExecCancel jid ctx p =
     (case ctx of
        None \<Rightarrow> p
      | Some c \<Rightarrow> p\<lparr>pl_cancelFuncs := m_del jid (pl_cancelFuncs p), pl_cancelled := c # pl_cancelled p\<rparr>)"

definition ctx_done :: "nat option \<Rightarrow> peel \<Rightarrow> bool" where
  "ctx_done ctx p = (case ctx of None \<Rightarrow> False | Some c \<Rightarrow> c \<in> set (pl_cancelled p))"

definition dispatchExec :: "executor \<Rightarrow> int \<Rightarrow> string \<Rightarrow> ExecRequest \<Rightarrow> nat option \<Rightarrow> peel \<Rightarrow> peel" where
  "dispatchExec run now reply req ctx p =
     (case run (ctx_done ctx p) req of
        (resp, dur) \<Rightarrow>
          let resp = resp\<lparr>xr_JID := er_JID req\<rparr>;
              p = p\<lparr>pl_executed := pl_executed p @ [(reply = '''' \<and> er_JID req \<noteq> '''', req)]\<rparr>
          in if reply \<noteq> '''' then send_out reply (ReplyOut resp) p
             else if er_JID req \<noteq> '''' then
               publishJobReturn now (er_JID req) (xr_Success resp) (xr_Results resp) dur (xr_Error resp) p
             else p)"

text \<open>The callback once the request has been accepted.\<close>

definition accept_request :: "executor \<Rightarrow> (string \<Rightarrow> bool) \<Rightarrow> int \<Rightarrow> string \<Rightarrow> ExecRequest \<Rightarrow> peel \<Rightarrow> peel" where
  "accept_request run readOnly now reply req p =
     (let isJob = (reply = '''' \<and> er_JID req \<noteq> '''');
          p = (if isJob then publishJobAck now (er_JID req) p else p);
          ctx = (if isJob then Some (pl_contexts p) else None);
          p = (if isJob then p\<lparr>pl_contexts := pl_contexts p + 1,
                               pl_cancelFuncs := m_set (er_JID req) (pl_contexts p) (pl_cancelFuncs p)\<rparr> else p)
      in if readOnly (er_Module req) then
           releaseExecCancel (er_JID req) ctx (dispatchExec run now reply req ctx p)
         else if length (pl_queue p) < execQueueSize then
           p\<lparr>pl_queue := pl_queue p @ [\<lparr> tk_reply = reply, tk_req = req, tk_ctx = ctx \<rparr>]\<rparr>
         else respondError now reply (er_JID req) execQueueFullMsg (releaseExecCancel (er_JID req) ctx p))"

text \<open>
  The callback of the command subject. \<open>fail\<close> is the error of the synchronous save, if it fails. What comes after the
  save is one action: it does not touch the record, and the worker takes from the queue what it has put there.
\<close>

definition handleExecRequest :: "executor \<Rightarrow> (string \<Rightarrow> bool) \<Rightarrow> int \<Rightarrow> string option \<Rightarrow> exec_msg \<Rightarrow> (peel, unit) prog" where
  "handleExecRequest run readOnly now fail msg =
     (case ms_Data msg of
        Inl err \<Rightarrow> act (\<lambda>p. ((), respondError now (ms_Reply msg) '''' (''decode request: '' @ err) p))
      | Inr req \<Rightarrow>
          if ms_Reply msg = '''' \<and> er_JID req \<noteq> '''' \<and> 0 < er_Epoch req then
            and_do (ObserveDurable fail (er_JID req) (er_Epoch req)) (\<lambda>(_, rejected).
            if rejected then Ret ()
            else act (\<lambda>p. ((), accept_request run readOnly now (ms_Reply msg) req p)))
          else act (\<lambda>p. ((), accept_request run readOnly now (ms_Reply msg) req p)))"

definition run_exec_worker :: "executor \<Rightarrow> int \<Rightarrow> peel \<Rightarrow> peel" where
  "run_exec_worker run now p =
     (case pl_queue p of
        [] \<Rightarrow> p
      | t # ts \<Rightarrow>
          releaseExecCancel (er_JID (tk_req t)) (tk_ctx t)
            (dispatchExec run now (tk_reply t) (tk_req t) (tk_ctx t) (p\<lparr>pl_queue := ts\<rparr>)))"

definition handleJobCancel :: "string \<Rightarrow> peel \<Rightarrow> peel" where
  "handleJobCancel subject p =
     (let parts = splitN 4 (CHR ''.'') subject in
      if length parts < 4 then p
      else (case map_of (pl_cancelFuncs p) (parts ! 2) of
              None \<Rightarrow> p
            | Some c \<Rightarrow> p\<lparr>pl_cancelled := c # pl_cancelled p\<rparr>))"

section \<open>The agent as a state machine\<close>

text \<open>
  The goroutines that touch the record: the callback, of which at most one runs since the subscription calls it for one
  message after the other, and the savers, which are the goroutines of fired timers and the flush at shutdown. A delivery starts
  the callback and makes its first action. At a restart all of them are gone, with the queue, and the file is read.
\<close>

type_synonym agent = "peel \<times> (peel, unit) prog \<times> (peel, string option) prog list"

datatype peel_event =
    Deliver int "string option" exec_msg
  | Callback
  | Work int
  | CancelDelivered string
  | TimerFires "string option"
  | Shutdown "string option"
  | Saver nat
  | Restart "snapshot result"

definition finished :: "('s, 'a) prog \<Rightarrow> bool" where
  "finished p = (case p of Ret _ \<Rightarrow> True | Act _ \<Rightarrow> False)"

fun peel_step :: "executor \<Rightarrow> (string \<Rightarrow> bool) \<Rightarrow> peel_event \<Rightarrow> agent \<Rightarrow> agent" where
  "peel_step run readOnly (Deliver now fail msg) (p, cb, ss) =
     (if finished cb
      then (case step_prog (handleExecRequest run readOnly now fail msg) p of (cb, p) \<Rightarrow> (p, cb, ss))
      else (p, cb, ss))"
| "peel_step run readOnly Callback (p, cb, ss) = (case step_prog cb p of (cb, p) \<Rightarrow> (p, cb, ss))"
| "peel_step run readOnly (Work now) (p, cb, ss) = (run_exec_worker run now p, cb, ss)"
| "peel_step run readOnly (CancelDelivered subject) (p, cb, ss) = (handleJobCancel subject p, cb, ss)"
| "peel_step run readOnly (TimerFires fail) (p, cb, ss) =
     (if dt_timer (pl_dedup p) = Armed
      then (p\<lparr>pl_dedup := (pl_dedup p)\<lparr>dt_timer := Fired\<rparr>\<rparr>, cb, ss @ [Flush fail])
      else (p, cb, ss))"
| "peel_step run readOnly (Shutdown fail) (p, cb, ss) = (p, cb, ss @ [Flush fail])"
| "peel_step run readOnly (Saver i) (p, cb, ss) =
     (if i < length ss then (case step_prog (ss ! i) p of (s, p) \<Rightarrow> (p, cb, ss[i := s])) else (p, cb, ss))"
| "peel_step run readOnly (Restart file) (p, cb, ss) =
     (p\<lparr>pl_dedup := snd (Load file (newDedupTracker dedupCapacity)), pl_queue := [], pl_cancelFuncs := []\<rparr>, Ret (), [])"

definition peel_run :: "executor \<Rightarrow> (string \<Rightarrow> bool) \<Rightarrow> peel_event list \<Rightarrow> agent \<Rightarrow> agent" where
  "peel_run run readOnly = fold (peel_step run readOnly)"

text \<open>A condition on each event and the agent that meets it.\<close>

fun along :: "(peel_event \<Rightarrow> agent \<Rightarrow> bool) \<Rightarrow> executor \<Rightarrow> (string \<Rightarrow> bool) \<Rightarrow> peel_event list \<Rightarrow> agent \<Rightarrow> bool" where
  "along Q run readOnly [] a = True"
| "along Q run readOnly (e # es) a = (Q e a \<and> along Q run readOnly es (peel_step run readOnly e a))"

text \<open>A restart that can read the file reads what was written last.\<close>

fun reads_disk :: "peel_event \<Rightarrow> agent \<Rightarrow> bool" where
  "reads_disk (Restart (Inr file)) (p, cb, ss) =
     (case (file, pl_disk p) of
        (None, None) \<Rightarrow> True
      | (Some m, Some m') \<Rightarrow> mset m = mset m'
      | _ \<Rightarrow> False)"
| "reads_disk _ _ = True"

text \<open>No goroutine is in the middle of a save when a message arrives.\<close>

fun saves_apart :: "peel_event \<Rightarrow> agent \<Rightarrow> bool" where
  "saves_apart (Deliver now fail msg) (p, cb, ss) = list_all finished ss"
| "saves_apart _ _ = True"

section \<open>A job is executed once\<close>

text \<open>Requests are fair to the record if every job has one epoch and there are no more jobs than the record holds.\<close>

definition entries_ok :: "(string \<Rightarrow> nat) \<Rightarrow> string set \<Rightarrow> (string, nat) gomap \<Rightarrow> bool" where
  "entries_ok E D m \<longleftrightarrow> distinct (m_keys m) \<and> (\<forall>(jid, epoch) \<in> set m. jid \<in> D \<and> epoch = E jid)"

definition tracker_ok :: "(string \<Rightarrow> nat) \<Rightarrow> string set \<Rightarrow> dedupTracker \<Rightarrow> bool" where
  "tracker_ok E D d \<longleftrightarrow> dt_capacity d = dedupCapacity \<and> entries_ok E D (dt_m d) \<and> distinct (dt_order d) \<and>
     set (dt_order d) = set (m_keys (dt_m d))"

definition begun :: "string \<Rightarrow> peel \<Rightarrow> nat" where
  "begun jid p = length (filter (\<lambda>(job, req). job \<and> er_JID req = jid) (pl_executed p)) +
     length (filter (\<lambda>t. tk_reply t = '''' \<and> er_JID (tk_req t) = jid) (pl_queue p))"

text \<open>A snapshot that knows every job that has begun, and those of \<open>X\<close>, which the callback is about to accept.\<close>

definition covers :: "(string \<Rightarrow> nat) \<Rightarrow> string set \<Rightarrow> string set \<Rightarrow> peel \<Rightarrow> (string, nat) gomap \<Rightarrow> bool" where
  "covers E D X p m \<longleftrightarrow> entries_ok E D m \<and> (\<forall>jid. jid \<noteq> '''' \<and> 0 < begun jid p \<or> jid \<in> X \<longrightarrow> jid \<in> set (m_keys m))"

definition on_disk :: "peel \<Rightarrow> (string, nat) gomap" where
  "on_disk p = (case pl_disk p of None \<Rightarrow> [] | Some m \<Rightarrow> m)"

definition saver_ok :: "(string \<Rightarrow> nat) \<Rightarrow> string set \<Rightarrow> string set \<Rightarrow> peel \<Rightarrow> (peel, string option) prog \<Rightarrow> bool" where
  "saver_ok E D X p s \<longleftrightarrow> finished s \<or> (\<exists>fail. s = Flush fail) \<or> (\<exists>fail m. s = writeFileAtomic fail m \<and> covers E D X p m)"

text \<open>What the callback has left to do, after it has observed a new job.\<close>

definition accepting :: "executor \<Rightarrow> (string \<Rightarrow> bool) \<Rightarrow> int \<Rightarrow> ExecRequest \<Rightarrow> (peel, unit) prog" where
  "accepting run readOnly now req = act (\<lambda>p. ((), accept_request run readOnly now '''' req p))"

definition after_save :: "executor \<Rightarrow> (string \<Rightarrow> bool) \<Rightarrow> int \<Rightarrow> ExecRequest \<Rightarrow> string option \<Rightarrow> (peel, unit) prog" where
  "after_save run readOnly now req err =
     and_do (when_do (err \<noteq> None) (act (\<lambda>p. ((), p\<lparr>pl_dedup := scheduleSaveLocked (pl_dedup p)\<rparr>)))) (\<lambda>_.
     accepting run readOnly now req)"

definition callback_ok ::
  "(string \<Rightarrow> nat) \<Rightarrow> string set \<Rightarrow> executor \<Rightarrow> (string \<Rightarrow> bool) \<Rightarrow> string set \<Rightarrow> peel \<Rightarrow> (peel, unit) prog \<Rightarrow> bool" where
  "callback_ok E D run readOnly X p cb \<longleftrightarrow>
     (X = {} \<and> cb = Ret ()) \<or>
     (\<exists>now req. X = {er_JID req} \<and> er_JID req \<noteq> '''' \<and> begun (er_JID req) p = 0 \<and>
        (cb = and_do (Flush None) (after_save run readOnly now req) \<or>
         (\<exists>m. cb = and_do (writeFileAtomic None m) (after_save run readOnly now req) \<and> covers E D X p m) \<or>
         cb = accepting run readOnly now req \<and> covers E D X p (on_disk p)))"

definition agent_ok :: "(string \<Rightarrow> nat) \<Rightarrow> string set \<Rightarrow> executor \<Rightarrow> (string \<Rightarrow> bool) \<Rightarrow> string set \<Rightarrow> agent \<Rightarrow> bool" where
  "agent_ok E D run readOnly X a \<longleftrightarrow>
     (case a of (p, cb, ss) \<Rightarrow> tracker_ok E D (pl_dedup p) \<and> covers E D X p (dt_m (pl_dedup p)) \<and> covers E D {} p (on_disk p) \<and>
        (\<forall>jid. jid \<noteq> '''' \<longrightarrow> begun jid p \<le> 1) \<and> callback_ok E D run readOnly X p cb \<and> (\<forall>s \<in> set ss. saver_ok E D X p s))"

definition once_ok :: "(string \<Rightarrow> nat) \<Rightarrow> string set \<Rightarrow> executor \<Rightarrow> (string \<Rightarrow> bool) \<Rightarrow> agent \<Rightarrow> bool" where
  "once_ok E D run readOnly a \<longleftrightarrow> (\<exists>X. agent_ok E D run readOnly X a)"

lemma update_new: "k \<notin> fst ` set m \<Longrightarrow> m_set k v m = m @ [(k, v)]"
  by (induction m) auto

lemma entries_ok_bound:
  assumes "entries_ok E D m" "finite D" "card D \<le> n" shows "length m \<le> n"
proof -
  have "set (m_keys m) \<subseteq> D" using assms(1) by (auto simp: entries_ok_def)
  then have "card (set (m_keys m)) \<le> card D" using assms(2) by (rule card_mono [rotated])
  then show ?thesis using assms distinct_card [of "m_keys m"] by (simp add: entries_ok_def)
qed

lemma order_length: "tracker_ok E D d \<Longrightarrow> length (dt_order d) = length (dt_m d)"
  using distinct_card [of "dt_order d"] distinct_card [of "m_keys (dt_m d)"] by (simp add: tracker_ok_def entries_ok_def)

text \<open>A dispatch of a known job is rejected; that of a new one finds room.\<close>

lemma Observe_known:
  assumes "tracker_ok E D d" "jid \<in> set (m_keys (dt_m d))"
  shows "Observe jid (E jid) d = ((E jid, True), d)"
proof -
  obtain e where "(jid, e) \<in> set (dt_m d)" using assms(2) by auto
  then have "map_of (dt_m d) jid = Some e" "e = E jid"
    using assms(1) by (auto simp: tracker_ok_def entries_ok_def)
  then show ?thesis by (simp add: Observe_def)
qed

lemma Observe_new:
  assumes "tracker_ok E D d" "jid \<notin> set (m_keys (dt_m d))" "jid \<in> D" "finite D" "card D \<le> dedupCapacity"
  shows "Observe jid (E jid) d =
    ((0, False), scheduleSaveLocked (d\<lparr>dt_order := dt_order d @ [jid], dt_m := dt_m d @ [(jid, E jid)]\<rparr>))"
proof -
  have "entries_ok E D (dt_m d @ [(jid, E jid)])"
    using assms(1-3) by (auto simp: tracker_ok_def entries_ok_def)
  from entries_ok_bound [OF this assms(4,5)] have "length (dt_order d) < dedupCapacity"
    using order_length [OF assms(1)] by simp
  moreover have "map_of (dt_m d) jid = None" using assms(2) by (simp add: map_of_eq_None_iff)
  moreover have "m_set jid (E jid) (dt_m d) = dt_m d @ [(jid, E jid)]" using assms(2) by (simp add: update_new)
  ultimately show ?thesis using assms(1) by (simp add: Observe_def tracker_ok_def Let_def)
qed

lemma load_entries_ok:
  assumes "tracker_ok E D d" "entries_ok E D (dt_m d @ es)" "length (dt_m d @ es) \<le> dedupCapacity"
  shows "tracker_ok E D (load_entries es d) \<and> dt_m (load_entries es d) = dt_m d @ es"
  using assms
proof (induction es d rule: load_entries.induct)
  case (2 jid epoch es d)
  have n: "jid \<notin> fst ` set (dt_m d)" using "2.prems"(2) by (auto simp: entries_ok_def)
  have "\<not> dt_capacity d \<le> length (dt_order d)"
    using "2.prems" order_length [OF "2.prems"(1)] by (simp add: tracker_ok_def)
  moreover have "map_of (dt_m d) jid = None" using n by (simp add: map_of_eq_None_iff)
  moreover have "tracker_ok E D (d\<lparr>dt_order := dt_order d @ [jid], dt_m := dt_m d @ [(jid, epoch)]\<rparr>)"
    using "2.prems"(1,2) n by (auto simp: tracker_ok_def entries_ok_def)
  ultimately show ?case using "2.IH" "2.prems"(2,3) by (simp add: update_new [OF n])
qed simp

fun fair :: "(string \<Rightarrow> nat) \<Rightarrow> string set \<Rightarrow> peel_event \<Rightarrow> bool" where
  "fair E D (Deliver now fail msg) =
     (case ms_Data msg of
        Inl _ \<Rightarrow> True
      | Inr req \<Rightarrow> ms_Reply msg = '''' \<longrightarrow> er_JID req \<noteq> '''' \<longrightarrow>
          fail = None \<and> er_JID req \<in> D \<and> er_Epoch req = E (er_JID req) \<and> 0 < er_Epoch req)"
| "fair E D (Restart file) = (case file of Inl _ \<Rightarrow> False | Inr _ \<Rightarrow> True)"
| "fair E D e = True"

definition same_record :: "peel \<Rightarrow> peel \<Rightarrow> bool" where
  "same_record p p' \<longleftrightarrow> pl_dedup p' = pl_dedup p \<and> pl_disk p' = pl_disk p"

lemma same_record_refl [simp]: "same_record p p" "same_record p (p\<lparr>pl_queue := ts\<rparr>)"
  by (simp_all add: same_record_def)

lemma begun_queue:
  "pl_queue p = t # ts \<Longrightarrow> begun jid p =
     begun jid (p\<lparr>pl_queue := ts\<rparr>) + (if tk_reply t = [] \<and> er_JID (tk_req t) = jid then 1 else 0)"
  by (simp add: begun_def)

lemma begun_out [simp]:
  "begun jid (send_out s m p) = begun jid p" "same_record p0 (send_out s m p) = same_record p0 p"
  "begun jid (respondError now reply j e p) = begun jid p" "same_record p0 (respondError now reply j e p) = same_record p0 p"
  "begun jid (publishJobAck now j p) = begun jid p" "same_record p0 (publishJobAck now j p) = same_record p0 p"
  "begun jid (releaseExecCancel j c p) = begun jid p" "same_record p0 (releaseExecCancel j c p) = same_record p0 p"
  "begun jid (p\<lparr>pl_contexts := n, pl_cancelFuncs := f\<rparr>) = begun jid p"
  "same_record p0 (p\<lparr>pl_contexts := n, pl_cancelFuncs := f\<rparr>) = same_record p0 p"
  by (simp_all add: begun_def send_out_def respondError_def publishJobReturn_def publishJobAck_def releaseExecCancel_def
      same_record_def split: option.split)

lemma begun_dispatchExec [simp]:
  "begun jid (dispatchExec run now reply req ctx p) = begun jid p + (if reply = '''' \<and> er_JID req \<noteq> '''' \<and> er_JID req = jid then 1 else 0)"
  "same_record p0 (dispatchExec run now reply req ctx p) = same_record p0 p"
  by (auto simp: dispatchExec_def begun_def send_out_def publishJobReturn_def same_record_def Let_def split: prod.split)

lemma accept_request_begun:
  assumes "jid \<noteq> ''''"
  shows "begun jid (accept_request run readOnly now reply req p) \<le>
      begun jid p + (if reply = '''' \<and> er_JID req = jid then 1 else 0)"
    and "same_record p (accept_request run readOnly now reply req p)"
proof -
  have q: "begun jid (p'\<lparr>pl_queue := pl_queue p' @ [t]\<rparr>) =
      begun jid p' + (if tk_reply t = '''' \<and> er_JID (tk_req t) = jid then 1 else 0)"
    "same_record p (p'\<lparr>pl_queue := pl_queue p' @ [t]\<rparr>) = same_record p p'"
    "begun jid (p'\<lparr>pl_contexts := n, pl_cancelFuncs := f, pl_queue := pl_queue p' @ [t]\<rparr>) =
      begun jid p' + (if tk_reply t = '''' \<and> er_JID (tk_req t) = jid then 1 else 0)"
    "same_record p (p'\<lparr>pl_contexts := n, pl_cancelFuncs := f, pl_queue := pl_queue p' @ [t]\<rparr>) = same_record p p'" for p' t n f
    by (simp_all add: begun_def same_record_def)
  have refl: "same_record p p" by (simp add: same_record_def)
  show "begun jid (accept_request run readOnly now reply req p) \<le>
      begun jid p + (if reply = '''' \<and> er_JID req = jid then 1 else 0)"
    unfolding accept_request_def Let_def using assms by (auto simp: q)
  show "same_record p (accept_request run readOnly now reply req p)"
    unfolding accept_request_def Let_def by (auto simp: q refl)
qed

lemma covers_mono:
  assumes "covers E D X p m" "\<And>jid. jid \<noteq> '''' \<Longrightarrow> jid \<notin> X \<Longrightarrow> begun jid p' \<le> begun jid p" "Y \<subseteq> X" "'''' \<notin> X"
  shows "covers E D Y p' m"
proof -
  have "jid \<in> set (m_keys m)" if "jid \<noteq> '''' \<and> 0 < begun jid p' \<or> jid \<in> Y" for jid
  proof (cases "jid \<in> X")
    case False
    then have "jid \<noteq> '''' \<and> 0 < begun jid p" using that assms(3) assms(2) [of jid] by (auto intro: less_le_trans)
    then show ?thesis using assms(1) unfolding covers_def by blast
  qed (use assms(1) in \<open>auto simp: covers_def\<close>)
  then show ?thesis using assms(1) by (simp add: covers_def)
qed

lemma finished_simps [simp]: "finished (Ret a)" "\<not> finished (act f)" "\<not> finished (and_do (act f) k)"
  by (simp_all add: finished_def act_def)

lemma callback_extra: "callback_ok E D run readOnly X p cb \<Longrightarrow> '''' \<notin> X \<and> (finished cb \<longrightarrow> X = {})"
  by (auto simp: callback_ok_def Flush_def writeFileAtomic_def accepting_def and_do_assoc)

text \<open>The callback accepts the job it has saved.\<close>

lemma agent_ok_accept:
  fixes now :: int
  assumes "agent_ok E D run readOnly X (p, cb, ss)" "X = {er_JID req}" "er_JID req \<noteq> ''''" "begun (er_JID req) p = 0"
    and "covers E D X p (on_disk p)"
  defines "p' \<equiv> accept_request run readOnly now '''' req p"
  shows "once_ok E D run readOnly (p', Ret (), ss)"
proof -
  have X: "tracker_ok E D (pl_dedup p)" "covers E D X p (dt_m (pl_dedup p))"
    "\<forall>jid. jid \<noteq> '''' \<longrightarrow> begun jid p \<le> 1" "\<forall>s \<in> set ss. saver_ok E D X p s"
    using assms(1) by (auto simp: agent_ok_def)
  have b: "begun jid p' \<le> begun jid p + (if er_JID req = jid then 1 else 0)" if "jid \<noteq> ''''" for jid
    using accept_request_begun(1) [OF that, of run readOnly now "''''" req p] unfolding p'_def by simp
  have r: "pl_dedup p' = pl_dedup p" "on_disk p' = on_disk p"
    using accept_request_begun(2) [of "''x''" p run readOnly now "''''" req] unfolding p'_def by (simp_all add: same_record_def on_disk_def)
  have c: "covers E D {} p' m" if "covers E D X p m" for m
    by (rule covers_mono [OF that]) (use b assms(2,3) in \<open>auto dest: b split: if_splits\<close>)
  have "begun jid p' \<le> 1" if "jid \<noteq> ''''" for jid
    using b [OF that] X(3) that assms(4) by (cases "er_JID req = jid") (auto intro: le_trans)
  moreover have "\<forall>s \<in> set ss. saver_ok E D {} p' s" using X(4) c unfolding saver_ok_def by blast
  ultimately show ?thesis using X(1,2) c assms(5) by (auto simp: once_ok_def agent_ok_def callback_ok_def r intro!: exI [of _ "{}"])
qed

text \<open>An action that leaves the record alone and begins no job.\<close>

lemma agent_ok_same:
  assumes "agent_ok E D run readOnly X (p, cb, ss)" "same_record p p'" "\<And>jid. jid \<noteq> '''' \<Longrightarrow> begun jid p' \<le> begun jid p"
  shows "agent_ok E D run readOnly X (p', cb, ss)"
proof -
  have X: "tracker_ok E D (pl_dedup p)" "covers E D X p (dt_m (pl_dedup p))" "covers E D {} p (on_disk p)"
    "\<forall>jid. jid \<noteq> '''' \<longrightarrow> begun jid p \<le> 1" "callback_ok E D run readOnly X p cb" "\<forall>s \<in> set ss. saver_ok E D X p s"
    using assms(1) by (auto simp: agent_ok_def)
  have e: "'''' \<notin> X" using callback_extra [OF X(5)] by simp
  have c: "covers E D X p' m" if "covers E D X p m" for m using covers_mono [OF that assms(3)] e by blast
  have d: "covers E D {} p' m" if "covers E D {} p m" for m using covers_mono [OF that assms(3)] by simp
  have r: "pl_dedup p' = pl_dedup p" "on_disk p' = on_disk p" using assms(2) by (simp_all add: same_record_def on_disk_def)
  have z: "begun jid p' = 0" if "jid \<noteq> ''''" "begun jid p = 0" for jid using assms(3) [OF that(1)] that(2) by simp
  have "callback_ok E D run readOnly X p' cb" using X(5) c z unfolding callback_ok_def r by blast
  moreover have "\<forall>s \<in> set ss. saver_ok E D X p' s" using X(6) c unfolding saver_ok_def by blast
  moreover have "\<forall>jid. jid \<noteq> '''' \<longrightarrow> begun jid p' \<le> 1" using X(4) assms(3) le_trans by blast
  ultimately show ?thesis using X(1) c [OF X(2)] d [OF X(3)] by (simp add: agent_ok_def r)
qed

text \<open>A change of the timer alone, and a snapshot that is written.\<close>

lemma record_fields [simp]:
  "covers E D X (p\<lparr>pl_dedup := d\<rparr>) m = covers E D X p m" "begun jid (p\<lparr>pl_dedup := d\<rparr>) = begun jid p"
  "on_disk (p\<lparr>pl_dedup := d\<rparr>) = on_disk p" "covers E D X (p\<lparr>pl_disk := c\<rparr>) m = covers E D X p m"
  "begun jid (p\<lparr>pl_disk := c\<rparr>) = begun jid p" "on_disk (p\<lparr>pl_disk := Some m\<rparr>) = m"
  "saver_ok E D X (p\<lparr>pl_dedup := d\<rparr>) s = saver_ok E D X p s" "saver_ok E D X (p\<lparr>pl_disk := c\<rparr>) s = saver_ok E D X p s"
  "callback_ok E D run readOnly X (p\<lparr>pl_dedup := d\<rparr>) cb = callback_ok E D run readOnly X p cb"
  by (simp_all add: covers_def begun_def on_disk_def saver_ok_def callback_ok_def)

lemma agent_ok_timer:
  "agent_ok E D run readOnly X (p, cb, ss) \<Longrightarrow>
    agent_ok E D run readOnly X (p\<lparr>pl_dedup := (pl_dedup p)\<lparr>dt_timer := t\<rparr>\<rparr>, cb, ss)"
  by (simp add: agent_ok_def tracker_ok_def)

lemma agent_ok_write:
  assumes "agent_ok E D run readOnly X (p, cb, ss)" "covers E D X p m"
  shows "agent_ok E D run readOnly X (p\<lparr>pl_disk := Some m\<rparr>, cb, ss)"
proof -
  have "callback_ok E D run readOnly X p cb" using assms by (simp add: agent_ok_def)
  then have "callback_ok E D run readOnly X (p\<lparr>pl_disk := Some m\<rparr>) cb"
    using assms(2) unfolding callback_ok_def record_fields by blast
  moreover have "covers E D {} p m" using assms(2) by (simp add: covers_def)
  ultimately show ?thesis using assms(1) by (simp add: agent_ok_def)
qed

lemma agent_ok_saver:
  assumes "agent_ok E D run readOnly X (p, cb, ss)" "i < length ss" "step_prog (ss ! i) p = (s, p')"
  shows "agent_ok E D run readOnly X (p', cb, ss[i := s])"
proof -
  have X: "covers E D X p (dt_m (pl_dedup p))" "saver_ok E D X p (ss ! i)"
    using assms(1,2) by (auto simp: agent_ok_def)
  have put: "agent_ok E D run readOnly X (q, cb, ss[i := s])"
    if "agent_ok E D run readOnly X (q, cb, ss)" "saver_ok E D X q s" for q
    using that set_update_subset_insert [of ss i s] by (auto simp: agent_ok_def)
  consider a where "ss ! i = Ret a" | fail where "ss ! i = Flush fail"
    | fail m where "ss ! i = writeFileAtomic fail m" "covers E D X p m"
    using X(2) by (auto simp: saver_ok_def finished_def split: prog.splits)
  then show ?thesis
  proof cases
    case (1 a)
    then have "s = Ret a" "p' = p" using assms(3) by auto
    then show ?thesis using put [OF assms(1)] by (simp add: saver_ok_def)
  next
    case (2 fail)
    then have "s = writeFileAtomic fail (dt_m (pl_dedup p))" "p' = p\<lparr>pl_dedup := (pl_dedup p)\<lparr>dt_timer := Unarmed\<rparr>\<rparr>"
      using assms(3) by (simp_all add: Flush_def)
    then show ?thesis using put [OF agent_ok_timer [OF assms(1)], of Unarmed] X(1) by (auto simp: saver_ok_def)
  next
    case (3 fail m)
    then have "s = Ret fail" "p' = (if fail = None then p\<lparr>pl_disk := Some m\<rparr> else p)"
      using assms(3) by (auto simp: writeFileAtomic_def split: option.splits)
    then show ?thesis using put [OF agent_ok_write [OF assms(1) 3(2)]] put [OF assms(1)] by (auto simp: saver_ok_def)
  qed
qed

lemma agent_ok_callback:
  assumes "agent_ok E D run readOnly X (p, cb, ss)" "step_prog cb p = (cb', p')"
  shows "once_ok E D run readOnly (p', cb', ss)"
proof -
  have X: "covers E D X p (dt_m (pl_dedup p))" "callback_ok E D run readOnly X p cb"
    using assms(1) by (auto simp: agent_ok_def)
  have put: "once_ok E D run readOnly (q, c, ss)"
    if "agent_ok E D run readOnly X (q, cb, ss)" "callback_ok E D run readOnly X q c" for q c
    using that by (auto simp: agent_ok_def once_ok_def)
  show ?thesis
  proof (cases "cb = Ret ()")
    case True
    then show ?thesis using assms by (auto simp: once_ok_def)
  next
    case False
    then obtain now req where r: "X = {er_JID req}" "er_JID req \<noteq> ''''" "begun (er_JID req) p = 0"
      and "cb = and_do (Flush None) (after_save run readOnly now req) \<or>
         (\<exists>m. cb = and_do (writeFileAtomic None m) (after_save run readOnly now req) \<and> covers E D X p m) \<or>
         cb = accepting run readOnly now req \<and> covers E D X p (on_disk p)"
      using X(2) unfolding callback_ok_def by blast
    then consider "cb = and_do (Flush None) (after_save run readOnly now req)"
      | m where "cb = and_do (writeFileAtomic None m) (after_save run readOnly now req)" "covers E D X p m"
      | "cb = accepting run readOnly now req" "covers E D X p (on_disk p)" by blast
    then show ?thesis
    proof cases
      case 1
      then have "cb' = and_do (writeFileAtomic None (dt_m (pl_dedup p))) (after_save run readOnly now req)"
        "p' = p\<lparr>pl_dedup := (pl_dedup p)\<lparr>dt_timer := Unarmed\<rparr>\<rparr>"
        using assms(2) by (simp_all add: Flush_def and_do_assoc)
      moreover have "callback_ok E D run readOnly X p (and_do (writeFileAtomic None (dt_m (pl_dedup p))) (after_save run readOnly now req))"
        using r X(1) unfolding callback_ok_def by blast
      ultimately show ?thesis using assms(1) by (auto intro!: put agent_ok_timer)
    next
      case (2 m)
      then have "cb' = accepting run readOnly now req" "p' = p\<lparr>pl_disk := Some m\<rparr>"
        using assms(2) by (simp_all add: writeFileAtomic_def after_save_def)
      moreover have "callback_ok E D run readOnly X (p\<lparr>pl_disk := Some m\<rparr>) (accepting run readOnly now req)"
        using r 2(2) by (auto simp: callback_ok_def)
      ultimately show ?thesis using put [OF agent_ok_write [OF assms(1) 2(2)]] by simp
    next
      case 3
      then have "cb' = Ret ()" "p' = accept_request run readOnly now '''' req p" using assms(2) by (simp_all add: accepting_def)
      then show ?thesis using agent_ok_accept [OF assms(1) r 3(2)] by simp
    qed
  qed
qed

text \<open>The first action of the callback for a dispatch, at a moment when no other goroutine saves.\<close>

lemma agent_ok_observe:
  assumes "agent_ok E D run readOnly {} (p, Ret (), ss)" "finite D" "card D \<le> dedupCapacity" "er_JID req \<noteq> ''''" "er_JID req \<in> D"
    and "list_all finished ss"
    and "step_prog (and_do (ObserveDurable None (er_JID req) (E (er_JID req))) (\<lambda>(_, rejected).
          if rejected then Ret () else accepting run readOnly now req)) p = (cb, p')"
  shows "once_ok E D run readOnly (p', cb, ss)"
proof -
  let ?jid = "er_JID req"
  have ok: "tracker_ok E D (pl_dedup p)" "covers E D {} p (dt_m (pl_dedup p))" using assms(1) by (auto simp: agent_ok_def)
  show ?thesis
  proof (cases "?jid \<in> set (m_keys (dt_m (pl_dedup p)))")
    case True
    have "cb = Ret ()" "p' = p"
      using assms(7) Observe_known [OF ok(1) True] by (auto simp: ObserveDurable_def and_do_assoc)
    then show ?thesis using assms(1) by (auto simp: once_ok_def)
  next
    case False
    define d where "d = snd (Observe ?jid (E ?jid) (pl_dedup p))"
    have o: "Observe ?jid (E ?jid) (pl_dedup p) = ((0, False), d)" "dt_m d = dt_m (pl_dedup p) @ [(?jid, E ?jid)]"
      "dt_order d = dt_order (pl_dedup p) @ [?jid]" "dt_capacity d = dedupCapacity"
      using Observe_new [OF ok(1) False assms(5,2,3)] ok(1) unfolding d_def by (auto simp: scheduleSaveLocked_def tracker_ok_def)
    have "cb = and_do (Flush None) (after_save run readOnly now req)" "p' = p\<lparr>pl_dedup := d\<rparr>"
      using assms(7) o(1) by (auto simp: ObserveDurable_def and_do_assoc after_save_def fun_eq_iff
          intro!: arg_cong [of _ _ "and_do (Flush None)"])
    moreover have "entries_ok E D (dt_m d)" using ok(1) o(2) assms(5) False by (auto simp: tracker_ok_def entries_ok_def)
    moreover from this have "tracker_ok E D d" using ok(1) o False by (auto simp: tracker_ok_def)
    moreover have "covers E D {?jid} p (dt_m d)" using ok(2) o(2) calculation(3) by (auto simp: covers_def)
    moreover have "begun ?jid p = 0" using ok(2) False assms(4) unfolding covers_def by (metis gr0I)
    moreover have "saver_ok E D {?jid} p s" if "s \<in> set ss" for s using assms(6) that by (auto simp: saver_ok_def list_all_iff)
    ultimately have "agent_ok E D run readOnly {?jid} (p', cb, ss)"
      using assms(1,4) by (auto simp: agent_ok_def callback_ok_def)
    then show ?thesis by (auto simp: once_ok_def)
  qed
qed

lemma agent_ok_deliver:
  assumes "agent_ok E D run readOnly X (p, Ret (), ss)" "finite D" "card D \<le> dedupCapacity" "fair E D (Deliver now fail msg)"
    and "list_all finished ss" "step_prog (handleExecRequest run readOnly now fail msg) p = (cb, p')"
  shows "once_ok E D run readOnly (p', cb, ss)"
proof -
  have X: "X = {}" using callback_extra [of E D run readOnly X p "Ret ()"] assms(1) by (simp add: agent_ok_def)
  have ok: "agent_ok E D run readOnly {} (p, Ret (), ss)" using assms(1) X by simp
  note same = agent_ok_same [OF ok]
  show ?thesis
  proof (cases "ms_Data msg")
    case (Inl err)
    then have "cb = Ret ()" "p' = respondError now (ms_Reply msg) '''' (''decode request: '' @ err) p"
      using assms(6) by (simp_all add: handleExecRequest_def)
    then show ?thesis unfolding once_ok_def by (auto intro!: exI [of _ "{}"] same)
  next
    case (Inr req)
    show ?thesis
    proof (cases "ms_Reply msg = '''' \<and> er_JID req \<noteq> ''''")
      case False
      then have "cb = Ret ()" "p' = accept_request run readOnly now (ms_Reply msg) req p"
        using assms(6) Inr by (auto simp: handleExecRequest_def)
      moreover have "begun jid (accept_request run readOnly now (ms_Reply msg) req p) \<le> begun jid p" if "jid \<noteq> []" for jid
        using accept_request_begun(1) [OF that, of run readOnly now "ms_Reply msg" req p] False that by (auto split: if_splits)
      ultimately show ?thesis using accept_request_begun(2) [of "''x''"] unfolding once_ok_def by (auto intro!: exI [of _ "{}"] same)
    next
      case True
      then have f: "fail = None" "er_JID req \<in> D" "er_Epoch req = E (er_JID req)" "0 < er_Epoch req" using assms(4) Inr by auto
      then have "step_prog (and_do (ObserveDurable None (er_JID req) (E (er_JID req))) (\<lambda>(_, rejected).
          if rejected then Ret () else accepting run readOnly now req)) p = (cb, p')"
        using assms(6) Inr conjunct1 [OF True] conjunct2 [OF True]
        by (simp add: handleExecRequest_def accepting_def cong del: if_weak_cong)
      then show ?thesis using agent_ok_observe [OF ok assms(2,3) _ f(2)] True assms(5) by blast
    qed
  qed
qed

lemma restart_ok:
  assumes "once_ok E D run readOnly (p, cb, ss)" "finite D" "card D \<le> dedupCapacity" "reads_disk (Restart (Inr file)) (p, cb, ss)"
  shows "once_ok E D run readOnly (peel_step run readOnly (Restart (Inr file)) (p, cb, ss))"
proof -
  let ?d = "snd (Load (Inr file) (newDedupTracker dedupCapacity))"
  let ?p = "p\<lparr>pl_dedup := ?d, pl_queue := [], pl_cancelFuncs := []\<rparr>"
  define m where "m = (case file of None \<Rightarrow> [] | Some m \<Rightarrow> m)"
  have ok: "covers E D {} p (on_disk p)" "\<forall>jid. jid \<noteq> '''' \<longrightarrow> begun jid p \<le> 1"
    using assms(1) by (auto simp: once_ok_def agent_ok_def)
  have "mset m = mset (on_disk p)" using assms(4) by (auto simp: m_def on_disk_def split: option.splits)
  then have keys: "mset (map fst m) = mset (map fst (on_disk p))" "set m = set (on_disk p)" by (simp, metis set_mset_mset)
  then have "distinct (m_keys m) = distinct (m_keys (on_disk p))" by (intro mset_eq_imp_distinct_iff)
  then have c: "covers E D {} p m" using ok(1) keys(2) by (simp add: covers_def entries_ok_def)
  then have e: "entries_ok E D m" by (simp add: covers_def)
  have "tracker_ok E D (load_entries m (newDedupTracker dedupCapacity)) \<and> dt_m (load_entries m (newDedupTracker dedupCapacity)) = m"
    using load_entries_ok [of E D "newDedupTracker dedupCapacity" m] e entries_ok_bound [OF e assms(2,3)]
    by (simp add: newDedupTracker_def tracker_ok_def entries_ok_def)
  then have d: "tracker_ok E D ?d" "dt_m ?d = m"
    by (auto simp: Load_def m_def split: option.splits)
  have b: "begun jid ?p \<le> begun jid p" for jid by (simp add: begun_def)
  have "covers E D {} ?p m'" if "covers E D {} p m'" for m' by (rule covers_mono [OF that]) (use b in auto)
  moreover have "begun jid ?p \<le> 1" if "jid \<noteq> ''''" for jid using ok(2) that b le_trans by blast
  ultimately have "agent_ok E D run readOnly {} (?p, Ret (), [])"
    using d c ok(1) by (simp add: agent_ok_def callback_ok_def on_disk_def)
  then show ?thesis unfolding once_ok_def by auto
qed

lemma once_ok_step:
  assumes "once_ok E D run readOnly a" "finite D" "card D \<le> dedupCapacity" "fair E D e" "reads_disk e a" "saves_apart e a"
  shows "once_ok E D run readOnly (peel_step run readOnly e a)"
proof -
  obtain p cb ss where a: "a = (p, cb, ss)" by (cases a)
  obtain X where X: "agent_ok E D run readOnly X (p, cb, ss)" using assms(1) a by (auto simp: once_ok_def)
  show ?thesis
  proof (cases e)
    case (Deliver now fail msg)
    show ?thesis
    proof (cases "finished cb")
      case True
      then have "cb = Ret ()" by (cases cb) (auto simp: finished_def)
      then show ?thesis using agent_ok_deliver [of E D run readOnly X p ss now fail msg] X assms a Deliver True
        by (auto split: prod.split)
    qed (use assms a Deliver in auto)
  next
    case Callback
    then show ?thesis using agent_ok_callback [OF X] a by (auto split: prod.split)
  next
    case (Work now)
    have "agent_ok E D run readOnly X (run_exec_worker run now p, cb, ss)"
      by (rule agent_ok_same [OF X]) (auto simp: run_exec_worker_def begun_queue split: list.split)
    then show ?thesis using Work a by (auto simp: once_ok_def)
  next
    case (CancelDelivered subject)
    have "agent_ok E D run readOnly X (handleJobCancel subject p, cb, ss)"
      by (rule agent_ok_same [OF X]) (auto simp: handleJobCancel_def same_record_def begun_def Let_def split: option.split)
    then show ?thesis using CancelDelivered a by (auto simp: once_ok_def)
  next
    case (TimerFires fail)
    have "agent_ok E D run readOnly X (p\<lparr>pl_dedup := (pl_dedup p)\<lparr>dt_timer := Fired\<rparr>\<rparr>, cb, ss @ [Flush fail])"
      using agent_ok_timer [OF X, of Fired] by (auto simp: agent_ok_def saver_ok_def)
    then show ?thesis using TimerFires a assms(1) by (auto simp: once_ok_def)
  next
    case (Shutdown fail)
    have "agent_ok E D run readOnly X (p, cb, ss @ [Flush fail])" using X by (auto simp: agent_ok_def saver_ok_def)
    then show ?thesis using Shutdown a by (auto simp: once_ok_def)
  next
    case (Saver i)
    then show ?thesis using agent_ok_saver [OF X, of i] a assms(1) by (auto simp: once_ok_def split: prod.split)
  next
    case (Restart f)
    then show ?thesis using restart_ok [of E D run readOnly p cb ss] assms a by (cases f) auto
  qed
qed

lemma once_ok_run:
  assumes "once_ok E D run readOnly a" "finite D" "card D \<le> dedupCapacity" "\<forall>e \<in> set es. fair E D e"
    and "along reads_disk run readOnly es a" "along saves_apart run readOnly es a"
  shows "once_ok E D run readOnly (peel_run run readOnly es a)"
  using assms
proof (induction es arbitrary: a)
  case (Cons e es)
  have "once_ok E D run readOnly (peel_step run readOnly e a)" using Cons.prems by (intro once_ok_step) simp_all
  then show ?case using Cons.IH Cons.prems by (simp add: peel_run_def)
qed (simp add: peel_run_def)

lemma start_peel_ok: "once_ok E D run readOnly (start_peel peelID, Ret (), [])"
  unfolding once_ok_def
  by (rule exI [of _ "{}"]) (simp add: agent_ok_def callback_ok_def covers_def on_disk_def start_peel_def newDedupTracker_def tracker_ok_def
      entries_ok_def begun_def)

lemma once_ok_begun: "once_ok E D run readOnly (p, cb, ss) \<Longrightarrow> jid \<noteq> '''' \<Longrightarrow> begun jid p \<le> 1"
  by (auto simp: once_ok_def agent_ok_def)

lemma executed_begun: "length (filter (\<lambda>(job, req). job \<and> er_JID req = jid) (pl_executed p)) \<le> begun jid p"
  by (simp add: begun_def)

text \<open>A dispatch that is delivered, saved, accepted and executed without anything in between.\<close>

definition delivery :: "int \<Rightarrow> ExecRequest \<Rightarrow> peel_event list" where
  "delivery now req = [Deliver now None \<lparr> ms_Reply = '''', ms_Data = Inr req \<rparr>, Callback, Callback, Callback, Work now]"

lemma peel_run_append: "peel_run run readOnly (es @ es') a = peel_run run readOnly es' (peel_run run readOnly es a)"
  "peel_run run readOnly (e # es) a = peel_run run readOnly es (peel_step run readOnly e a)"
  by (simp_all add: peel_run_def)

lemma along_append: "along Q run readOnly (es @ es') a \<longleftrightarrow>
    along Q run readOnly es a \<and> along Q run readOnly es' (peel_run run readOnly es a)"
  by (induction es arbitrary: a) (simp_all add: peel_run_def)

lemma delivery_reads: "along reads_disk run readOnly (delivery now req) a"
  by (simp add: delivery_def)

lemma load_entries_unknown:
  "map_of m jid = None \<Longrightarrow> map_of (dt_m d) jid = None \<Longrightarrow> map_of (dt_m (load_entries m d)) jid = None"
proof (induction m arbitrary: d)
  case (Cons e es)
  obtain k epoch where "e = (k, epoch)" by (cases e)
  then show ?case using Cons by (auto simp: map_of_m_set split: if_splits)
qed simp

lemma dispatch_executes:
  assumes "pl_queue p = []" "map_of (dt_m (pl_dedup p)) (er_JID req) = None" "er_JID req \<noteq> ''''" "0 < er_Epoch req"
  shows "\<exists>p'. peel_run run readOnly (delivery now req) (p, Ret (), ss) = (p', Ret (), ss) \<and>
     pl_executed p' = pl_executed p @ [(True, req)] \<and> pl_queue p' = []"
proof -
  define d where "d = snd (Observe (er_JID req) (er_Epoch req) (pl_dedup p))"
  have o: "Observe (er_JID req) (er_Epoch req) (pl_dedup p) = ((0, False), d)" using assms(2) by (simp add: d_def Observe_def Let_def)
  let ?p = "p\<lparr>pl_dedup := d\<lparr>dt_timer := Unarmed\<rparr>, pl_disk := Some (dt_m d)\<rparr>"
  have "peel_run run readOnly (delivery now req) (p, Ret (), ss) =
      (run_exec_worker run now (accept_request run readOnly now '''' req ?p), Ret (), ss)"
    using assms(3,4) o by (simp add: delivery_def peel_run_def handleExecRequest_def ObserveDurable_def Flush_def writeFileAtomic_def
        and_do_assoc)
  moreover have "pl_executed (run_exec_worker run now (accept_request run readOnly now '''' req ?p)) = pl_executed p @ [(True, req)] \<and>
      pl_queue (run_exec_worker run now (accept_request run readOnly now '''' req ?p)) = []"
    using assms(1,3) by (simp add: run_exec_worker_def accept_request_def execQueueSize_def dispatchExec_def releaseExecCancel_def
        send_out_def publishJobReturn_def publishJobAck_def Let_def split: prod.split)
  ultimately show ?thesis by blast
qed

end
