(* ===== verification/JobVerdict.thy ===== *)
theory JobVerdict
  imports JobManager
begin

text \<open>
  What the verdict of a watcher means: every return it counts was recorded for a target, under that target's own
  subject or from the durable copies for that target.
\<close>

text \<open>The returns that reach a watcher for the peel \<open>p\<close> while it waits.\<close>

definition reported :: "wevent list \<Rightarrow> string \<Rightarrow> Return set" where
  "reported es p =
     {r. rt_PeelID r = p \<and>
         ((\<exists>subject. ReturnMsg subject (Inr r) \<in> set es \<and> subjectPeelID subject = Some p) \<or>
          (\<exists>rs. Replayed rs \<in> set es \<and> r \<in> set rs))}"

definition vouched :: "(string \<Rightarrow> Return set) \<Rightarrow> Job \<Rightarrow> Watcher \<Rightarrow> bool" where
  "vouched V j w \<longleftrightarrow> set (w_targets w) = set (jb_Targets j) \<and> jb_Targets (w_job w) = jb_Targets j \<and>
     distinct (m_keys (w_returns w)) \<and>
     (\<forall>(p, r) \<in> set (w_returns w). p \<in> set (jb_Targets j) \<and> (\<not> rt_Success r \<or> r \<in> V p))"

abbreviation running :: "Watcher \<Rightarrow> bool" where
  "running w \<equiv> jb_Status (w_job w) \<noteq> StatusComplete"

lemma vouched_return:
  assumes "vouched V j w" "p \<in> set (jb_Targets j)" "\<not> rt_Success r \<or> r \<in> V p"
  shows "vouched V j (w\<lparr>w_returns := m_set p r (w_returns w), w_newReturns := x\<rparr>)"
  using assms set_m_set [of p r "w_returns w"] by (auto simp: vouched_def distinct_update simp del: update_Some_unfold)

lemma admit_target:
  "vouched V j w \<Longrightarrow> admitPeel p w = (True, w') \<Longrightarrow> p \<in> set (jb_Targets j) \<and> w' = w"
  by (auto simp: vouched_def admitPeel_def isTarget_def split: if_splits)

lemma admit_vouched: "vouched V j w \<Longrightarrow> admitPeel p w = (b, w') \<Longrightarrow> vouched V j w' \<and> w_job w' = w_job w"
  by (auto simp: vouched_def admitPeel_def split: if_splits)

lemma ack_vouched: "vouched V j w \<Longrightarrow> vouched V j (ack_callback s a w) \<and> w_job (ack_callback s a w) = w_job w"
  by (auto simp: ack_callback_def vouched_def admitPeel_def split: option.split sum.split)

lemma record_vouched:
  assumes "vouched V j w" "record_return s payload w = (b, w')"
    and "\<And>r p. payload = Inr r \<Longrightarrow> subjectPeelID s = Some p \<Longrightarrow> rt_PeelID r = p \<Longrightarrow> r \<in> V p"
  shows "vouched V j w' \<and> w_job w' = w_job w"
proof (cases "subjectPeelID s")
  case (Some p)
  then show ?thesis
  proof (cases payload)
    case (Inr r)
    obtain c w1 where a: "admitPeel p w = (c, w1)" by fastforce
    have v: "vouched V j (w\<lparr>w_returns := m_set p r (w_returns w), w_newReturns := x\<rparr>)"
      if "p \<in> set (jb_Targets j)" "rt_PeelID r = p" for x
      using vouched_return [OF assms(1) that(1)] assms(3) [OF Inr Some that(2)] by simp
    show ?thesis
    proof (cases c)
      case True
      then have "p \<in> set (jb_Targets j)" "w1 = w" using admit_target [OF assms(1)] a by auto
      then show ?thesis using assms(1,2) a True Some Inr v by (auto simp: record_return_def split: if_splits option.splits)
    next
      case False
      then show ?thesis using admit_vouched [OF assms(1) a] assms(1,2) a Some Inr by (auto simp: record_return_def split: if_splits)
    qed
  qed (use assms(1,2) in \<open>auto simp: record_return_def\<close>)
qed (use assms(1,2) in \<open>auto simp: record_return_def\<close>)

lemma targetReturns_vouched:
  "vouched V j w \<Longrightarrow> targetReturns rs w = (kept, w') \<Longrightarrow>
    vouched V j w' \<and> w_job w' = w_job w \<and> set kept \<subseteq> set rs \<and> (\<forall>r \<in> set kept. rt_PeelID r \<in> set (jb_Targets j))"
proof (induction rs arbitrary: w kept w')
  case (Cons r rs)
  obtain c w1 where a: "admitPeel (rt_PeelID r) w = (c, w1)" by fastforce
  obtain kept1 w2 where t: "targetReturns rs w1 = (kept1, w2)" by fastforce
  have v: "vouched V j w1 \<and> w_job w1 = w_job w" using admit_vouched [OF Cons.prems(1) a] .
  show ?case
  proof (cases "rt_PeelID r = []")
    case True
    then have "targetReturns rs w = (kept, w')" using Cons.prems(2) by simp
    from Cons.IH [OF Cons.prems(1) this] show ?thesis by auto
  next
    case False
    have "vouched V j w2 \<and> w_job w2 = w_job w1 \<and> set kept1 \<subseteq> set rs \<and> (\<forall>r \<in> set kept1. rt_PeelID r \<in> set (jb_Targets j))"
      by (rule Cons.IH [OF _ t]) (simp add: v)
    moreover have "c \<Longrightarrow> rt_PeelID r \<in> set (jb_Targets j)" using admit_target [OF Cons.prems(1)] a by auto
    ultimately show ?thesis using Cons.prems(2) a t v False by (auto split: bool.splits)
  qed
qed simp

lemma merge_kept_vouched:
  "vouched V j w \<Longrightarrow> (\<And>r. r \<in> set rs \<Longrightarrow> rt_PeelID r \<in> set (jb_Targets j) \<and> r \<in> V (rt_PeelID r)) \<Longrightarrow>
    vouched V j (snd (merge_kept rs n w)) \<and> w_job (snd (merge_kept rs n w)) = w_job w"
proof (induction rs n w rule: merge_kept.induct)
  case (2 r rs n w)
  let ?w = "w\<lparr>w_returns := m_set (rt_PeelID r) r (w_returns w), w_newReturns := w_newReturns w @ [rt_PeelID r]\<rparr>"
  have "vouched V j ?w"
    using vouched_return [OF "2.prems"(1), of "rt_PeelID r" r] "2.prems"(2) [of r] by simp
  then show ?case using 2 by (auto simp: Let_def)
qed simp

lemma mark_silent_vouched:
  "vouched V j w \<Longrightarrow> set ts \<subseteq> set (jb_Targets j) \<Longrightarrow> mark_silent now ts w = (marked, w') \<Longrightarrow>
    vouched V j w' \<and> w_job w' = w_job w"
proof (induction now ts w arbitrary: marked w' rule: mark_silent.induct)
  case (2 now t ts w)
  let ?r = "unreachable_return w now t"
  let ?w = "w\<lparr>w_returns := m_set t ?r (w_returns w), w_newReturns := w_newReturns w @ [t]\<rparr>"
  have "vouched V j ?w"
    using vouched_return [OF "2.prems"(1), of t ?r] "2.prems"(2) by (simp add: unreachable_return_def)
  note v = this
  show ?case
  proof (cases "map_of (w_acks w) t \<noteq> None \<or> map_of (w_returns w) t \<noteq> None")
    case True
    then show ?thesis using "2.IH"(1) [OF True "2.prems"(1)] "2.prems"(2,3) by auto
  next
    case False
    obtain marked1 where "mark_silent now ts ?w = (marked1, w')"
      using "2.prems"(3) False by (auto simp: Let_def split: prod.splits)
    from "2.IH"(2) [OF False refl v _ this] show ?thesis using "2.prems"(2) by simp
  qed
qed simp

section \<open>Through the events\<close>

text \<open>What persisting leaves alone.\<close>

definition same_verdict :: "Watcher \<Rightarrow> Watcher \<Rightarrow> bool" where
  "same_verdict w w' \<longleftrightarrow> w_targets w' = w_targets w \<and> w_job w' = w_job w \<and> w_returns w' = w_returns w \<and>
     w_canceled w' = w_canceled w \<and> w_detached w' = w_detached w"

definition tallied :: "(string \<Rightarrow> Return set) \<Rightarrow> Job \<Rightarrow> Watcher \<Rightarrow> bool" where
  "tallied V j w \<longleftrightarrow> vouched V j w \<and> running w"

lemma tallied_same: "tallied V j w \<Longrightarrow> same_verdict w w' \<Longrightarrow> tallied V j w'"
  by (simp add: tallied_def vouched_def same_verdict_def)

lemma same_verdict_simps [simp]:
  "same_verdict w w" "same_verdict w (w\<lparr>w_newReturns := x\<rparr>)" "same_verdict w (nudge w)" "same_verdict w (w\<lparr>w_persistCh := n\<rparr>)"
  by (simp_all add: same_verdict_def nudge_def)

lemma ensures_persistReturns: "ensures (same_verdict w) (persistReturns env w)"
  unfolding persistReturns_def Let_def by (simp add: ensures_then split: option.split)

lemma tallied_fields:
  "tallied V j (w\<lparr>w_stop := b\<rparr>) = tallied V j w" "tallied V j (w\<lparr>w_canceled := c, w_stop := b\<rparr>) = tallied V j w"
  "tallied V j (w\<lparr>w_detached := c, w_stop := b\<rparr>) = tallied V j w" "tallied V j (w\<lparr>w_ackC := b\<rparr>) = tallied V j w"
  "tallied V j (w\<lparr>w_unreachC := b\<rparr>) = tallied V j w" "tallied V j (nudge w) = tallied V j w"
  "tallied V j (w\<lparr>w_subscribed := b\<rparr>) = tallied V j w" "tallied V j (w\<lparr>w_persistCh := n\<rparr>) = tallied V j w"
  "tallied V j (arm_timers w) = tallied V j w" "tallied V j (w\<lparr>w_canceled := b\<rparr>) = tallied V j w"
  "tallied V j (w\<lparr>w_detached := b\<rparr>) = tallied V j w"
  by (simp_all add: tallied_def vouched_def nudge_def arm_timers_def Let_def)

lemma ensures_return_callback:
  assumes "tallied V j w" "\<And>r p. payload = Inr r \<Longrightarrow> subjectPeelID s = Some p \<Longrightarrow> rt_PeelID r = p \<Longrightarrow> r \<in> V p"
  shows "ensures (tallied V j) (return_callback env s payload w)"
proof -
  obtain b w1 where r: "record_return s payload w = (b, w1)" by fastforce
  have v: "vouched V j w" "running w" using assms(1) by (simp_all add: tallied_def)
  have "vouched V j w1 \<and> w_job w1 = w_job w" by (rule record_vouched [OF v(1) r]) (rule assms(2))
  then have c: "tallied V j w1" using v(2) by (simp add: tallied_def)
  have p: "ensures (tallied V j) (persistReturns env w1)"
    by (rule ensures_mono [OF ensures_persistReturns]) (rule tallied_same [OF c])
  have s: "ensures (tallied V j) (and_do q (\<lambda>w. Ret (if P w then w\<lparr>w_stop := True\<rparr> else w)))"
    if "ensures (tallied V j) q" for q :: "('a, Watcher) prog" and P
    by (rule ensures_and_do [OF that]) (simp add: tallied_fields)
  show ?thesis
  proof (cases b)
    case True
    then have r': "record_return s payload w = (True, w1)" using r by simp
    have "ensures (tallied V j) (if B then if C then Ret (nudge w1) else persistReturns env w1 else Ret w1)" for B C
      using p c by (simp add: tallied_fields)
    then show ?thesis unfolding return_callback_def Let_def r' prod.case bool.case by (rule s)
  qed (simp add: return_callback_def r c)
qed

lemma MergeReturns_tallied:
  assumes "tallied V j w" "\<And>r. r \<in> set rs \<Longrightarrow> r \<in> V (rt_PeelID r)" shows "tallied V j (MergeReturns rs w)"
proof -
  obtain kept w1 where t: "targetReturns rs w = (kept, w1)" by fastforce
  obtain n w2 where m: "merge_kept kept 0 w1 = (n, w2)" by fastforce
  have "vouched V j w1 \<and> w_job w1 = w_job w \<and> set kept \<subseteq> set rs \<and> (\<forall>r \<in> set kept. rt_PeelID r \<in> set (jb_Targets j))"
    by (rule targetReturns_vouched [OF _ t]) (use assms(1) in \<open>simp add: tallied_def\<close>)
  then have k: "vouched V j w1" "w_job w1 = w_job w"
    "\<And>r. r \<in> set kept \<Longrightarrow> rt_PeelID r \<in> set (jb_Targets j) \<and> r \<in> V (rt_PeelID r)" using assms(2) by auto
  have "vouched V j w2 \<and> w_job w2 = w_job w1" using merge_kept_vouched [OF k(1,3), of kept 0] m by simp
  then have "tallied V j w2" using k(2) assms(1) by (simp add: tallied_def)
  then show ?thesis by (simp add: MergeReturns_def t m Let_def tallied_fields)
qed

lemma ensures_markUnreachable:
  assumes "tallied V j w" shows "ensures (\<lambda>(_, w'). tallied V j w') (markUnreachable env w)"
proof -
  have "tallied V j w'" if "mark_silent now (jb_Targets (w_job w)) w = (marked, w')" for now marked w'
    using mark_silent_vouched [OF _ _ that, of V j] assms by (auto simp: tallied_def vouched_def)
  then show ?thesis
    unfolding markUnreachable_def Let_def using assms
    by (simp add: ensures_then tallied_fields split: prod.split)
qed

lemma ensures_watch_event:
  assumes "tallied V j w" "e \<in> set es" "\<And>p. reported es p \<subseteq> V p"
  shows "ensures (\<lambda>(_, w'). tallied V j w') (watch_event env e w)"
proof (cases e)
  case (ReturnMsg s payload)
  have "ensures (tallied V j) (return_callback env s payload w)"
    by (rule ensures_return_callback [OF assms(1)]) (use assms(2,3) ReturnMsg in \<open>auto simp: reported_def\<close>)
  then have "ensures (\<lambda>(_, w'). tallied V j w') (and_do (return_callback env s payload w) (\<lambda>w. Ret (False, w)))"
    by (rule ensures_and_do) simp
  then show ?thesis using ReturnMsg by simp
next
  case (Replayed rs)
  have "tallied V j (MergeReturns rs w)"
    by (rule MergeReturns_tallied [OF assms(1)]) (use assms(2,3) Replayed in \<open>auto simp: reported_def\<close>)
  then show ?thesis using Replayed by simp
next
  case WriterTick
  have "ensures (tallied V j) (persistReturns env (w\<lparr>w_persistCh := n\<rparr>))" for n
    by (rule ensures_mono [OF ensures_persistReturns], rule tallied_same) (simp_all add: assms(1) tallied_fields)
  then have "ensures (\<lambda>(_, w'). tallied V j w')
      (and_do (persistReturns env (w\<lparr>w_persistCh := n\<rparr>)) (\<lambda>w. Ret (False, w)))" for n
    by (rule ensures_and_do) simp
  then show ?thesis using WriterTick assms(1) by simp
next
  case UnreachTimerFired
  have "ensures (\<lambda>(_, w'). tallied V j w') (markUnreachable env (w\<lparr>w_unreachC := False\<rparr>))"
    by (rule ensures_markUnreachable) (simp add: tallied_fields assms(1))
  then show ?thesis using UnreachTimerFired assms(1) by simp
next
  case AckTimerFired
  then show ?thesis using assms(1) by (auto intro!: ensures_then simp: tallied_fields)
next
  case (AckMsg s a)
  have "vouched V j (ack_callback s a w) \<and> w_job (ack_callback s a w) = w_job w"
    by (rule ack_vouched) (use assms(1) in \<open>simp add: tallied_def\<close>)
  then show ?thesis using AckMsg assms(1) by (simp add: tallied_def)
qed (use assms(1) in \<open>simp_all add: tallied_fields\<close>)

section \<open>The verdict\<close>

definition sound_verdict :: "(string \<Rightarrow> Return set) \<Rightarrow> Job \<Rightarrow> Watcher \<Rightarrow> bool" where
  "sound_verdict V j w \<longleftrightarrow> jb_Status (w_job w) = StatusComplete \<longrightarrow> (\<forall>t \<in> set (jb_Targets j). \<exists>r \<in> V t. ok_return r)"

lemma terminal_complete:
  assumes "vouched V j w" "terminalStatus w = StatusComplete" "t \<in> set (jb_Targets j)" shows "\<exists>r \<in> V t. ok_return r"
proof -
  have n: "length (jb_Targets j) \<le> length (w_returns w)"
    and f: "filter (\<lambda>(_, ret). \<not> rt_Success ret \<or> rt_Error ret \<noteq> []) (w_returns w) = []"
    using assms(1,2) by (auto simp: terminalStatus_def Let_def TargetCount_def vouched_def status_defs split: if_splits)
  have sub: "set (m_keys (w_returns w)) \<subseteq> set (jb_Targets j)" using assms(1) by (auto simp: vouched_def)
  have "card (set (m_keys (w_returns w))) = length (w_returns w)"
    using assms(1) distinct_card [of "m_keys (w_returns w)"] by (simp add: vouched_def)
  then have "card (set (jb_Targets j)) \<le> card (set (m_keys (w_returns w)))"
    using n card_length [of "jb_Targets j"] by simp
  then have "set (m_keys (w_returns w)) = set (jb_Targets j)" using sub by (simp add: card_seteq)
  then have "t \<in> fst ` set (w_returns w)" using assms(3) by simp
  then obtain r where r: "(t, r) \<in> set (w_returns w)" by auto
  then have "ok_return r" using f by (auto simp: ok_return_def filter_empty_conv)
  then show ?thesis using r assms(1) by (auto simp: vouched_def ok_return_def)
qed

lemma ensures_store_final: "ensures (\<lambda>w'. jb_Status (w_job w') = jb_Status (w_job w)) (store_final env w status)"
  unfolding store_final_def Let_def by (simp add: ensures_then split: sum.split)

lemma ensures_finalizeJob: "ensures (\<lambda>w'. jb_Status (w_job w') = status) (finalizeJob env w status)"
proof -
  have "ensures (\<lambda>w'. jb_Status (w_job w') = status) (store_final env (w'\<lparr>w_job := final_job w' status now\<rparr>) status)" for w' now
    by (rule ensures_mono [OF ensures_store_final]) (simp add: final_job_def)
  then show ?thesis
    unfolding finalizeJob_def Let_def by (simp add: ensures_then final_job_def split: option.split)
qed

lemma ensures_finish:
  assumes "tallied V j w" shows "ensures (sound_verdict V j) (finish env w)"
proof -
  have "ensures (sound_verdict V j) (persistReturns env w)"
    by (rule ensures_mono [OF ensures_persistReturns])
      (use assms in \<open>auto simp: same_verdict_def sound_verdict_def tallied_def\<close>)
  moreover have "ensures (sound_verdict V j) (finalizeJob env w (terminalStatus w))"
    by (rule ensures_mono [OF ensures_finalizeJob])
      (use assms terminal_complete in \<open>auto simp: sound_verdict_def tallied_def\<close>)
  ultimately show ?thesis by (simp add: finish_def)
qed

abbreviation sound_end :: "(string \<Rightarrow> Return set) \<Rightarrow> Job \<Rightarrow> Watcher option \<Rightarrow> bool" where
  "sound_end V j r \<equiv> \<forall>w. r = Some w \<longrightarrow> sound_verdict V j w"

lemma ensures_some: "ensures (sound_verdict V j) p \<Longrightarrow> ensures (sound_end V j) (and_do p (\<lambda>w. Ret (Some w)))"
  by (rule ensures_and_do) simp_all

lemma ensures_watch_loop:
  assumes "tallied V j w" "set es \<subseteq> set ES" "\<And>p. reported ES p \<subseteq> V p"
  shows "ensures (sound_end V j) (watch_loop env es w)"
  using assms(1,2)
proof (induction es arbitrary: w)
  case (Cons e es)
  have leave: "ensures (sound_end V j) (and_do (persistReturns env w') (\<lambda>w. and_do (finish env w) (\<lambda>w. Ret (Some w))))"
    if "tallied V j w'" for w'
    by (rule ensures_and_do [OF ensures_persistReturns]) (intro ensures_some ensures_finish tallied_same [OF that])
  have "e \<in> set ES" using Cons.prems(2) by simp
  from ensures_watch_event [OF Cons.prems(1) this assms(3)] show ?case
    unfolding watch_loop.simps by (rule ensures_and_do) (use Cons leave in auto)
qed simp

lemma ensures_failed_watch: "ensures (sound_end V j) (failed_watch env w)"
proof -
  have "ensures (\<lambda>w'. jb_Status (w_job w') = StatusFailed) (and_do (finalizeJob env w StatusFailed) (persistReturns env))"
    by (rule ensures_and_do [OF ensures_finalizeJob], rule ensures_mono [OF ensures_persistReturns]) (simp add: same_verdict_def)
  then have "ensures (sound_verdict V j) (and_do (finalizeJob env w StatusFailed) (persistReturns env))"
    by (rule ensures_mono) (simp add: sound_verdict_def status_defs)
  from ensures_some [OF this] show ?thesis by (simp add: failed_watch_def and_do_assoc)
qed

lemma ensures_Watch:
  assumes "tallied V j w" "\<And>p. reported es p \<subseteq> V p" shows "ensures (sound_end V j) (Watch env es w)"
proof -
  have l: "ensures (sound_end V j) (watch_loop env es (arm_timers w'))" if "tallied V j w'" for w'
    by (rule ensures_watch_loop [OF _ order_refl assms(2)]) (use that in \<open>simp_all add: tallied_fields\<close>)
  show ?thesis
    unfolding Watch_def
    by (intro ensures_Let ensures_some ensures_finish ensures_failed_watch l ensures_If ensures_option ensures_then [of _ _ "act _"])
      (use assms(1) in \<open>auto simp: tallied_fields\<close>)
qed

section \<open>Recovered returns\<close>

lemma SeedReturns_vouched:
  assumes "vouched V j w" "\<And>r. r \<in> set rs \<Longrightarrow> r \<in> V (rt_PeelID r)"
  shows "vouched V j (SeedReturns rs w) \<and> w_job (SeedReturns rs w) = w_job w"
proof -
  obtain kept w1 where t: "targetReturns rs w = (kept, w1)" by fastforce
  have k: "vouched V j w1 \<and> w_job w1 = w_job w \<and> set kept \<subseteq> set rs \<and> (\<forall>r \<in> set kept. rt_PeelID r \<in> set (jb_Targets j))"
    by (rule targetReturns_vouched [OF assms(1) t])
  have "vouched V j (w1\<lparr>w_returns := fold (\<lambda>r. m_set (rt_PeelID r) r) ks m\<rparr>)"
    if "vouched V j (w1\<lparr>w_returns := m\<rparr>)" "\<forall>r \<in> set ks. rt_PeelID r \<in> set (jb_Targets j) \<and> r \<in> V (rt_PeelID r)" for ks m
    using that
  proof (induction ks arbitrary: m)
    case (Cons r ks)
    have "vouched V j (w1\<lparr>w_returns := m_set (rt_PeelID r) r m\<rparr>)"
      using vouched_return [OF Cons.prems(1), of "rt_PeelID r" r "w_newReturns w1"] Cons.prems(2) by (simp add: vouched_def)
    then show ?case using Cons by simp
  qed simp
  from this [of "w_returns w1" kept] k assms(2) show ?thesis by (auto simp: SeedReturns_def t)
qed

lemma SeedReturnsPersist_vouched:
  assumes "vouched V j w" "\<And>r. r \<in> set rs \<Longrightarrow> r \<in> V (rt_PeelID r)"
  shows "vouched V j (SeedReturnsPersist rs w) \<and> w_job (SeedReturnsPersist rs w) = w_job w"
proof -
  obtain kept w1 where t: "targetReturns rs w = (kept, w1)" by fastforce
  have k: "vouched V j w1 \<and> w_job w1 = w_job w \<and> set kept \<subseteq> set rs \<and> (\<forall>r \<in> set kept. rt_PeelID r \<in> set (jb_Targets j))"
    by (rule targetReturns_vouched [OF assms(1) t])
  then have "vouched V j (snd (merge_kept kept 0 w1)) \<and> w_job (snd (merge_kept kept 0 w1)) = w_job w1"
    by (intro merge_kept_vouched) (use assms(2) in auto)
  then show ?thesis using k by (simp add: SeedReturnsPersist_def t)
qed

end
