(* ===== verification/JobProps.thy ===== *)
theory JobProps
  imports Cluster PeelExec JobVerdict
begin

text \<open>
  The properties of the job subsystem: what masters and peels guarantee together, what a verdict means, and where the
  code falls short of its comments.
\<close>

section \<open>A small fleet\<close>

definition demo_job :: Job where
  "demo_job = NewJob 5 ''j1'' ''test.ping'' [] [''web1''] 0"

definition demo_manager :: Manager where
  "demo_manager = NewManager ''m1''"

definition demo_cluster :: "fault list \<Rightarrow> cluster" where
  "demo_cluster faults =
     \<lparr> cl_now = 7, cl_faults = faults, cl_seq = 0, cl_jobs = [], cl_active = [], cl_masters = [], cl_heartbeats = [''web1''],
       cl_returns = [], cl_stream = [], cl_events = [], cl_sent = [], cl_started = [], cl_merges = [], cl_watchers = [], cl_signals = [] \<rparr>"

definition fresh_view :: jview where
  "fresh_view = \<lparr> v_writes = (\<lambda>_. []), v_sent = {}, v_started = {} \<rparr>"

lemma fresh_ok: "jobs_ok fresh_view"
  by (simp add: fresh_view_def jobs_ok_def history_ok_def)

lemma demo_fresh: "cluster_view (demo_cluster faults) = fresh_view"
  by (simp add: cluster_view_def demo_cluster_def fresh_view_def history_def fun_eq_iff)

text \<open>The requests that one dispatch publishes in that fleet.\<close>

definition dispatch_sent :: "fault list \<Rightarrow> (string \<times> ExecRequest) list" where
  "dispatch_sent faults = cl_sent (snd (exec (Dispatch cluster_env demo_manager demo_job) (demo_cluster faults)))"

lemma demo_dispatch_run: "\<exists>ps. runs (master_progs cluster_env cluster_view) (demo_cluster [])
    ps (snd (exec (Dispatch cluster_env demo_manager demo_job) (demo_cluster [])))"
proof -
  let ?p = "master_prog cluster_env (CallDispatch demo_manager demo_job)"
  have "?p \<in> master_progs cluster_env cluster_view (demo_cluster [])" by (simp only: master_progs_def) blast
  then obtain a where "runs (master_progs cluster_env cluster_view) (demo_cluster []) (Ret a # []) (snd (exec ?p (demo_cluster [])))"
    using runs_exec [OF runs_start [of "master_progs cluster_env cluster_view" "demo_cluster []"]] by metis
  moreover have "snd (exec ?p (demo_cluster [])) = snd (exec (Dispatch cluster_env demo_manager demo_job) (demo_cluster []))"
    by (simp split: prod.split)
  ultimately show ?thesis by auto
qed

section \<open>One request per job\<close>

text \<open>
  C4: at most one dispatch. However many masters dispatch, scan, reclaim, watch, cancel and record scheduled results at the same
  time, crash anywhere, lose replies or read stale records, all requests to execute a job that are ever published are one and
  the same request, with the same epoch and the same arguments, and they go to targets of the job only; and while the newest
  record of a job is a claim, or there is no record, nothing has been published for it.
\<close>
theorem one_request_per_job:
  assumes "job_bus env view" "view w0 = fresh_view" "runs (master_progs env view) w0 ps w"
    and "(subject, req) \<in> v_sent (view w)"
  shows "\<exists>j revn. (j, revn) \<in> set (v_writes (view w) (er_JID req)) \<and> jb_Status j \<noteq> StatusClaimed \<and>
      req = execRequestForJob (j\<lparr>jb_Epoch := revn\<rparr>) \<and> subject \<in> CmdSubject ` set (jb_Targets j) \<and>
      (\<forall>(subject', req') \<in> v_sent (view w). er_JID req' = er_JID req \<longrightarrow> req' = req) \<and>
      jb_Status (fst (hd (v_writes (view w) (er_JID req)))) \<noteq> StatusClaimed"
proof -
  have ok: "jobs_ok (view w)" using job_bus.masters_ok [OF assms(1,3)] fresh_ok assms(2) by (simp add: evolves_def)
  have a: "authorised (view w) s r" if "(s, r) \<in> v_sent (view w)" for s r using ok that by (auto simp: jobs_ok_def)
  obtain x where x: "granted (v_writes (view w) (er_JID req)) = Some x" "req = request_of x"
    "subject \<in> CmdSubject ` set (jb_Targets (fst x))" using a [OF assms(4)] by (auto simp: authorised_def)
  have same: "r = req" if "(s, r) \<in> v_sent (view w)" "er_JID r = er_JID req" for s r
    using authorised_same a [OF that(1)] a [OF assms(4)] that(2) by blast
  have m: "x \<in> set (v_writes (view w) (er_JID req))" "\<not> claimed x"
    using granted_mem [OF x(1)] by auto
  then obtain y ys where h: "v_writes (view w) (er_JID req) = y # ys" by (cases "v_writes (view w) (er_JID req)") auto
  have "history_ok (er_JID req) (y # ys)" using ok h by (auto simp: jobs_ok_def simp flip: h)
  then have "\<not> claimed y" using history_claimed m h by metis
  then show ?thesis using m x(2,3) h same
    by (intro exI [of _ "fst x"] exI [of _ "snd x"]) (auto simp: request_of_def)
qed

theorem one_request_per_job_witness:
  "\<exists>w. (''zester.cmd.web1'', request_of (demo_job, 2)) \<in> v_sent (cluster_view w) \<and>
    (\<forall>(subject, req) \<in> v_sent (cluster_view w). er_JID req = ''j1'' \<longrightarrow> req = request_of (demo_job, 2))"
proof -
  let ?w = "snd (exec (Dispatch cluster_env demo_manager demo_job) (demo_cluster []))"
  obtain ps where run: "runs (master_progs cluster_env cluster_view) (demo_cluster []) ps ?w" using demo_dispatch_run by blast
  have "dispatch_sent [] = [(''zester.cmd.web1'', request_of (demo_job, 2))]" by code_simp
  then have s: "(''zester.cmd.web1'', request_of (demo_job, 2)) \<in> v_sent (cluster_view ?w)"
    by (simp add: cluster_view_def dispatch_sent_def)
  have j: "er_JID (request_of (demo_job, 2)) = ''j1''" by code_simp
  show ?thesis
    using one_request_per_job [OF cluster_bus.job_bus_axioms demo_fresh run s] s unfolding j by blast
qed

section \<open>One execution per job and peel\<close>


text \<open>
  C0: the two other conditions are needed. Take a peel, with nothing in its queue, that gets a request for a job it has no record of, twice,
  and crashes in between. If it cannot read its record after the crash it starts with an empty one, and executes the job
  again. The same happens if the goroutine of a timer took its snapshot just before the first request came, and writes
  it, without the lock, after the callback has saved the request: the older snapshot replaces the newer one.
\<close>
theorem lost_record_executes_twice:
  assumes "pl_queue p = []" "map_of (dt_m (pl_dedup p)) (er_JID req) = None" "er_JID req \<noteq> ''''" "0 < er_Epoch req"
    and "es = delivery now req @ Restart (Inl err) # delivery later req \<or>
      dt_timer (pl_dedup p) = Armed \<and> es = [TimerFires None, Saver 0] @ delivery now req @
        [Saver 0, Restart (Inr (Some (dt_m (pl_dedup p))))] @ delivery later req"
  shows "along reads_disk run readOnly es (p, Ret (), []) \<and>
     pl_executed (fst (peel_run run readOnly es (p, Ret (), []))) = pl_executed p @ [(True, req), (True, req)]"
  using assms(5)
proof
  assume es: "es = delivery now req @ Restart (Inl err) # delivery later req"
  obtain p1 where p1: "peel_run run readOnly (delivery now req) (p, Ret (), []) = (p1, Ret (), [])"
    "pl_executed p1 = pl_executed p @ [(True, req)]" "pl_queue p1 = []" using dispatch_executes [OF assms(1-4)] by metis
  let ?q = "fst (peel_step run readOnly (Restart (Inl err)) (p1, Ret (), []))"
  obtain p2 where "peel_run run readOnly (delivery later req) (?q, Ret (), []) = (p2, Ret (), [])"
    "pl_executed p2 = pl_executed ?q @ [(True, req)]"
    using dispatch_executes [of ?q req run readOnly later "[]"] assms(3,4) by (auto simp: Load_def newDedupTracker_def)
  then show ?thesis using p1 by (simp add: es peel_run_append along_append delivery_reads)
next
  assume es: "dt_timer (pl_dedup p) = Armed \<and> es = [TimerFires None, Saver 0] @ delivery now req @
        [Saver 0, Restart (Inr (Some (dt_m (pl_dedup p))))] @ delivery later req"
  let ?m = "dt_m (pl_dedup p)" and ?t = "p\<lparr>pl_dedup := (pl_dedup p)\<lparr>dt_timer := Unarmed\<rparr>\<rparr>"
  let ?w = "[writeFileAtomic None ?m] :: (peel, string option) prog list"
  obtain p1 where p1: "peel_run run readOnly (delivery now req) (?t, Ret (), ?w) = (p1, Ret (), ?w)"
    "pl_executed p1 = pl_executed p @ [(True, req)]" "pl_queue p1 = []"
    using dispatch_executes [of ?t req run readOnly now ?w] assms by auto
  let ?q = "fst (peel_step run readOnly (Restart (Inr (Some ?m))) (p1\<lparr>pl_disk := Some ?m\<rparr>, Ret (), []))"
  have "map_of (dt_m (load_entries ?m (newDedupTracker dedupCapacity))) (er_JID req) = None"
    by (rule load_entries_unknown) (use assms(2) in \<open>simp_all add: newDedupTracker_def\<close>)
  then obtain p2 where "peel_run run readOnly (delivery later req) (?q, Ret (), []) = (p2, Ret (), [])"
    "pl_executed p2 = pl_executed ?q @ [(True, req)]"
    using dispatch_executes [of ?q req run readOnly later "[]"] assms(3,4) by (auto simp: Load_def)
  moreover have "step_prog (Flush None) (p\<lparr>pl_dedup := (pl_dedup p)\<lparr>dt_timer := Fired\<rparr>\<rparr>) = (writeFileAtomic None ?m, ?t)"
    by (simp add: Flush_def)
  moreover have "step_prog (writeFileAtomic None ?m) p1 = (Ret None, p1\<lparr>pl_disk := Some ?m\<rparr>)" by (simp add: writeFileAtomic_def)
  ultimately show ?thesis using p1 conjunct1 [OF es] conjunct2 [OF es] by (simp add: peel_run_append along_append delivery_reads)
qed

definition demo_executor :: executor where
  "demo_executor cancelled req =
     (\<lparr> xr_PeelID = ''web1'', xr_JID = '''', xr_Success = True, xr_Results = GStr ''pong'', xr_Error = '''' \<rparr>, 3)"

text \<open>The request arrives, is executed, arrives again after a restart, and a third time.\<close>

definition demo_events :: "peel_event list" where
  "demo_events =
     (let req = request_of (demo_job, 2) in
      delivery 8 req @ [Restart (Inr (Some [(''j1'', 2)]))] @ delivery 10 req @ [Shutdown None, Saver 0, Saver 0] @ delivery 12 req)"

definition demo_executions :: "(bool \<times> ExecRequest) list" where
  "demo_executions = pl_executed (fst (peel_run demo_executor (\<lambda>_. False) demo_events (start_peel ''web1'', Ret (), [])))"

lemma demo_reads: "along reads_disk demo_executor (\<lambda>_. False) demo_events (start_peel ''web1'', Ret (), [])"
  by code_simp

lemma demo_apart: "along saves_apart demo_executor (\<lambda>_. False) demo_events (start_peel ''web1'', Ret (), [])"
  by code_simp


theorem lost_record_executes_twice_witness:
  "length (pl_executed (fst (peel_run demo_executor (\<lambda>_. False)
     (delivery 8 (request_of (demo_job, 2)) @ Restart (Inl ''decode dedup state: EOF'') # delivery 10 (request_of (demo_job, 2)))
     (start_peel ''web1'', Ret (), [])))) = 2"
proof -
  have "er_JID (request_of (demo_job, 2)) = ''j1'' \<and> er_Epoch (request_of (demo_job, 2)) = 2" by code_simp
  then show ?thesis
    using lost_record_executes_twice [of "start_peel ''web1''" "request_of (demo_job, 2)"
        "delivery 8 (request_of (demo_job, 2)) @ Restart (Inl ''decode dedup state: EOF'') # delivery 10 (request_of (demo_job, 2))"
        8 "''decode dedup state: EOF''" 10 demo_executor "\<lambda>_. False"]
    by (simp add: start_peel_def newDedupTracker_def)
qed

section \<open>What a verdict means\<close>

text \<open>
  C6: a job is reported complete only if every target says so. Take a watcher as Dispatch and ReclaimJob start them, with the returns
  recovered from the bucket and from the stream, and any events in any order, including forged, foreign and late messages, and any
  answers of the bus. If it ends with the status complete, then for every target there is a return of success that
  came under the subject of that very target, or was recovered for it.
\<close>
theorem complete_is_truthful:
  assumes "jb_Status j \<noteq> StatusComplete"
  shows "ensures (\<lambda>r. \<forall>w. r = Some w \<longrightarrow> jb_Status (w_job w) = StatusComplete \<longrightarrow>
      (\<forall>t \<in> set (jb_Targets j). \<exists>ret. ok_return ret \<and> rt_PeelID ret = t \<and>
        (ret \<in> reported es t \<or> ret \<in> set existing \<or> ret \<in> set replayed)))
    (Watch env es ((SeedReturnsPersist replayed (SeedReturns existing (NewWatcher now j)))
       \<lparr>w_Redispatch := redispatch, w_AckWindow := window, w_UnreachableGrace := grace\<rparr>))"
proof -
  define V where "V t = reported es t \<union> {r \<in> set existing \<union> set replayed. rt_PeelID r = t}" for t
  let ?w0 = "NewWatcher now j" and ?w1 = "SeedReturns existing (NewWatcher now j)"
  have c0: "vouched V j ?w0" by (simp add: vouched_def NewWatcher_def)
  have c1: "vouched V j ?w1 \<and> w_job ?w1 = w_job ?w0"
    by (rule SeedReturns_vouched [OF c0]) (simp add: V_def)
  have "vouched V j (SeedReturnsPersist replayed ?w1) \<and> w_job (SeedReturnsPersist replayed ?w1) = w_job ?w1"
    by (rule SeedReturnsPersist_vouched) (simp_all add: c1 V_def)
  then have "tallied V j ((SeedReturnsPersist replayed ?w1)
      \<lparr>w_Redispatch := redispatch, w_AckWindow := window, w_UnreachableGrace := grace\<rparr>)"
    using c1 assms by (simp add: tallied_def vouched_def NewWatcher_def)
  from ensures_Watch [OF this, of es env] have y: "ensures (sound_end V j) (Watch env es ((SeedReturnsPersist replayed ?w1)
      \<lparr>w_Redispatch := redispatch, w_AckWindow := window, w_UnreachableGrace := grace\<rparr>))" by (simp add: V_def)
  have "rt_PeelID ret = t \<and> (ret \<in> reported es t \<or> ret \<in> set existing \<or> ret \<in> set replayed)" if "ret \<in> V t" for ret t
    using that by (auto simp: V_def reported_def)
  then show ?thesis using y unfolding sound_verdict_def by (elim ensures_mono) metis
qed

definition demo_return :: "string \<Rightarrow> Return" where
  "demo_return peelID =
     \<lparr> rt_JID = ''j1'', rt_PeelID = peelID, rt_Success = True, rt_ReturnData = GStr ''pong'', rt_Error = '''', rt_Duration = 3,
       rt_Timestamp = 9, rt_Unreachable = False \<rparr>"

text \<open>The return of the target after one that a stranger sends in its name.\<close>

definition demo_messages :: "wevent list" where
  "demo_messages =
     [ReturnMsg ''zester.job.j1.return.evil'' (Inr (demo_return ''web1'')),
      ReturnMsg ''zester.job.j1.return.web1'' (Inr (demo_return ''web1'')), DoneSeen]"

definition demo_watcher :: Watcher where
  "demo_watcher = NewWatcher 7 (demo_job\<lparr>jb_Status := StatusRunning, jb_Epoch := 2\<rparr>)"

definition final_status :: "Watcher option \<times> cluster \<Rightarrow> string option" where
  "final_status r = map_option (\<lambda>w. jb_Status (w_job w)) (fst r)"

theorem complete_is_truthful_witness:
  "final_status (exec (Watch cluster_env demo_messages demo_watcher) (demo_cluster [])) = Some StatusComplete \<and>
    (\<exists>ret \<in> reported demo_messages ''web1''. ok_return ret)"
proof
  let ?j = "demo_job\<lparr>jb_Status := StatusRunning, jb_Epoch := 2\<rparr>"
  obtain r w where e: "exec (Watch cluster_env demo_messages demo_watcher) (demo_cluster []) = (r, w)" by fastforce
  show f: "final_status (exec (Watch cluster_env demo_messages demo_watcher) (demo_cluster [])) = Some StatusComplete" by code_simp
  have "jb_Status ?j \<noteq> StatusComplete" by code_simp
  from complete_is_truthful [OF this, where es = demo_messages and existing = "[]" and replayed = "[]" and env = cluster_env
      and now = 7 and redispatch = False and window = 0 and grace = 0]
  have y: "ensures (\<lambda>r. \<forall>w. r = Some w \<longrightarrow> jb_Status (w_job w) = StatusComplete \<longrightarrow>
      (\<forall>t \<in> set (jb_Targets ?j). \<exists>ret. ok_return ret \<and> rt_PeelID ret = t \<and> ret \<in> reported demo_messages t))
      (Watch cluster_env demo_messages demo_watcher)"
    by (simp add: demo_watcher_def NewWatcher_def SeedReturns_def SeedReturnsPersist_def)
  obtain w' where "r = Some w'" "jb_Status (w_job w') = StatusComplete" using f e by (auto simp: final_status_def)
  moreover have "jb_Targets ?j = [''web1'']" by code_simp
  ultimately show "\<exists>ret \<in> reported demo_messages ''web1''. ok_return ret" using ensures_exec [OF y e] by auto
qed

section \<open>Where the code falls short\<close>






end
