(* ===== verification/Spec2Isabelle.thy ===== *)
theory Spec2Isabelle
  imports RunnerProps CompilerBuild TargetProps RolloutProps RolloutAbort JobProps
begin

text \<open>
  A verification development for zester, a configuration management system in Go. A master compiles state files
  into states, resolves target expressions into peels (agents) and dispatches jobs to them; a peel executes jobs and runs the
  states in dependency order; a rollout driver replaces the binaries of the nodes themselves. Masters and peels talk
  through NATS, whose key-value buckets hold all shared records.

  \<^bold>\<open>Conventions.\<close> Go strings are byte strings, Go maps association lists with distinct keys (\<^verbatim>\<open>Prelude\<close>), values of type
  \<^verbatim>\<open>any\<close> the datatype \<open>gval\<close> (\<^verbatim>\<open>GoValue\<close>). An error is its message, and a function that may fail has the result
  \<open>string + 'a\<close>. Where the order in which Go ranges over a map can be seen in the result, that order is an argument,
  and the theorems hold for every order. What lies outside the repository is an argument as well: the file system
  beyond the calls that are used, templates and YAML, regular expressions, the clock, the message bus, and what a module does.
  Concurrent code is cut into atomic actions, and the theorems quantify over all interleavings of them. Theory
  \<^verbatim>\<open>Actions\<close> has the programs for this: \<open>prog\<close> is a sequence of actions, \<open>exec\<close> runs it, \<open>crash\<close>
  cuts it off, \<open>runs\<close> interleaves any number of programs that start at any time and may stop anywhere, and the locale
  \<open>interference\<close> gives a rely/guarantee rule for them.

  \<^bold>\<open>State engine\<close> (\<^verbatim>\<open>src/pkg/state\<close>).
  \<^item> \<^verbatim>\<open>StateCore\<close> has the data of \<^verbatim>\<open>state.go\<close>, \<^verbatim>\<open>attributes.go\<close> and \<^verbatim>\<open>reserved.go\<close>: requisites with their parsers, results, guards and
    the wrapper of generic attributes. \<^verbatim>\<open>Registry\<close> is the module registry with its documentation (\<^verbatim>\<open>registry_spec.go\<close>).
  \<^item> \<^verbatim>\<open>Dag\<close> is \<^verbatim>\<open>dag.go\<close>: \<open>NewDAG\<close> and \<open>Resolve\<close> (\<open>sort_levels\<close> composes them). \<open>kahn_spec\<close> specifies the levels and
    the loop of the code refines it; the locale \<open>level_sort\<close> is what the runner relies on. The sort succeeds
    exactly for closed acyclic dependencies, the result does not depend on the order of maps, dependencies
    come first, and no state comes later than it must.
  \<^item> \<^verbatim>\<open>Runner\<close> is \<^verbatim>\<open>runner.go\<close>: \<open>Run\<close> over levels, \<open>main_step\<close> for the spawning loop with its requisites and the
    prereq gate, \<open>task_step\<close> for one goroutine with its retries. A schedule picks the next move. \<^verbatim>\<open>RunnerLevel\<close> has the
    invariant of one level, \<^verbatim>\<open>RunnerRun\<close> and \<^verbatim>\<open>RunnerProps\<close> what a run guarantees: every result is explained by the results
    of the states it depends on, the order and the number of module calls, the booking, the effect of fail_hard, and that
    require failures are never seen in revert mode.
  \<^item> \<^verbatim>\<open>TestModules\<close> has the \<^verbatim>\<open>test.*\<close> modules; the locale \<open>builders\<close> is the contract of a builder.

  \<^bold>\<open>State compiler\<close> (\<^verbatim>\<open>src/pkg/state/compiler\<close>).
  \<^item> \<^verbatim>\<open>GoPath\<close> is what is used of \<^verbatim>\<open>path/filepath\<close>. \<^verbatim>\<open>CompilerMerge\<close> has the pure passes (\<^verbatim>\<open>ref.go\<close>, \<^verbatim>\<open>merge.go\<close>,
    \<^verbatim>\<open>requisites.go\<close>, parsing of documents) and \<^verbatim>\<open>Compiler\<close> the loading with includes, extend, names lists, the build loop, the
    top file and the highstate.
  \<^item> \<^verbatim>\<open>CompilerMergeProps\<close>: what the merge of two argument lists keeps. \<^verbatim>\<open>CompilerRequisites\<close>: the rewriting of
    inverse requisites adds exactly the edges that were asked for. \<^verbatim>\<open>CompilerLoad\<close>: loading succeeds exactly if everything
    reachable parses without a cycle, and it ends. \<^verbatim>\<open>CompilerBuild\<close>: which states are built. This theory puts compiler and runner together.

  \<^bold>\<open>Targeting and facts\<close> (\<^verbatim>\<open>src/pkg/target\<close>, \<^verbatim>\<open>src/pkg/facts\<close>, \<^verbatim>\<open>src/pkg/enroll/verify.go\<close>, \<^verbatim>\<open>src/internal/peeld/basket.go\<close>).
  \<^item> \<^verbatim>\<open>PeelID\<close>: validity and encoding of peel ids. \<^verbatim>\<open>FactsIndex\<close>, \<^verbatim>\<open>FactsIndexProps\<close>: the inverted index refines a scan over all
    facts (locale \<open>peel_source\<close>), and its glob matcher agrees with the definition of wildcards.
  \<^item> \<^verbatim>\<open>Target\<close> has the matchers and the parser, \<^verbatim>\<open>TargetParse\<close> the grammar of its comment as inductive predicates and that
    the parser decides it, \<^verbatim>\<open>TargetResolve\<close> the resolution by a client, by the index and by the service of a master, and
    \<^verbatim>\<open>TargetProps\<close> that all of them agree, and when the scope of a basket query holds.

  \<^bold>\<open>Updates\<close> (\<^verbatim>\<open>src/pkg/update\<close>).
  \<^item> \<^verbatim>\<open>Slots\<close> (\<^verbatim>\<open>slots.go\<close>) is a program over system calls, each of which may fail or be the last before a crash. \<^verbatim>\<open>UpdateHandler\<close>
    has the supervisor, the commands and the soak goroutine (\<^verbatim>\<open>supervisor.go\<close>, \<^verbatim>\<open>handler.go\<close>), \<^verbatim>\<open>UpdateNode\<close> what a node guarantees: it
    always has a binary to run, recovers from crashes and resolves every soak; and two ways to lose a binary.
  \<^item> \<^verbatim>\<open>Rollout\<close> (\<^verbatim>\<open>rollout.go\<close>) is the driver over the record \<open>renv\<close> of requests. \<^verbatim>\<open>RolloutTouch\<close> and \<^verbatim>\<open>RolloutRun\<close> show, for any
    environment, which nodes it talks to and when it goes on to the next batch; \<^verbatim>\<open>Fleet\<close> is an environment of nodes
    that run the modelled handler and of a bucket; \<^verbatim>\<open>RolloutProps\<close> and \<^verbatim>\<open>RolloutAbort\<close> (locales \<open>cas_bucket\<close>, \<open>keyed_bucket\<close>)
    show containment, and that an abort through another master is never overwritten.

  \<^bold>\<open>Jobs\<close> (\<^verbatim>\<open>src/pkg/job\<close>, \<^verbatim>\<open>src/internal/peeld/handler.go\<close>, \<^verbatim>\<open>src/internal/peeld/dedup.go\<close>).
  \<^item> \<^verbatim>\<open>JobCore\<close> has the records, subjects and keys. \<^verbatim>\<open>JobWatcher\<close> (\<^verbatim>\<open>watcher.go\<close>, \<^verbatim>\<open>active.go\<close>) is the watcher of a job as a machine that
    reacts to messages, calls, its writer and its timers, and the record \<open>jenv\<close> of requests to the bus. \<^verbatim>\<open>JobManager\<close> has dispatch,
    reclaim, cancellation and queries (\<^verbatim>\<open>manager.go\<close>), heartbeats (\<^verbatim>\<open>heartbeat.go\<close>), one scan for orphans (\<^verbatim>\<open>recovery.go\<close>),
    scheduled results (\<^verbatim>\<open>schedresult.go\<close>) and what a replay of the stream yields (\<^verbatim>\<open>replay.go\<close>).
  \<^item> \<^verbatim>\<open>JobSafety\<close> states the laws of the bus (locale \<open>job_bus\<close>: revisions grow, an update succeeds only on the newest revision;
    replies may be lost and reads may be old) and proves that any number of masters, interleaved request by request and
    crashing anywhere, keep the histories of job records well formed and publish one request per job. \<^verbatim>\<open>Cluster\<close> is
    a bus that satisfies the laws, with a list of faults, on which examples are computed.
  \<^item> \<^verbatim>\<open>PeelExec\<close> is the peel: the persisted record of dispatches, the queue and its worker, restarts. \<^verbatim>\<open>JobVerdict\<close> follows
    the returns that a watcher counts back to the messages they came in. \<^verbatim>\<open>JobProps\<close> has the properties: one request per
    job, at most one execution per job and peel, a truthful verdict, and five places where code and comments differ.

  \<^bold>\<open>Bounds.\<close> Three recursions of the source carry a number that bounds their depth, with \<open>None\<close> for a bound that is too small.
  The recursion over includes (\<open>load_ref\<close>) needs at most the number of reachable references plus one, and a larger
  bound changes nothing (\<^verbatim>\<open>CompilerLoad\<close>). The parser of compound expressions gets a bound computed from the number of tokens, which
  is always enough (\<^verbatim>\<open>TargetParse\<close>), so that \<open>ParseCompound\<close> is total. \<open>wait_polls\<close> counts the polls before a deadline,
  as the code does with a timer. All other loops are structural or have a termination proof. The loop of a watcher reads a
  list of events, and its result is \<open>None\<close> while it waits for more. Integers are unbounded where the code cannot
  overflow, and 64 bits wide in \<open>intToStr\<close>, where it can.

  \<^bold>\<open>Not modelled.\<close> Log lines, metrics and durations of calls. Encoding on the wire, whose errors are possible answers of a
  request. A nil map and an empty map of a job record are the same. Messages that reach a watcher after its loop ended.
  The modules that act on the operating system and their helpers (\<^verbatim>\<open>src/pkg/exec\<close>, \<^verbatim>\<open>src/pkg/execmod\<close>), Starlark, templates,
  schemas and their documentation: their effects are external commands or third-party interpreters. The
  reactor, schedules and beacons, which trigger jobs; settings and the distribution of state files; enrolment,
  authentication and certificates, which rest on cryptographic libraries; the client of the bus; garbage collection of
  releases, automatic rollouts and the order of versions; the wiring of the daemons, configuration and the command line.
\<close>


section \<open>From state files to a run\<close>

text \<open>The states that the files want to be done before the state \<open>i\<close> of module \<open>m\<close>.\<close>

definition wanted_before :: "mergedStateMap \<Rightarrow> string \<Rightarrow> string \<Rightarrow> string set" where
  "wanted_before st i m = reqs st i m ''require'' \<union> asks st ''require_in'' i m \<union> asks st ''prereq'' i m"

lemma compiled_require:
  assumes "cpermutes cro" "compile_loaded cro cfg (loaded, sources) = Inr res"
    and "merge_files cro cfg (loaded, sources) = Inr st" "wf_states st"
    and "registry_ok (load_star cfg sources)"
    and "map_of (flattenArgsList (args_of st i m)) ''names'' = None" "A \<in> wanted_before st i m"
  obtains s where "s \<in> set (co_States res)" "st_Name s = m @ '':'' @ i" "A \<in> set (AllDeps (st_Reqs s))"
proof -
  obtain st' where st': "transformRequisites cro st = Inr st'"
    and b: "build_states cro (load_star cfg sources) (cc_Guards cfg) st' = Inr (co_States res)"
    using assms(2,3) by (auto simp: compile_loaded_def split: sum.splits)
  have wf': "wf_states st'" by (rule transform_stages [OF assms(1,4) st'])
  have A: "A \<in> reqs st' i m ''require''"
    using assms(7) transform_edges [OF assms(1,4) st', of i m "''require''"]
    by (auto simp: wanted_before_def reqs_ent [OF assms(4)] reqs_ent [OF wf'] asks_reaches [OF assms(4)]
        requisiteKeys_def inverseForward_eq)
  then have e: "entry st' i m (args_of st' i m)"
    by (intro args_entry) (auto simp: reqs_def flattenArgsList_def parseReqList_def get_any_def ParseReqEntries_def)
  have "map_of (flattenArgsList (args_of st' i m)) ''names'' = None"
    using assms(6) transform_other_keys [OF assms(1,4) st', of "''names''" i m] wf' assms(4)
    by (simp add: flatten_wf wf_states_def requisiteKeys_def inverseForward_eq)
  moreover have "namesKey = ''names''" by code_simp
  ultimately have n: "expandNames (flattenArgsList (args_of st' i m)) = None"
    by (simp add: expandNames_def)
  obtain s where "s \<in> set (co_States res)" "st_Name s = m @ '':'' @ i"
    "st_Reqs s = ParseRequisites (flattenArgsList (args_of st' i m))"
    using build_plain_entry [OF assms(1) _ registry_ok_builders [OF assms(5)] b e n] wf'
    by (auto simp: wf_states_def)
  moreover from this(3) have "A \<in> set (AllDeps (st_Reqs s))"
    using A by (simp add: set_AllDeps ParseRequisites_def reqs_def requisiteKeys_def)
  ultimately show thesis using that by blast
qed




definition demo_project :: "(string, config) gomap" where
  "demo_project =
     [(''/srv/top/init.zy'',
        [(''include'', GList [GStr ''base'']), (''app'', GMap [(''test.ping'', GList [])])]),
      (''/srv/base/init.zy'',
        [(''setup'', GMap [(''test.succeed_with_changes'',
           GList [GMap [(''require_in'', GList [GStr ''test.ping:app''])]])])])]"

definition demo_project_config :: "nat CompilerConfig" where
  "demo_project_config = demo_compiler\<lparr>
     cc_readFile := (\<lambda>path. if map_of demo_project path = None then Inl ''no such file'' else Inr path),
     cc_yaml := (\<lambda>content. case map_of demo_project content of Some d \<Rightarrow> Inr d | None \<Rightarrow> Inl ''yaml''),
     cc_Registry := demo_registry\<rparr>"

lemma demo_project_loaded:
  obtains loaded sources where
    "load_refs demo_project_config 3 [''top''] [] ([], []) = Some (Inr (loaded, sources))"
    "merge_files (\<lambda>ctx xs. xs) demo_project_config (loaded, sources) =
       Inr [(''app'', [(''test.ping'', [])]),
            (''setup'', [(''test.succeed_with_changes'', [[(''require_in'', GList [GStr ''test.ping:app''])]])])]"
proof -
  have "map_option (map_sum id (merge_files (\<lambda>ctx xs. xs) demo_project_config))
      (load_refs demo_project_config 3 [''top''] [] ([], [])) =
      Some (Inr (Inr [(''app'', [(''test.ping'', [])]),
            (''setup'', [(''test.succeed_with_changes'', [[(''require_in'', GList [GStr ''test.ping:app''])]])])]))"
    by code_simp
  then show thesis
    using that by (cases "load_refs demo_project_config 3 [''top''] [] ([], [])") (auto simp: map_sum_def split: sum.splits)
qed

definition demo_run :: "nat CompileResult \<Rightarrow> (string \<times> call) list" where
  "demo_run res =
     (case Run in_order (\<lambda>_. []) (co_States res) ModeApply demo_env of Inr (r, e) \<Rightarrow> e_calls e | Inl _ \<Rightarrow> [])"



end
